(* ===== verification/Go_Prelude.thy ===== *)
theory Go_Prelude
  imports Main "HOL-Library.Multiset" "HOL-Library.Char_ord" "HOL-Library.List_Lexorder"
    "HOL-Library.Sublist"
begin

text \<open>
  What every component shares: the parts of Go's standard library that the program calls
  (packages \<open>strings\<close>, \<open>strconv\<close>, \<open>cmp\<close>, \<open>slices\<close>, \<open>time\<close>), written as executable functions
  on byte strings, and the lemmas about them.

  A Go string is a sequence of bytes, here a \<open>string\<close> (a list of 8-bit characters); string
  comparison in Go is bytewise and lexicographic, which is the order of the library theories
  Char_ord and List_Lexorder. A Go \<open>int\<close> is 64 bits wide: it is an \<open>int\<close> here, and
  \<open>wrap64\<close> is written where an operation of the source can leave the range. A \<open>time.Time\<close> is
  the \<open>int\<close> number of nanoseconds since Go's zero time (1 January of year 1, UTC), so that
  \<open>IsZero\<close> is comparison with 0 and \<open>Before\<close>, \<open>After\<close> and \<open>Compare\<close> are the order of \<open>int\<close>.
  An \<open>error\<close> result is a sum, \<open>Inl\<close> the error.
\<close>

named_theorems go_simps "unfolding rules for the small helpers of the standard library"

type_synonym time = int

text \<open>A Go function that returns a value and an error: \<open>Inl\<close> the error's text.\<close>

type_synonym 'a result = "string + 'a"

definition IsZero :: "time \<Rightarrow> bool" where
  "IsZero t \<longleftrightarrow> t = 0"

declare IsZero_def [go_simps]

section \<open>Machine integers\<close>

definition wrap64 :: "int \<Rightarrow> int" where
  "wrap64 x = (x + 2 ^ 63) mod 2 ^ 64 - 2 ^ 63"

definition in_int64 :: "int \<Rightarrow> bool" where
  "in_int64 x \<longleftrightarrow> - (2 ^ 63) \<le> x \<and> x < 2 ^ 63"

lemma wrap64_id: "in_int64 x \<Longrightarrow> wrap64 x = x"
  by (simp add: wrap64_def in_int64_def mod_pos_pos_trivial)

lemma wrap64_range: "in_int64 (wrap64 x)"
proof -
  have "0 \<le> (x + 2 ^ 63) mod 2 ^ 64" and "(x + 2 ^ 63) mod 2 ^ 64 < 2 ^ 64"
    by simp_all
  then show ?thesis by (simp add: wrap64_def in_int64_def)
qed

section \<open>Bytes\<close>

definition byte :: "char \<Rightarrow> int" where
  "byte c = of_char c"

lemma byte_bounds: "0 \<le> byte c" "byte c < 256"
proof -
  have "byte c = int (of_char c)" by (simp add: byte_def of_nat_of_char)
  then show "0 \<le> byte c" by simp
  have "(of_char c :: nat) < 256" by (rule nat_of_char_less_256)
  then have "int (of_char c) < 256" by linarith
  then show "byte c < 256" by (simp add: byte_def of_nat_of_char)
qed

lemma byte_inj [simp]: "byte c = byte d \<longleftrightarrow> c = d"
  by (simp add: byte_def)

lemma byte_char_of: "byte (char_of (n::nat)) = int (n mod 256)"
  by (metis byte_def of_char_of of_nat_of_char)

definition isDigit :: "char \<Rightarrow> bool" where
  "isDigit c \<longleftrightarrow> byte c \<ge> 48 \<and> byte c \<le> 57"

definition isLetter :: "char \<Rightarrow> bool" where
  "isLetter c \<longleftrightarrow> (byte c \<ge> 97 \<and> byte c \<le> 122) \<or> (byte c \<ge> 65 \<and> byte c \<le> 90)"

definition ascii_lower :: "char \<Rightarrow> char" where
  "ascii_lower c = (if byte c \<ge> 65 \<and> byte c \<le> 90 then char_of (nat (byte c) + 32) else c)"

definition ascii_upper :: "char \<Rightarrow> char" where
  "ascii_upper c = (if byte c \<ge> 97 \<and> byte c \<le> 122 then char_of (nat (byte c) - 32) else c)"

section \<open>Package strings: prefixes, cutting, splitting\<close>

definition has_prefix :: "string \<Rightarrow> string \<Rightarrow> bool" where
  "has_prefix s p \<longleftrightarrow> take (length p) s = p"

definition has_suffix :: "string \<Rightarrow> string \<Rightarrow> bool" where
  "has_suffix s p \<longleftrightarrow> length p \<le> length s \<and> drop (length s - length p) s = p"

definition trim_prefix :: "string \<Rightarrow> string \<Rightarrow> string" where
  "trim_prefix s p = (if has_prefix s p then drop (length p) s else s)"

definition trim_suffix :: "string \<Rightarrow> string \<Rightarrow> string" where
  "trim_suffix s p = (if has_suffix s p then take (length s - length p) s else s)"

text \<open>\<open>strings.CutPrefix\<close>: the rest and \<open>ok\<close> as an option.\<close>

definition cut_prefix :: "string \<Rightarrow> string \<Rightarrow> string option" where
  "cut_prefix s p = (if has_prefix s p then Some (drop (length p) s) else None)"

text \<open>\<open>strings.Cut\<close> at a one-byte separator: before, after and \<open>found\<close> as an option.\<close>

fun cut_byte :: "string \<Rightarrow> char \<Rightarrow> (string \<times> string) option" where
  "cut_byte [] c = None"
| "cut_byte (x # xs) c =
     (if x = c then Some ([], xs) else map_option (\<lambda>(b, a). (x # b, a)) (cut_byte xs c))"

text \<open>\<open>strings.IndexByte\<close> and \<open>strings.LastIndexByte\<close>, the index -1 as \<open>None\<close>.\<close>

fun index_byte :: "string \<Rightarrow> char \<Rightarrow> nat option" where
  "index_byte [] c = None"
| "index_byte (x # xs) c = (if x = c then Some 0 else map_option Suc (index_byte xs c))"

fun last_index_byte :: "string \<Rightarrow> char \<Rightarrow> nat option" where
  "last_index_byte [] c = None"
| "last_index_byte (x # xs) c =
     (case last_index_byte xs c of
        Some i \<Rightarrow> Some (Suc i)
      | None \<Rightarrow> if x = c then Some 0 else None)"

text \<open>\<open>strings.Index\<close>.\<close>

fun index_str :: "string \<Rightarrow> string \<Rightarrow> nat option" where
  "index_str [] p = (if p = [] then Some 0 else None)"
| "index_str (x # xs) p =
     (if has_prefix (x # xs) p then Some 0 else map_option Suc (index_str xs p))"

definition contains_str :: "string \<Rightarrow> string \<Rightarrow> bool" where
  "contains_str s p \<longleftrightarrow> index_str s p \<noteq> None"

definition contains_byte :: "string \<Rightarrow> char \<Rightarrow> bool" where
  "contains_byte s c \<longleftrightarrow> c \<in> set s"

text \<open>\<open>strings.Split\<close> at a one-byte separator; never empty.\<close>

fun split_byte :: "string \<Rightarrow> char \<Rightarrow> string list" where
  "split_byte [] c = [[]]"
| "split_byte (x # xs) c =
     (if x = c then [] # split_byte xs c
      else case split_byte xs c of [] \<Rightarrow> [[x]] | y # ys \<Rightarrow> (x # y) # ys)"

text \<open>\<open>strings.Split\<close> at a non-empty separator string.\<close>

function split_str :: "string \<Rightarrow> string \<Rightarrow> string \<Rightarrow> string list" where
  "split_str sep acc s =
     (if s = [] then [rev acc]
      else if sep \<noteq> [] \<and> has_prefix s sep
      then rev acc # split_str sep [] (drop (length sep) s)
      else split_str sep (hd s # acc) (tl s))"
  by pat_completeness auto
termination
  by (relation "measure (\<lambda>(sep, acc, s). length s)") (auto simp: length_greater_0_conv)

declare split_str.simps [simp del]

fun join :: "string \<Rightarrow> string list \<Rightarrow> string" where
  "join sep [] = []"
| "join sep [x] = x"
| "join sep (x # y # zs) = x @ sep @ join sep (y # zs)"

text \<open>\<open>strings.ReplaceAll\<close> with a non-empty pattern, left to right without overlap.\<close>

function replace_all :: "string \<Rightarrow> string \<Rightarrow> string \<Rightarrow> string" where
  "replace_all s old new =
     (if s = [] then []
      else if old \<noteq> [] \<and> has_prefix s old
      then new @ replace_all (drop (length old) s) old new
      else hd s # replace_all (tl s) old new)"
  by pat_completeness auto
termination
  by (relation "measure (\<lambda>(s, old, new). length s)") (auto simp: length_greater_0_conv)

declare replace_all.simps [simp del]

definition to_lower :: "string \<Rightarrow> string" where
  "to_lower s = map ascii_lower s"

definition to_upper :: "string \<Rightarrow> string" where
  "to_upper s = map ascii_upper s"

definition equal_fold :: "string \<Rightarrow> string \<Rightarrow> bool" where
  "equal_fold s t \<longleftrightarrow> to_lower s = to_lower t"

definition count_byte :: "string \<Rightarrow> char \<Rightarrow> nat" where
  "count_byte s c = length (filter (\<lambda>x. x = c) s)"

lemma has_prefix_append [simp]: "has_prefix (p @ s) p"
  by (simp add: has_prefix_def)

lemma has_prefix_iff: "has_prefix s p \<longleftrightarrow> (\<exists>r. s = p @ r)"
proof
  assume "has_prefix s p"
  then have "s = p @ drop (length p) s"
    by (metis append_take_drop_id has_prefix_def)
  then show "\<exists>r. s = p @ r" by blast
qed (auto simp: has_prefix_def)

lemma has_prefix_Nil [simp]: "has_prefix s []"
  by (simp add: has_prefix_def)

lemma has_prefix_Nil_left [simp]: "has_prefix [] p \<longleftrightarrow> p = []"
  by (auto simp: has_prefix_def)

lemma has_prefix_Cons [simp]:
  "has_prefix (x # xs) (y # ys) \<longleftrightarrow> x = y \<and> has_prefix xs ys"
  by (auto simp: has_prefix_def)

lemma trim_prefix_append [simp]: "trim_prefix (p @ s) p = s"
  by (simp add: trim_prefix_def)

lemma cut_prefix_append [simp]: "cut_prefix (p @ s) p = Some s"
  by (simp add: cut_prefix_def)

lemma cut_prefix_Some_iff: "cut_prefix s p = Some r \<longleftrightarrow> s = p @ r"
  by (auto simp: cut_prefix_def has_prefix_iff)

lemma cut_prefix_None_iff: "cut_prefix s p = None \<longleftrightarrow> \<not> has_prefix s p"
  by (simp add: cut_prefix_def)

lemma has_suffix_append [simp]: "has_suffix (s @ p) p"
  by (simp add: has_suffix_def)

lemma has_suffix_iff: "has_suffix s p \<longleftrightarrow> (\<exists>r. s = r @ p)"
proof
  assume "has_suffix s p"
  then have "s = take (length s - length p) s @ p"
    by (metis append_take_drop_id has_suffix_def)
  then show "\<exists>r. s = r @ p" by blast
qed (auto simp: has_suffix_def)

lemma cut_byte_Some_iff: "cut_byte s c = Some (a, b) \<longleftrightarrow> s = a @ c # b \<and> c \<notin> set a"
proof (induction s arbitrary: a)
  case Nil
  then show ?case by simp
next
  case (Cons x xs)
  show ?case
  proof (cases "x = c")
    case True
    then show ?thesis by (cases a) auto
  next
    case False
    then show ?thesis using Cons.IH by (cases a) auto
  qed
qed

lemma cut_byte_None_iff: "cut_byte s c = None \<longleftrightarrow> c \<notin> set s"
  by (induction s) auto

lemma cut_byte_append [simp]: "c \<notin> set a \<Longrightarrow> cut_byte (a @ c # b) c = Some (a, b)"
  by (simp add: cut_byte_Some_iff)

lemma index_byte_Some_iff:
  "index_byte s c = Some i \<longleftrightarrow> i < length s \<and> s ! i = c \<and> c \<notin> set (take i s)"
proof (induction s arbitrary: i)
  case Nil
  then show ?case by simp
next
  case (Cons x xs)
  then show ?case by (cases i) auto
qed

lemma index_byte_None_iff: "index_byte s c = None \<longleftrightarrow> c \<notin> set s"
  by (induction s) auto

lemma last_index_byte_None_iff: "last_index_byte s c = None \<longleftrightarrow> c \<notin> set s"
  by (induction s) (auto split: option.splits)

lemma last_index_byte_append:
  "c \<notin> set b \<Longrightarrow> last_index_byte (a @ c # b) c = Some (length a)"
proof (induction a)
  case Nil
  then have "last_index_byte b c = None" by (simp add: last_index_byte_None_iff)
  then show ?case by simp
qed (simp split: option.splits)

lemma split_byte_ne [simp]: "split_byte s c \<noteq> []"
  by (induction s) (auto split: list.splits)

lemma split_byte_no_sep: "c \<notin> set s \<Longrightarrow> split_byte s c = [s]"
  by (induction s) auto

lemma split_byte_append:
  "c \<notin> set a \<Longrightarrow> split_byte (a @ c # b) c = a # split_byte b c"
  by (induction a) auto

lemma split_byte_parts: "p \<in> set (split_byte s c) \<Longrightarrow> c \<notin> set p"
  by (induction s arbitrary: p) (auto split: list.splits if_splits)

lemma join_Cons: "xs \<noteq> [] \<Longrightarrow> join sep (x # xs) = x @ sep @ join sep xs"
  by (cases xs) auto

lemma split_byte_join:
  assumes "ps \<noteq> []" and "\<And>p. p \<in> set ps \<Longrightarrow> c \<notin> set p"
  shows "split_byte (join [c] ps) c = ps"
  using assms
proof (induction ps)
  case (Cons p ps)
  then show ?case
    by (cases "ps = []") (auto simp: split_byte_no_sep split_byte_append join_Cons)
qed simp

lemma join_split_byte: "join [c] (split_byte s c) = s"
proof (induction s)
  case (Cons x xs)
  show ?case
  proof (cases "x = c")
    case True
    then show ?thesis using Cons by (simp add: join_Cons)
  next
    case False
    obtain y ys where ys: "split_byte xs c = y # ys"
      using split_byte_ne by (cases "split_byte xs c") auto
    with Cons False show ?thesis by (cases ys) auto
  qed
qed simp

section \<open>Runes, white space and fields\<close>

text \<open>
  Where Go ranges over runes it decodes UTF-8: a valid sequence is one rune, an invalid byte
  is a rune of width one. \<open>rune_width\<close> is the width of the first rune of a non-empty string.
\<close>

definition cont_byte :: "int \<Rightarrow> bool" where
  "cont_byte b \<longleftrightarrow> 128 \<le> b \<and> b < 192"

definition rune_width :: "string \<Rightarrow> nat" where
  "rune_width s =
     (let bs = map byte s; b0 = (case bs of [] \<Rightarrow> 0 | x # _ \<Rightarrow> x) in
      if b0 < 128 then 1
      else (case bs of
          _ # b1 # rest \<Rightarrow>
            if 194 \<le> b0 \<and> b0 \<le> 223 \<and> cont_byte b1 then 2
            else (case rest of
                b2 # rest' \<Rightarrow>
                  if ((b0 = 224 \<and> 160 \<le> b1 \<and> b1 < 192)
                      \<or> (((225 \<le> b0 \<and> b0 \<le> 236) \<or> b0 = 238 \<or> b0 = 239) \<and> cont_byte b1)
                      \<or> (b0 = 237 \<and> 128 \<le> b1 \<and> b1 < 160)) \<and> cont_byte b2 then 3
                  else (case rest' of
                      b3 # _ \<Rightarrow>
                        if ((b0 = 240 \<and> 144 \<le> b1 \<and> b1 < 192)
                            \<or> (241 \<le> b0 \<and> b0 \<le> 243 \<and> cont_byte b1)
                            \<or> (b0 = 244 \<and> 128 \<le> b1 \<and> b1 < 144)) \<and> cont_byte b2 \<and> cont_byte b3
                        then 4 else 1
                    | [] \<Rightarrow> 1)
              | [] \<Rightarrow> 1)
        | _ \<Rightarrow> 1))"

lemma rune_width_pos [simp]: "0 < rune_width s"
  by (simp add: rune_width_def Let_def split: list.splits)

function runes :: "string \<Rightarrow> string list" where
  "runes s = (if s = [] then [] else take (rune_width s) s # runes (drop (rune_width s) s))"
  by pat_completeness auto
termination
  by (relation "measure length") (auto simp: length_greater_0_conv)

declare runes.simps [simp del]

lemma concat_runes: "concat (runes s) = s"
proof (induction s rule: runes.induct)
  case (1 s)
  show ?case
  proof (cases "s = []")
    case True
    then show ?thesis by (simp add: runes.simps)
  next
    case False
    with 1 show ?thesis by (subst runes.simps) simp
  qed
qed

text \<open>\<open>unicode.IsSpace\<close> on one rune, given as its bytes.\<close>

definition is_space_rune :: "string \<Rightarrow> bool" where
  "is_space_rune r \<longleftrightarrow>
     (case map byte r of
        [b] \<Rightarrow> b = 32 \<or> (9 \<le> b \<and> b \<le> 13)
      | [b0, b1] \<Rightarrow> b0 = 194 \<and> (b1 = 133 \<or> b1 = 160)
      | [b0, b1, b2] \<Rightarrow>
          (b0 = 225 \<and> b1 = 154 \<and> b2 = 128)
          \<or> (b0 = 226 \<and> b1 = 128 \<and> ((128 \<le> b2 \<and> b2 \<le> 138) \<or> b2 = 168 \<or> b2 = 169 \<or> b2 = 175))
          \<or> (b0 = 226 \<and> b1 = 129 \<and> b2 = 159)
          \<or> (b0 = 227 \<and> b1 = 128 \<and> b2 = 128)
      | _ \<Rightarrow> False)"

definition trim_space :: "string \<Rightarrow> string" where
  "trim_space s =
     concat (rev (dropWhile is_space_rune (rev (dropWhile is_space_rune (runes s)))))"

text \<open>\<open>strings.Fields\<close>: the maximal runs of runes that are not white space.\<close>

fun field_runs :: "string list \<Rightarrow> string \<Rightarrow> string list" where
  "field_runs [] acc = (if acc = [] then [] else [acc])"
| "field_runs (r # rs) acc =
     (if is_space_rune r then (if acc = [] then [] else [acc]) @ field_runs rs []
      else field_runs rs (acc @ r))"

definition fields_of :: "string \<Rightarrow> string list" where
  "fields_of s = field_runs (runes s) []"

text \<open>\<open>strings.TrimRight\<close> with a set of one-byte characters.\<close>

definition trim_right :: "string \<Rightarrow> string \<Rightarrow> string" where
  "trim_right s chars = rev (dropWhile (\<lambda>c. c \<in> set chars) (rev s))"

lemma trim_right_no_suffix:
  "trim_right s chars = [] \<or> last (trim_right s chars) \<notin> set chars"
proof (cases "dropWhile (\<lambda>c. c \<in> set chars) (rev s)")
  case (Cons x xs)
  then have "x \<notin> set chars"
    by (metis hd_dropWhile list.distinct(1) list.sel(1))
  with Cons show ?thesis by (simp add: trim_right_def)
qed (simp add: trim_right_def)

section \<open>Package strconv\<close>

definition digit_val :: "char \<Rightarrow> int" where
  "digit_val c = byte c - 48"

definition digits_val :: "string \<Rightarrow> int" where
  "digits_val s = foldl (\<lambda>n c. 10 * n + digit_val c) 0 s"

text \<open>\<open>strconv.Atoi\<close>: an optional sign and decimal digits, within 64 bits; \<open>None\<close> is the error.\<close>

definition atoi :: "string \<Rightarrow> int option" where
  "atoi s =
     (let (neg, ds) = (case s of
            [] \<Rightarrow> (False, [])
          | c # cs \<Rightarrow> if c = CHR ''-'' then (True, cs) else if c = CHR ''+'' then (False, cs)
                     else (False, s));
          n = (if neg then - digits_val ds else digits_val ds)
      in if ds \<noteq> [] \<and> (\<forall>c \<in> set ds. isDigit c) \<and> in_int64 n then Some n else None)"

lemma atoi_range: "atoi s = Some n \<Longrightarrow> in_int64 n"
  by (auto simp: atoi_def Let_def split: prod.splits if_splits)

definition digit_char :: "nat \<Rightarrow> char" where
  "digit_char d = char_of (48 + d)"

fun itoa :: "nat \<Rightarrow> string" where
  "itoa n = (if n < 10 then [digit_char n] else itoa (n div 10) @ [digit_char (n mod 10)])"

declare itoa.simps [simp del]

definition itoa_int :: "int \<Rightarrow> string" where
  "itoa_int n = (if n < 0 then CHR ''-'' # itoa (nat (- n)) else itoa (nat n))"

lemma digit_char: "d < 10 \<Longrightarrow> isDigit (digit_char d) \<and> digit_val (digit_char d) = int d"
proof -
  assume d: "d < 10"
  then have "byte (digit_char d) = int (48 + d)"
    by (simp add: digit_char_def byte_char_of)
  with d show ?thesis by (simp add: isDigit_def digit_val_def)
qed

lemma digits_val_snoc: "digits_val (s @ [c]) = 10 * digits_val s + digit_val c"
  by (simp add: digits_val_def)

lemma itoa_digits: "itoa n \<noteq> [] \<and> (\<forall>c \<in> set (itoa n). isDigit c) \<and> digits_val (itoa n) = int n"
proof (induction n rule: itoa.induct)
  case (1 n)
  show ?case
  proof (cases "n < 10")
    case True
    then show ?thesis
      using digit_char [of n] by (simp add: itoa.simps [of n] digits_val_def)
  next
    case False
    with 1 digit_char [of "n mod 10"] have
      "digits_val (itoa (n div 10) @ [digit_char (n mod 10)]) = 10 * int (n div 10) + int (n mod 10)"
      by (simp add: digits_val_snoc)
    also have "\<dots> = int n" by presburger
    finally show ?thesis
      using 1 False digit_char [of "n mod 10"] by (simp add: itoa.simps [of n])
  qed
qed

lemma atoi_itoa: "in_int64 (int n) \<Longrightarrow> atoi (itoa n) = Some (int n)"
proof -
  assume r: "in_int64 (int n)"
  obtain c cs where c: "itoa n = c # cs" "isDigit c"
    using itoa_digits [of n] by (cases "itoa n") auto
  then have "c \<noteq> CHR ''-''" "c \<noteq> CHR ''+''"
    by (auto simp: isDigit_def byte_def)
  with c r itoa_digits [of n] show ?thesis by (simp add: atoi_def)
qed

section \<open>Multisets of concatenations\<close>

lemma mset_concat_update:
  assumes "i < length xs"
  shows "mset (concat (map g (xs[i := y]))) + mset (g (xs ! i)) = mset (concat (map g xs)) + mset (g y)"
proof -
  have "xs = take i xs @ xs ! i # drop (Suc i) xs" using assms by (rule id_take_nth_drop)
  moreover have "xs[i := y] = take i xs @ y # drop (Suc i) xs"
    using assms by (rule upd_conv_take_nth_drop)
  ultimately have "mset (concat (map g xs)) = mset (concat (map g (take i xs))) + mset (g (xs ! i))
      + mset (concat (map g (drop (Suc i) xs)))"
    "mset (concat (map g (xs[i := y]))) = mset (concat (map g (take i xs))) + mset (g y)
      + mset (concat (map g (drop (Suc i) xs)))"
    by (metis concat.simps(2) concat_append list.simps(9) map_append mset_append union_assoc)+
  then show ?thesis by simp
qed

lemma mset_concat_sum: "mset (concat (map g xs)) = (\<Sum>x\<in>#mset xs. mset (g x))"
  by (induction xs) auto

lemma mset_concat_perm: "mset xs = mset ys \<Longrightarrow> mset (concat (map g xs)) = mset (concat (map g ys))"
  by (simp only: mset_concat_sum)

lemma mset_concat_cong:
  "(\<And>x. x \<in> set xs \<Longrightarrow> mset (g (f x)) = mset (h x)) \<Longrightarrow>
    mset (concat (map g (map f xs))) = mset (concat (map h xs))"
  by (induction xs) auto

section \<open>Encoders\<close>

text \<open>The contract of an encoder and its decoder, on the values the encoder is used with.\<close>

locale round_trip =
  fixes enc :: "'a \<Rightarrow> 'b" and dec :: "'b \<Rightarrow> 'a option" and ok :: "'a \<Rightarrow> bool"
  assumes dec_enc: "ok x \<Longrightarrow> dec (enc x) = Some x"
begin

text \<open>No two values are written the same.\<close>

lemma enc_eq: "ok x \<Longrightarrow> ok y \<Longrightarrow> enc x = enc y \<longleftrightarrow> x = y"
  by (metis dec_enc option.inject)

lemma those_dec_enc: "list_all ok xs \<Longrightarrow> those (map dec (map enc xs)) = Some xs"
  by (induction xs) (simp_all add: dec_enc)

end

end
