(* ===== verification/Go_Crypto.thy ===== *)
theory Go_Crypto
  imports Go_Prelude "HOL-Library.Word"
begin

unbundle bit_operations_syntax

text \<open>
  Packages \<open>crypto/sha256\<close> and \<open>encoding/hex\<close>: SHA-256 (FIPS 180-4) over 32-bit words and
  lower-case hexadecimal, both executable. The lemmas give the lengths and the injectivity of
  the hexadecimal form.
\<close>

section \<open>SHA-256\<close>

type_synonym w32 = "32 word"

definition rotr :: "nat \<Rightarrow> w32 \<Rightarrow> w32" where
  "rotr n x = drop_bit n x OR push_bit (32 - n) x"

text \<open>
  The constants as the standard defines them: the first 32 bits of the fractional parts of the
  cube roots (round constants) and square roots (initial state) of the first primes, the root
  taken bit by bit from bit \<open>i - 1\<close> down.
\<close>

fun root_bits :: "nat \<Rightarrow> nat \<Rightarrow> int \<Rightarrow> int \<Rightarrow> int" where
  "root_bits k 0 n r = r"
| "root_bits k (Suc i) n r = root_bits k i n (if (r + 2 ^ i) ^ k \<le> n then r + 2 ^ i else r)"

definition root_word :: "nat \<Rightarrow> int \<Rightarrow> w32" where
  "root_word k p = word_of_int (root_bits k 37 (p * 2 ^ (32 * k)) 0)"

definition primes_upto :: "int \<Rightarrow> int list" where
  "primes_upto n = filter (\<lambda>p. list_all (\<lambda>d. p mod d \<noteq> 0) [2..p - 1]) [2..n]"

definition sha_K :: "w32 list" where
  "sha_K = map (root_word 3) (primes_upto 311)"

type_synonym sha_state = "w32 \<times> w32 \<times> w32 \<times> w32 \<times> w32 \<times> w32 \<times> w32 \<times> w32"

definition sha_init :: sha_state where
  "sha_init =
     (case map (root_word 2) (primes_upto 19) of
        [a, b, c, d, e, f, g, h] \<Rightarrow> (a, b, c, d, e, f, g, h)
      | _ \<Rightarrow> (0, 0, 0, 0, 0, 0, 0, 0))"

text \<open>The message schedule, newest word first, extended from 16 words to 64.\<close>

fun sha_schedule :: "nat \<Rightarrow> w32 list \<Rightarrow> w32 list" where
  "sha_schedule 0 ws = ws"
| "sha_schedule (Suc n) ws =
     (let s0 = (let x = ws ! 14 in rotr 7 x XOR rotr 18 x XOR drop_bit 3 x);
          s1 = (let x = ws ! 1 in rotr 17 x XOR rotr 19 x XOR drop_bit 10 x)
      in sha_schedule n ((ws ! 15 + s0 + ws ! 6 + s1) # ws))"

fun sha_rounds :: "(w32 \<times> w32) list \<Rightarrow> sha_state \<Rightarrow> sha_state" where
  "sha_rounds [] st = st"
| "sha_rounds ((k, w) # kws) (a, b, c, d, e, f, g, h) =
     (let s1 = rotr 6 e XOR rotr 11 e XOR rotr 25 e;
          ch = (e AND f) XOR (NOT e AND g);
          t1 = h + s1 + ch + k + w;
          s0 = rotr 2 a XOR rotr 13 a XOR rotr 22 a;
          maj = (a AND b) XOR (a AND c) XOR (b AND c);
          t2 = s0 + maj
      in sha_rounds kws (t1 + t2, a, b, c, d + t1, e, f, g))"

definition sha_block :: "sha_state \<Rightarrow> w32 list \<Rightarrow> sha_state" where
  "sha_block st ws =
     (case st of (a, b, c, d, e, f, g, h) \<Rightarrow>
      case sha_rounds (zip sha_K (rev (sha_schedule 48 (rev ws)))) st of
        (a', b', c', d', e', f', g', h') \<Rightarrow>
          (a + a', b + b', c + c', d + d', e + e', f + f', g + g', h + h'))"

definition word_of_bytes :: "char \<Rightarrow> char \<Rightarrow> char \<Rightarrow> char \<Rightarrow> w32" where
  "word_of_bytes a b c d =
     (word_of_int (((byte a * 256 + byte b) * 256 + byte c) * 256 + byte d))"

fun words_of :: "string \<Rightarrow> w32 list" where
  "words_of (a # b # c # d # s) = word_of_bytes a b c d # words_of s"
| "words_of _ = []"

definition be_bytes :: "nat \<Rightarrow> int \<Rightarrow> string" where
  "be_bytes n x = map (\<lambda>i. char_of (x div 256 ^ (n - 1 - i) mod 256)) [0..<n]"

definition sha_pad :: "string \<Rightarrow> string" where
  "sha_pad s = s @ char_of (128::nat) # replicate ((119 - length s mod 64) mod 64) (char_of (0::nat))
     @ be_bytes 8 (8 * int (length s))"

function sha_blocks :: "sha_state \<Rightarrow> w32 list \<Rightarrow> sha_state" where
  "sha_blocks st ws =
     (if length ws < 16 then st else sha_blocks (sha_block st (take 16 ws)) (drop 16 ws))"
  by pat_completeness auto
termination
  by (relation "measure (\<lambda>(st, ws). length ws)") auto

declare sha_blocks.simps [simp del]

definition sha256 :: "string \<Rightarrow> string" where
  "sha256 s =
     (case sha_blocks sha_init (words_of (sha_pad s)) of (a, b, c, d, e, f, g, h) \<Rightarrow>
        concat (map (\<lambda>w. be_bytes 4 (uint w)) [a, b, c, d, e, f, g, h]))"

section \<open>Hexadecimal\<close>

definition unhex_digit :: "char \<Rightarrow> nat option" where
  "unhex_digit c =
     (let b = byte c
      in if 48 \<le> b \<and> b \<le> 57 then Some (nat (b - 48))
         else if 97 \<le> b \<and> b \<le> 102 then Some (nat (b - 87))
         else if 65 \<le> b \<and> b \<le> 70 then Some (nat (b - 55))
         else None)"

text \<open>\<open>hex.DecodeString\<close>; an odd length or another byte is the error.\<close>

fun hex_decode :: "string \<Rightarrow> string option" where
  "hex_decode [] = Some []"
| "hex_decode [c] = None"
| "hex_decode (c # d # s) =
     (case (unhex_digit c, unhex_digit d, hex_decode s) of
        (Some x, Some y, Some r) \<Rightarrow> Some (char_of (16 * x + y) # r)
      | _ \<Rightarrow> None)"

definition hex_digit :: "nat \<Rightarrow> char" where
  "hex_digit d = (if d < 10 then char_of (48 + d) else char_of (87 + d))"

definition hex_encode :: "string \<Rightarrow> string" where
  "hex_encode s = concat (map (\<lambda>c. [hex_digit (nat (byte c) div 16), hex_digit (nat (byte c) mod 16)]) s)"

lemma unhex_hex: "d < 16 \<Longrightarrow> unhex_digit (hex_digit d) = Some d"
  by (cases "d < 10") (simp_all add: unhex_digit_def hex_digit_def byte_char_of Let_def nat_diff_distrib)

lemma length_be_bytes [simp]: "length (be_bytes n x) = n"
  by (simp add: be_bytes_def)

lemma length_sha256 [simp]: "length (sha256 s) = 32"
  by (simp add: sha256_def split: prod.splits)

lemma length_hex_encode [simp]: "length (hex_encode s) = 2 * length s"
  by (induction s) (simp_all add: hex_encode_def)

lemma hex_digit_inj: "a < 16 \<Longrightarrow> b < 16 \<Longrightarrow> hex_digit a = hex_digit b \<longleftrightarrow> a = b"
proof -
  assume "a < 16" "b < 16"
  then have "byte (hex_digit a) = (if a < 10 then 48 + int a else 87 + int a)"
    "byte (hex_digit b) = (if b < 10 then 48 + int b else 87 + int b)"
    by (simp_all add: hex_digit_def byte_char_of)
  then have "hex_digit a = hex_digit b \<Longrightarrow>
    (if a < 10 then 48 + int a else 87 + int a) = (if b < 10 then 48 + int b else 87 + int b)"
    by metis
  then show ?thesis using \<open>a < 16\<close> \<open>b < 16\<close> by (auto split: if_splits)
qed

text \<open>Decoding undoes encoding.\<close>

lemma hex_decode_encode: "hex_decode (hex_encode s) = Some s"
proof (induction s)
  case (Cons c s)
  have b: "nat (byte c) div 16 < 16" "nat (byte c) mod 16 < 16"
    using byte_bounds [of c] by (auto simp: nat_less_iff)
  have "16 * (nat (byte c) div 16) + nat (byte c) mod 16 = nat (byte c)" by simp
  moreover have "char_of (nat (byte c)) = c" by (simp add: byte_def)
  ultimately show ?case using Cons unhex_hex [OF b(1)] unhex_hex [OF b(2)]
    by (simp add: hex_encode_def)
qed (simp add: hex_encode_def)

interpretation hex: round_trip hex_encode hex_decode "\<lambda>_. True"
  by unfold_locales (rule hex_decode_encode)

end
