(* ===== verification/Go_Json.thy ===== *)
theory Go_Json
  imports Go_Prelude
begin

text \<open>
  Package \<open>encoding/json\<close>, to the depth the program uses it: \<open>parse_json\<close> accepts the documents
  \<open>json.Unmarshal\<close> accepts, and the decoders below fill strings, integers, lists, maps and structs
  from the value read. A struct field takes the last member whose key is its name or folds to it;
  a null leaves the zero value; a value of another type is the error \<open>None\<close>.

  A document is read in two passes, both by structural recursion: bytes to tokens, and tokens to
  a value over an explicit stack of open arrays and objects, as the scanner of the package keeps
  one (its nesting limit is the bound on the stack). Two things are simpler than in Go: keys fold
  in ASCII only, and a repeated key replaces the earlier value instead of being merged into it.
\<close>

section \<open>Tokens\<close>

datatype token = TPunct char | TString string | TWord string

text \<open>A code point below U+110000 in UTF-8.\<close>

definition utf8 :: "nat \<Rightarrow> string" where
  "utf8 n =
     (if n < 128 then [char_of n]
      else if n < 2048 then [char_of (192 + n div 64), char_of (128 + n mod 64)]
      else if n < 65536
      then [char_of (224 + n div 4096), char_of (128 + n div 64 mod 64), char_of (128 + n mod 64)]
      else [char_of (240 + n div 262144), char_of (128 + n div 4096 mod 64),
            char_of (128 + n div 64 mod 64), char_of (128 + n mod 64)])"

definition replacement_char :: string where
  "replacement_char = utf8 65533"

definition hex_val :: "char \<Rightarrow> nat option" where
  "hex_val c =
     (let b = byte c
      in if 48 \<le> b \<and> b \<le> 57 then Some (nat (b - 48))
         else if 97 \<le> b \<and> b \<le> 102 then Some (nat (b - 87))
         else if 65 \<le> b \<and> b \<le> 70 then Some (nat (b - 55))
         else None)"

definition hex4 :: "char \<Rightarrow> char \<Rightarrow> char \<Rightarrow> char \<Rightarrow> nat option" where
  "hex4 a b c d =
     (case (hex_val a, hex_val b, hex_val c, hex_val d) of
        (Some w, Some x, Some y, Some z) \<Rightarrow> Some (((w * 16 + x) * 16 + y) * 16 + z)
      | _ \<Rightarrow> None)"

definition simple_escape :: "char \<Rightarrow> char option" where
  "simple_escape c =
     map_of [(CHR 0x22, CHR 0x22), (CHR 0x5C, CHR 0x5C), (CHR ''/'', CHR ''/''),
             (CHR ''b'', CHR 0x08), (CHR ''f'', CHR 0x0C), (CHR ''n'', CHR 0x0A),
             (CHR ''r'', CHR 0x0D), (CHR ''t'', CHR 0x09)] c"

text \<open>
  The escapes of a string literal; half of a surrogate pair without its other half is the
  replacement character. The argument \<open>hi\<close> is a pending first half.
\<close>

definition flush_half :: "nat option \<Rightarrow> string" where
  "flush_half hi = (case hi of None \<Rightarrow> '''' | Some _ \<Rightarrow> replacement_char)"

fun unquote_runs :: "nat option \<Rightarrow> string \<Rightarrow> string option" where
  "unquote_runs hi [] = Some (flush_half hi)"
| "unquote_runs hi (c # s) =
     (if c \<noteq> CHR 0x5C then map_option (\<lambda>r. flush_half hi @ c # r) (unquote_runs None s)
      else (case s of
          [] \<Rightarrow> None
        | e # s' \<Rightarrow>
            if e = CHR ''u'' then
              (case s' of
                w # x # y # z # rest \<Rightarrow>
                  (case hex4 w x y z of
                    None \<Rightarrow> None
                  | Some n \<Rightarrow>
                      if 0xD800 \<le> n \<and> n < 0xDC00 then
                        map_option (\<lambda>r. flush_half hi @ r) (unquote_runs (Some n) rest)
                      else if 0xDC00 \<le> n \<and> n < 0xE000 then
                        map_option (\<lambda>r. (case hi of
                            Some h \<Rightarrow> utf8 (0x10000 + (h - 0xD800) * 1024 + (n - 0xDC00))
                          | None \<Rightarrow> replacement_char) @ r) (unquote_runs None rest)
                      else map_option (\<lambda>r. flush_half hi @ utf8 n @ r) (unquote_runs None rest))
              | _ \<Rightarrow> None)
            else (case simple_escape e of
                None \<Rightarrow> None
              | Some d \<Rightarrow> map_option (\<lambda>r. flush_half hi @ d # r) (unquote_runs None s'))))"

text \<open>Bytes that are not UTF-8 become replacement characters.\<close>

definition valid_utf8 :: "string \<Rightarrow> string" where
  "valid_utf8 s =
     concat (map (\<lambda>r. case r of [c] \<Rightarrow> if byte c < 128 then r else replacement_char | _ \<Rightarrow> r) (runes s))"

definition json_space :: "char \<Rightarrow> bool" where
  "json_space c \<longleftrightarrow> c = CHR '' '' \<or> c = CHR 0x09 \<or> c = CHR 0x0A \<or> c = CHR 0x0D"

definition json_punct :: "char \<Rightarrow> bool" where
  "json_punct c \<longleftrightarrow> c \<in> set ''{}[],:''"

text \<open>What the reader of bytes is in the middle of; the collected bytes are in reverse.\<close>

datatype lex_mode = Idle | InWord string | InString string | InEscape string

fun json_tokens :: "lex_mode \<Rightarrow> string \<Rightarrow> token list option" where
  "json_tokens Idle [] = Some []"
| "json_tokens (InWord acc) [] = Some [TWord (rev acc)]"
| "json_tokens (InString acc) [] = None"
| "json_tokens (InEscape acc) [] = None"
| "json_tokens Idle (c # s) =
     (if json_space c then json_tokens Idle s
      else if json_punct c then map_option (Cons (TPunct c)) (json_tokens Idle s)
      else if c = CHR 0x22 then json_tokens (InString []) s
      else json_tokens (InWord [c]) s)"
| "json_tokens (InWord acc) (c # s) =
     (if json_space c then map_option (Cons (TWord (rev acc))) (json_tokens Idle s)
      else if json_punct c
      then map_option (\<lambda>ts. TWord (rev acc) # TPunct c # ts) (json_tokens Idle s)
      else if c = CHR 0x22 then map_option (Cons (TWord (rev acc))) (json_tokens (InString []) s)
      else json_tokens (InWord (c # acc)) s)"
| "json_tokens (InString acc) (c # s) =
     (if c = CHR 0x22 then
        (case unquote_runs None (rev acc) of
           None \<Rightarrow> None
         | Some str \<Rightarrow> map_option (Cons (TString (valid_utf8 str))) (json_tokens Idle s))
      else if byte c < 32 then None
      else if c = CHR 0x5C then json_tokens (InEscape (c # acc)) s
      else json_tokens (InString (c # acc)) s)"
| "json_tokens (InEscape acc) (c # s) =
     (if byte c < 32 then None else json_tokens (InString (c # acc)) s)"

section \<open>Values\<close>

datatype json =
    JNull
  | JBool bool
  | JNumber string
  | JString string
  | JArray "json list"
  | JObject "(string \<times> json) list"

text \<open>The number grammar, over the parts a literal has.\<close>

definition all_digits :: "string \<Rightarrow> bool" where
  "all_digits s \<longleftrightarrow> s \<noteq> [] \<and> list_all isDigit s"

definition exponent_ok :: "string \<Rightarrow> bool" where
  "exponent_ok s =
     (case s of
        [] \<Rightarrow> True
      | c # r \<Rightarrow> (c = CHR ''e'' \<or> c = CHR ''E'') \<and>
          (case r of [] \<Rightarrow> False
           | d # r' \<Rightarrow> if d = CHR ''+'' \<or> d = CHR ''-'' then all_digits r' else all_digits r))"

definition number_ok :: "string \<Rightarrow> bool" where
  "number_ok s =
     (let u = (case s of c # r \<Rightarrow> if c = CHR ''-'' then r else s | [] \<Rightarrow> s);
          ip = takeWhile isDigit u; rest = dropWhile isDigit u
      in ip \<noteq> [] \<and> (hd ip = CHR ''0'' \<longrightarrow> length ip = 1) \<and>
         (case rest of
            c # r \<Rightarrow>
              if c = CHR ''.'' then takeWhile isDigit r \<noteq> [] \<and> exponent_ok (dropWhile isDigit r)
              else exponent_ok rest
          | [] \<Rightarrow> True))"

definition word_value :: "string \<Rightarrow> json option" where
  "word_value w =
     (if w = ''null'' then Some JNull
      else if w = ''true'' then Some (JBool True)
      else if w = ''false'' then Some (JBool False)
      else if number_ok w then Some (JNumber w)
      else None)"

text \<open>
  An open array holds its values in reverse; an open object its members in reverse and the key
  whose value comes next. The mode says what may come.
\<close>

datatype frame = FArray "json list" | FObject "(string \<times> json) list" string

datatype parse_mode = PValue | PFirst | PKeyFirst | PKey | PColon string | PAfter json

definition max_depth :: int where
  "max_depth = 10000"

text \<open>The depth left is counted down, so that no token costs more than a step.\<close>

fun json_run :: "token list \<Rightarrow> frame list \<Rightarrow> int \<Rightarrow> (string \<times> json) list \<Rightarrow> parse_mode \<Rightarrow> json option" where
  "json_run [] st n ms m = (case m of PAfter v \<Rightarrow> if st = [] then Some v else None | _ \<Rightarrow> None)"
| "json_run (t # ts) st n ms m =
     (case m of
        PAfter v \<Rightarrow>
          (case (st, t) of
             (FArray vs # st', TPunct c) \<Rightarrow>
               if c = CHR '','' then json_run ts (FArray (v # vs) # st') n [] PValue
               else if c = CHR '']'' then json_run ts st' (n + 1) [] (PAfter (JArray (rev (v # vs))))
               else None
           | (FObject kvs k # st', TPunct c) \<Rightarrow>
               if c = CHR '','' then json_run ts st' n ((k, v) # kvs) PKey
               else if c = CHR ''}'' then json_run ts st' (n + 1) [] (PAfter (JObject (rev ((k, v) # kvs))))
               else None
           | _ \<Rightarrow> None)
      | PKeyFirst \<Rightarrow>
          (case t of
             TString k \<Rightarrow> json_run ts st n ms (PColon k)
           | TPunct c \<Rightarrow> if c = CHR ''}'' then json_run ts st (n + 1) [] (PAfter (JObject [])) else None
           | _ \<Rightarrow> None)
      | PKey \<Rightarrow> (case t of TString k \<Rightarrow> json_run ts st n ms (PColon k) | _ \<Rightarrow> None)
      | PColon k \<Rightarrow>
          (case t of
             TPunct c \<Rightarrow> if c = CHR '':'' then json_run ts (FObject ms k # st) n [] PValue else None
           | _ \<Rightarrow> None)
      | _ \<Rightarrow>
          (case t of
             TString s \<Rightarrow> (if m = PFirst then json_run ts (FArray [] # st) n [] (PAfter (JString s))
                          else json_run ts st n [] (PAfter (JString s)))
           | TWord w \<Rightarrow>
               (case word_value w of
                  None \<Rightarrow> None
                | Some v \<Rightarrow> if m = PFirst then json_run ts (FArray [] # st) n [] (PAfter v)
                           else json_run ts st n [] (PAfter v))
           | TPunct c \<Rightarrow>
               (let st' = (if m = PFirst then FArray [] # st else st)
                in if c = CHR ''['' then (if n \<le> 0 then None else json_run ts st' (n - 1) [] PFirst)
                   else if c = CHR ''{'' then (if n \<le> 0 then None else json_run ts st' (n - 1) [] PKeyFirst)
                   else if c = CHR '']'' \<and> m = PFirst then json_run ts st (n + 1) [] (PAfter (JArray []))
                   else None)))"

definition parse_json :: "string \<Rightarrow> json option" where
  "parse_json s =
     (case json_tokens Idle s of
        None \<Rightarrow> None
      | Some ts \<Rightarrow> json_run ts [] max_depth [] PValue)"

section \<open>Printing\<close>

text \<open>
  A string as \<open>json.Marshal\<close> writes it: runes as they are but for quotes, backslashes, control
  characters, the three characters HTML cares for and the two line separators JavaScript does.
\<close>

definition hex_char_of :: "nat \<Rightarrow> char" where
  "hex_char_of d = (if d < 10 then char_of (48 + d) else char_of (87 + d))"

definition unicode_escape :: "nat \<Rightarrow> string" where
  "unicode_escape n =
     [CHR 0x5C, CHR ''u''] @
     map hex_char_of [n div 4096, n div 256 mod 16, n div 16 mod 16, n mod 16]"

definition quote_byte :: "char \<Rightarrow> string" where
  "quote_byte c =
     (if c = CHR 0x22 \<or> c = CHR 0x5C then [CHR 0x5C, c]
      else if c = CHR 0x08 then [CHR 0x5C, CHR ''b'']
      else if c = CHR 0x0C then [CHR 0x5C, CHR ''f'']
      else if c = CHR 0x0A then [CHR 0x5C, CHR ''n'']
      else if c = CHR 0x0D then [CHR 0x5C, CHR ''r'']
      else if c = CHR 0x09 then [CHR 0x5C, CHR ''t'']
      else if byte c < 32 \<or> c = CHR ''<'' \<or> c = CHR ''>'' \<or> c = CHR ''&''
      then unicode_escape (nat (byte c))
      else if byte c < 128 then [c] else unicode_escape 65533)"

definition quote_rune :: "string \<Rightarrow> string" where
  "quote_rune r =
     (case r of
        [c] \<Rightarrow> quote_byte c
      | _ \<Rightarrow> if r = utf8 0x2028 then unicode_escape 0x2028
            else if r = utf8 0x2029 then unicode_escape 0x2029 else r)"

definition json_quote :: "string \<Rightarrow> string" where
  "json_quote s = CHR 0x22 # concat (map quote_rune (runes s)) @ [CHR 0x22]"

text \<open>\<open>json.MarshalIndent\<close> with two spaces, at a depth; the order of the members is the caller's.\<close>

definition newline_at :: "nat \<Rightarrow> string" where
  "newline_at d = CHR 0x0A # replicate (2 * d) (CHR '' '')"

fun marshal_indent :: "nat \<Rightarrow> json \<Rightarrow> string" where
  "marshal_indent d JNull = ''null''"
| "marshal_indent d (JBool b) = (if b then ''true'' else ''false'')"
| "marshal_indent d (JNumber n) = n"
| "marshal_indent d (JString s) = json_quote s"
| "marshal_indent d (JArray vs) =
     (if vs = [] then ''[]''
      else ''['' @ join '','' (map (\<lambda>v. newline_at (Suc d) @ marshal_indent (Suc d) v) vs)
           @ newline_at d @ '']'')"
| "marshal_indent d (JObject kvs) =
     (if kvs = [] then ''{}''
      else ''{'' @ join '','' (map (\<lambda>(k, v). newline_at (Suc d) @ json_quote k @ '': ''
             @ marshal_indent (Suc d) v) kvs) @ newline_at d @ ''}'')"

section \<open>Decoders\<close>

type_synonym 'a decoder = "json \<Rightarrow> 'a option"

definition dec_string :: "string decoder" where
  "dec_string j = (case j of JNull \<Rightarrow> Some '''' | JString s \<Rightarrow> Some s | _ \<Rightarrow> None)"

definition dec_bool :: "bool decoder" where
  "dec_bool j = (case j of JNull \<Rightarrow> Some False | JBool b \<Rightarrow> Some b | _ \<Rightarrow> None)"

definition dec_int :: "int decoder" where
  "dec_int j = (case j of JNull \<Rightarrow> Some 0 | JNumber n \<Rightarrow> atoi n | _ \<Rightarrow> None)"

text \<open>An integer tagged \<open>json:",string"\<close>, as proto3 JSON writes 64-bit ones.\<close>

definition dec_int_string :: "int decoder" where
  "dec_int_string j = (case j of JNull \<Rightarrow> Some 0 | JString n \<Rightarrow> atoi n | _ \<Rightarrow> None)"

definition dec_list :: "'a decoder \<Rightarrow> 'a list decoder" where
  "dec_list d j = (case j of JNull \<Rightarrow> Some [] | JArray vs \<Rightarrow> those (map d vs) | _ \<Rightarrow> None)"

definition dec_members :: "'a decoder \<Rightarrow> (string \<times> 'a) list decoder" where
  "dec_members d j =
     (case j of
        JNull \<Rightarrow> Some []
      | JObject kvs \<Rightarrow> those (map (\<lambda>(k, v). map_option (Pair k) (d v)) kvs)
      | _ \<Rightarrow> None)"

definition dec_struct :: "((string \<times> json) list \<Rightarrow> 'a option) \<Rightarrow> 'a decoder" where
  "dec_struct f j = (case j of JNull \<Rightarrow> f [] | JObject kvs \<Rightarrow> f kvs | _ \<Rightarrow> None)"

definition json_field :: "(string \<times> json) list \<Rightarrow> string \<Rightarrow> json" where
  "json_field kvs name =
     (case find (\<lambda>(k, v). equal_fold k name) (rev kvs) of None \<Rightarrow> JNull | Some (k, v) \<Rightarrow> v)"

text \<open>The member decoded; a missing one is the zero value, as null is.\<close>

definition dec_field :: "(string \<times> json) list \<Rightarrow> string \<Rightarrow> 'a decoder \<Rightarrow> 'a option" where
  "dec_field kvs name d = d (json_field kvs name)"

text \<open>\<open>json.Unmarshal\<close> into a value of the decoder's type.\<close>

definition unmarshal :: "'a decoder \<Rightarrow> string \<Rightarrow> 'a option" where
  "unmarshal d s = Option.bind (parse_json s) d"

lemmas dec_defs = dec_string_def dec_bool_def dec_int_def dec_int_string_def dec_list_def dec_members_def
  dec_struct_def json_field_def dec_field_def

end
