(* ===== verification/Attestation.thy ===== *)
theory Attestation
  imports Go_Crypto Go_Json
begin

text \<open>
  web/internal/attestation/attestation.go: an attestation is shown only after sigstore-go has
  verified its signature, for this project's identity and this image. What sigstore-go does is a
  parameter (a record of its calls), as is the trusted material; the code around it is what is
  modelled: the policy a bundle is checked against and the date it is given.
\<close>

section \<open>Statements and the library\<close>

definition CycloneDX :: string where "CycloneDX = ''https://cyclonedx.org/bom''"
definition SLSAProvenance :: string where "SLSAProvenance = ''https://slsa.dev/provenance/v0.2''"
definition Vuln :: string where "Vuln = ''https://cosign.sigstore.dev/attestation/vuln/v1''"
definition OpenVEX :: string where "OpenVEX = ''https://openvex.dev/ns''"

record statement =
  st_Type :: string
  st_Predicate :: string
  st_SignedAt :: time

datatype check = TransparencyLog nat | ObserverTimestamps nat | SignedCertificateTimestamps nat

record verified =
  vr_Statement :: "(string \<times> string result) option"
  vr_Timestamps :: "time list"

text \<open>
  The calls of sigstore-go: a verifier over trusted material, an identity policy, the parser of
  bundles, and the check of an entity against an artifact digest and an identity. The predicate
  in the result is its re-encoding, which may fail.
\<close>

record ('m, 'v, 'i, 'e) sigstore =
  sg_NewVerifier :: "'m \<Rightarrow> check list \<Rightarrow> 'v result"
  sg_NewIdentity :: "string \<Rightarrow> string \<Rightarrow> 'i result"
  sg_UnmarshalJSON :: "string \<Rightarrow> 'e result"
  sg_Verify :: "'v \<Rightarrow> 'e \<Rightarrow> string \<Rightarrow> 'i \<Rightarrow> verified result"

record ('v, 'i) verifier =
  vf_verifier :: 'v
  vf_identity :: 'i

section \<open>The code\<close>

definition Checks :: "check list" where
  "Checks = [TransparencyLog 1, ObserverTimestamps 1, SignedCertificateTimestamps 1]"

definition NewWithTrustedMaterial ::
    "('m, 'v, 'i, 'e) sigstore \<Rightarrow> 'm \<Rightarrow> string \<Rightarrow> string \<Rightarrow> check list \<Rightarrow> ('v, 'i) verifier result" where
  "NewWithTrustedMaterial sg material certificateIdentityRegexp oidcIssuer checks =
     (let checks = (if checks = [] then Checks else checks)
      in case sg_NewVerifier sg material checks of
           Inl err \<Rightarrow> Inl (''building verifier: '' @ err)
         | Inr v \<Rightarrow>
             (case sg_NewIdentity sg oidcIssuer certificateIdentityRegexp of
                Inl err \<Rightarrow> Inl (''building certificate identity policy: '' @ err)
              | Inr i \<Rightarrow> Inr \<lparr>vf_verifier = v, vf_identity = i\<rparr>))"

text \<open>The loop of \<open>VerifyEntity\<close> over the verified timestamps.\<close>

fun earliest :: "time \<Rightarrow> time list \<Rightarrow> time" where
  "earliest signedAt [] = signedAt"
| "earliest signedAt (t # ts) =
     earliest (if IsZero signedAt \<or> t < signedAt then t else signedAt) ts"

definition VerifyEntity ::
    "('m, 'v, 'i, 'e) sigstore \<Rightarrow> ('v, 'i) verifier \<Rightarrow> 'e \<Rightarrow> string \<Rightarrow> statement result" where
  "VerifyEntity sg v entity subjectDigest =
     (case hex_decode (trim_prefix subjectDigest ''sha256:'') of
        None \<Rightarrow> Inl (''parsing subject digest '' @ subjectDigest)
      | Some digest \<Rightarrow>
          (case sg_Verify sg (vf_verifier v) entity digest (vf_identity v) of
             Inl err \<Rightarrow> Inl (''verifying attestation for '' @ subjectDigest @ '': '' @ err)
           | Inr res \<Rightarrow>
               (case vr_Statement res of
                  None \<Rightarrow> Inl (''verified bundle for '' @ subjectDigest @ '' carries no in-toto statement'')
                | Some (type, predicate) \<Rightarrow>
                    (case predicate of
                       Inl err \<Rightarrow> Inl (''re-encoding predicate of '' @ subjectDigest @ '': '' @ err)
                     | Inr p \<Rightarrow> Inr \<lparr>st_Type = type, st_Predicate = p,
                                     st_SignedAt = earliest 0 (vr_Timestamps res)\<rparr>))))"

definition Verify ::
    "('m, 'v, 'i, 'e) sigstore \<Rightarrow> ('v, 'i) verifier \<Rightarrow> string \<Rightarrow> string \<Rightarrow> statement result" where
  "Verify sg v blob subjectDigest =
     (case sg_UnmarshalJSON sg blob of
        Inl err \<Rightarrow> Inl (''parsing Sigstore bundle: '' @ err)
      | Inr entity \<Rightarrow> VerifyEntity sg v entity subjectDigest)"

section \<open>The date of an attestation\<close>

lemma earliest_acc:
  "0 < a \<Longrightarrow> list_all ((<) 0) ts \<Longrightarrow> earliest a ts = Min (insert a (set ts))"
proof (induction ts arbitrary: a)
  case (Cons t ts)
  have "earliest a (t # ts) = earliest (min a t) ts"
    using Cons.prems by (simp add: IsZero_def min_def)
  also have "\<dots> = Min (insert (min a t) (set ts))" using Cons by simp
  also have "\<dots> = Min (insert a (set (t # ts)))"
    by (cases "ts = []") (simp_all add: min.assoc)
  finally show ?case .
qed simp

lemma earliest_min:
  "list_all ((<) 0) ts \<Longrightarrow> earliest 0 ts = (if ts = [] then 0 else Min (set ts))"
  by (cases ts) (simp_all add: IsZero_def earliest_acc)

section \<open>What verification promises\<close>

lemma VerifyEntity_Inr:
  "VerifyEntity sg v entity d = Inr s \<longleftrightarrow>
     (\<exists>digest res. hex_decode (trim_prefix d ''sha256:'') = Some digest \<and>
        sg_Verify sg (vf_verifier v) entity digest (vf_identity v) = Inr res \<and>
        vr_Statement res = Some (st_Type s, Inr (st_Predicate s)) \<and>
        st_SignedAt s = earliest 0 (vr_Timestamps res))"
  by (cases s) (auto simp: VerifyEntity_def split: option.splits sum.splits)

text \<open>
  C22: a blob is accepted for an image exactly when the bundle it parses to is verified by the
  library against that image's own digest and the permitted identity, and carries a statement
  that re-encodes; the type and the predicate are the statement's, and the date is the earliest
  of the verified timestamps (zero when there are none).
\<close>

theorem Verify_accepts:
  assumes "\<And>entity digest res. sg_Verify sg (vf_verifier v) entity digest (vf_identity v) = Inr res \<Longrightarrow>
    list_all ((<) 0) (vr_Timestamps res)"
  shows "Verify sg v blob (''sha256:'' @ hex_encode digest) = Inr s \<longleftrightarrow>
    (\<exists>entity res. sg_UnmarshalJSON sg blob = Inr entity \<and>
       sg_Verify sg (vf_verifier v) entity digest (vf_identity v) = Inr res \<and>
       vr_Statement res = Some (st_Type s, Inr (st_Predicate s)) \<and>
       st_SignedAt s = (if vr_Timestamps res = [] then 0 else Min (set (vr_Timestamps res))))"
proof (cases "sg_UnmarshalJSON sg blob")
  case (Inr entity)
  have "hex_decode (trim_prefix (''sha256:'' @ hex_encode digest) ''sha256:'') = Some digest"
    by (simp only: trim_prefix_append hex_decode_encode)
  then show ?thesis
    unfolding Verify_def Inr sum.case VerifyEntity_Inr
    using assms earliest_min by (simp, metis)
qed (simp add: Verify_def)

text \<open>A library that accepts the bundle \<open>ok\<close> for any image, signed at 7, logged at 5.\<close>

definition sample_sigstore :: "(unit, unit, string, string) sigstore" where
  "sample_sigstore =
     \<lparr>sg_NewVerifier = (\<lambda>_ _. Inr ()),
      sg_NewIdentity = (\<lambda>issuer re. Inr (issuer @ re)),
      sg_UnmarshalJSON = Inr,
      sg_Verify = (\<lambda>_ e d i. if e = ''ok'' \<and> i = ''ci'' \<and> length d = 2
        then Inr \<lparr>vr_Statement = Some (CycloneDX, Inr ''{}''), vr_Timestamps = [7, 5]\<rparr> else Inl ''no'')\<rparr>"

theorem Verify_accepts_witness:
  "Verify sample_sigstore \<lparr>vf_verifier = (), vf_identity = ''ci''\<rparr> ''ok'' (''sha256:'' @ hex_encode ''ab'')
     = Inr \<lparr>st_Type = CycloneDX, st_Predicate = ''{}'', st_SignedAt = 5\<rparr>"
  by (subst Verify_accepts) (auto simp: sample_sigstore_def split: if_splits)

end
