(* ===== verification/Go_Bufio.thy ===== *)
theory Go_Bufio
  imports Go_Prelude
begin

text \<open>
  Package \<open>bufio\<close>: the lines a \<open>Scanner\<close> yields. A line loses a CR at its end; the last line may
  lack its newline; a line that fills the buffer stops the scan with an error. Reading a reader
  through \<open>io.LimitReader\<close> keeps its first bytes.
\<close>

definition raw_lines :: "string \<Rightarrow> string list" where
  "raw_lines blob =
     (let parts = split_byte blob (CHR 0x0A)
      in if last parts = [] then butlast parts else parts)"

definition fits_buffer :: "int \<Rightarrow> string \<Rightarrow> bool" where
  "fits_buffer cap l \<longleftrightarrow> int (length l) < cap"

definition scan_lines :: "int \<Rightarrow> string \<Rightarrow> string list" where
  "scan_lines cap blob = map (\<lambda>l. trim_suffix l [CHR 0x0D]) (takeWhile (fits_buffer cap) (raw_lines blob))"

definition scan_ok :: "int \<Rightarrow> string \<Rightarrow> bool" where
  "scan_ok cap blob = list_all (fits_buffer cap) (raw_lines blob)"

fun limit_read :: "int \<Rightarrow> string \<Rightarrow> string" where
  "limit_read n [] = []"
| "limit_read n (c # s) = (if n \<le> 0 then [] else c # limit_read (n - 1) s)"

lemma scan_ok_lines:
  "scan_ok cap blob \<Longrightarrow> scan_lines cap blob = map (\<lambda>l. trim_suffix l [CHR 0x0D]) (raw_lines blob)"
  by (metis scan_ok_def scan_lines_def list_all_iff takeWhile_eq_all_conv)

lemma split_byte_sep: "split_byte (x @ c # y) c = split_byte x c @ split_byte y c"
  by (induction x) (auto split: list.split)

text \<open>Text after a newline is read as if it stood alone.\<close>

lemma raw_lines_append:
  assumes "a = [] \<or> last a = CHR 0x0A"
  shows "raw_lines (a @ b) = raw_lines a @ raw_lines b"
proof (cases "a = []")
  case True
  then show ?thesis by (simp add: raw_lines_def)
next
  case False
  then obtain c where a: "a = c @ [CHR 0x0A]" using assms by (metis append_butlast_last_id)
  note s = split_byte_sep [of _ "CHR 0x0A"]
  have "raw_lines a = split_byte c (CHR 0x0A)" using s [of c "[]"] by (simp add: raw_lines_def a)
  moreover have "raw_lines (a @ b) = split_byte c (CHR 0x0A) @ raw_lines b"
    using s [of c b] by (simp add: raw_lines_def a Let_def butlast_append)
  ultimately show ?thesis by simp
qed

end
