(* ===== verification/Go_Sort.thy ===== *)
theory Go_Sort
  imports Go_Prelude
begin

text \<open>
  Packages \<open>cmp\<close> and \<open>slices\<close>/\<open>sort\<close>. A comparator is a function into \<open>int\<close>, negative, zero or
  positive, as Go's are. \<open>sort_stable\<close> is the insertion sort by which \<open>slices.SortStableFunc\<close>
  and the \<open>sort\<close> package order a short slice: each element moves left past the ones it is
  strictly less than. For a comparator that is a total preorder on the elements (the locale
  \<open>three_way\<close>) there is exactly one stable arrangement, so the algorithm does not matter
  (\<open>sort_stable_unique\<close>); for one that is not, the result of a sort is what this algorithm
  computes and no property below relies on it.
\<close>

section \<open>Comparators\<close>

definition cmp_compare :: "'a::linorder \<Rightarrow> 'a \<Rightarrow> int" where
  "cmp_compare a b = (if a < b then -1 else if b < a then 1 else 0)"

text \<open>\<open>cmp.Or\<close> on comparison results: the first that is not zero.\<close>

fun cmp_or :: "int list \<Rightarrow> int" where
  "cmp_or [] = 0"
| "cmp_or (x # xs) = (if x \<noteq> 0 then x else cmp_or xs)"

lemma cmp_compare_simps [simp]:
  "cmp_compare a b < 0 \<longleftrightarrow> a < b"
  "0 < cmp_compare a b \<longleftrightarrow> b < a"
  "cmp_compare a b \<le> 0 \<longleftrightarrow> a \<le> b"
  "cmp_compare a b = 0 \<longleftrightarrow> a = b"
  by (auto simp: cmp_compare_def)

text \<open>\<open>place\<close> inserts into the reversed sorted prefix, from its largest element down.\<close>

fun place :: "('a \<Rightarrow> 'a \<Rightarrow> int) \<Rightarrow> 'a \<Rightarrow> 'a list \<Rightarrow> 'a list" where
  "place cmp x [] = [x]"
| "place cmp x (y # ys) = (if cmp x y < 0 then y # place cmp x ys else x # y # ys)"

definition sort_stable :: "('a \<Rightarrow> 'a \<Rightarrow> int) \<Rightarrow> 'a list \<Rightarrow> 'a list" where
  "sort_stable cmp xs = rev (foldl (\<lambda>acc x. place cmp x acc) [] xs)"

text \<open>\<open>sort.Slice\<close>: the comparison is a strict less-than.\<close>

definition sort_less :: "('a \<Rightarrow> 'a \<Rightarrow> bool) \<Rightarrow> 'a list \<Rightarrow> 'a list" where
  "sort_less lt xs = sort_stable (\<lambda>a b. if lt a b then -1 else if lt b a then 1 else 0) xs"

definition sort_strings :: "string list \<Rightarrow> string list" where
  "sort_strings xs = sort_stable cmp_compare xs"

text \<open>\<open>slices.Compact\<close>: of each run of equal elements, the first.\<close>

fun compact :: "'a list \<Rightarrow> 'a list" where
  "compact [] = []"
| "compact [x] = [x]"
| "compact (x # y # zs) = (if x = y then compact (x # zs) else x # compact (y # zs))"

section \<open>Facts that hold for every comparator\<close>

lemma mset_place [simp]: "mset (place cmp x ys) = add_mset x (mset ys)"
  by (induction ys) auto

lemma mset_foldl_place: "mset (foldl (\<lambda>acc x. place cmp x acc) acc xs) = mset acc + mset xs"
  by (induction xs arbitrary: acc) auto

lemma mset_sort_stable [simp]: "mset (sort_stable cmp xs) = mset xs"
  by (simp add: sort_stable_def mset_foldl_place)

lemma set_sort_stable [simp]: "set (sort_stable cmp xs) = set xs"
  by (metis mset_sort_stable set_mset_mset)

lemma length_sort_stable [simp]: "length (sort_stable cmp xs) = length xs"
  by (metis mset_sort_stable size_mset)

lemma distinct_sort_stable [simp]: "distinct (sort_stable cmp xs) = distinct xs"
  by (metis mset_sort_stable mset_eq_imp_distinct_iff)

lemma sort_stable_Nil [simp]: "sort_stable cmp [] = []"
  by (simp add: sort_stable_def)

lemma sort_stable_eq_Nil [simp]: "sort_stable cmp xs = [] \<longleftrightarrow> xs = []"
  by (metis length_0_conv length_sort_stable)

lemma sort_stable_snoc: "sort_stable cmp (xs @ [x]) = rev (place cmp x (rev (sort_stable cmp xs)))"
  by (simp add: sort_stable_def)

lemma mset_sort_less [simp]: "mset (sort_less lt xs) = mset xs"
  by (simp add: sort_less_def)

lemma set_sort_strings [simp]: "set (sort_strings xs) = set xs"
  by (simp add: sort_strings_def)

lemma set_compact [simp]: "set (compact xs) = set xs"
  by (induction xs rule: compact.induct) auto

lemma compact_Nil_iff [simp]: "compact xs = [] \<longleftrightarrow> xs = []"
  by (metis set_compact set_empty)

text \<open>
  An element that precedes every other one ends up first, whatever the comparator does on
  the rest: nothing can be placed before it, and it is placed before everything.
\<close>

lemma place_least:
  assumes "\<And>y. y \<in> set ys \<Longrightarrow> cmp x y < 0"
  shows "place cmp x ys = ys @ [x]"
  using assms by (induction ys) auto

lemma place_keeps_last:
  assumes "ys \<noteq> []" and "\<not> cmp x (last ys) < 0"
  shows "last (place cmp x ys) = last ys \<and> place cmp x ys \<noteq> []"
  using assms by (induction ys) auto

lemma sort_stable_least:
  assumes "xs = as @ m # bs"
    and "\<And>y. y \<in> set as \<Longrightarrow> cmp m y < 0"
    and "\<And>y. y \<in> set bs \<Longrightarrow> \<not> cmp y m < 0"
  shows "\<exists>ys. sort_stable cmp xs = m # ys"
  using assms
proof (induction bs arbitrary: xs rule: rev_induct)
  case Nil
  then have "place cmp m (rev (sort_stable cmp as)) = rev (sort_stable cmp as) @ [m]"
    by (intro place_least) simp
  with Nil show ?case by (simp add: sort_stable_snoc)
next
  case (snoc b bs)
  then obtain ys where ys: "sort_stable cmp (as @ m # bs) = m # ys" by auto
  have "last (place cmp b (rev (m # ys))) = m \<and> place cmp b (rev (m # ys)) \<noteq> []"
    using place_keeps_last [of "rev (m # ys)" cmp b] snoc.prems(3) by simp
  then have "\<exists>zs. rev (place cmp b (rev (m # ys))) = m # zs"
    by (metis append_butlast_last_id rev.simps(2) rev_rev_ident rev_append append_Cons append_Nil)
  moreover have "sort_stable cmp xs = rev (place cmp b (rev (m # ys)))"
    using ys sort_stable_snoc [of cmp "as @ m # bs" b] snoc.prems(1) by simp
  ultimately show ?case by simp
qed

section \<open>Total preorders\<close>

locale three_way =
  fixes cmp :: "'a \<Rightarrow> 'a \<Rightarrow> int" and ok :: "'a \<Rightarrow> bool"
  assumes flip: "ok a \<Longrightarrow> ok b \<Longrightarrow> cmp a b < 0 \<longleftrightarrow> 0 < cmp b a"
    and le_trans: "ok a \<Longrightarrow> ok b \<Longrightarrow> ok c \<Longrightarrow> cmp a b \<le> 0 \<Longrightarrow> cmp b c \<le> 0 \<Longrightarrow> cmp a c \<le> 0"
begin

lemma refl_zero: "ok a \<Longrightarrow> cmp a a = 0"
  using flip [of a a] by linarith

lemma zero_sym: "ok a \<Longrightarrow> ok b \<Longrightarrow> cmp a b = 0 \<longleftrightarrow> cmp b a = 0"
  using flip [of a b] flip [of b a] by linarith

lemma not_less: "ok a \<Longrightarrow> ok b \<Longrightarrow> \<not> cmp a b < 0 \<longleftrightarrow> cmp b a \<le> 0"
  using flip [of a b] by linarith

lemma le_flip: "ok a \<Longrightarrow> ok b \<Longrightarrow> cmp a b \<le> 0 \<longleftrightarrow> 0 \<le> cmp b a"
  using flip [of b a] by linarith

lemma zero_trans:
  assumes ok: "ok a" "ok b" "ok c" and z: "cmp a b = 0" "cmp b c = 0"
  shows "cmp a c = 0"
proof -
  have "cmp b a = 0" "cmp c b = 0" using zero_sym ok z by blast+
  then have "cmp a c \<le> 0" "cmp c a \<le> 0"
    using le_trans [of a b c] le_trans [of c b a] ok z by simp_all
  then show ?thesis using le_flip [OF ok(1,3)] le_flip [OF ok(3,1)] by simp
qed

lemma less_le_trans: "ok a \<Longrightarrow> ok b \<Longrightarrow> ok c \<Longrightarrow> cmp a b < 0 \<Longrightarrow> cmp b c \<le> 0 \<Longrightarrow> cmp a c < 0"
  by (meson le_trans not_less not_le_imp_less)

lemma le_less_trans: "ok a \<Longrightarrow> ok b \<Longrightarrow> ok c \<Longrightarrow> cmp a b \<le> 0 \<Longrightarrow> cmp b c < 0 \<Longrightarrow> cmp a c < 0"
  by (meson le_trans not_less not_le_imp_less)

text \<open>The reversed prefix of the insertion sort is sorted downwards.\<close>

lemma place_sorted:
  assumes "ok x" and "\<And>y. y \<in> set ys \<Longrightarrow> ok y" and "sorted_wrt (\<lambda>a b. cmp b a \<le> 0) ys"
  shows "sorted_wrt (\<lambda>a b. cmp b a \<le> 0) (place cmp x ys)"
  using assms
proof (induction ys)
  case (Cons y ys)
  have oky: "ok y" and okys: "\<And>z. z \<in> set ys \<Longrightarrow> ok z" using Cons.prems(2) by auto
  show ?case
  proof (cases "cmp x y < 0")
    case True
    have "sorted_wrt (\<lambda>a b. cmp b a \<le> 0) (place cmp x ys)" using Cons okys by simp
    moreover have "set (place cmp x ys) = insert x (set ys)"
      by (metis mset_place set_mset_mset set_mset_add_mset_insert)
    ultimately show ?thesis using True Cons.prems by auto
  next
    case False
    then have yx: "cmp y x \<le> 0" using not_less [of x y] Cons.prems(1) oky by simp
    have "cmp z x \<le> 0" if "z \<in> set ys" for z
      using le_trans [of z y x] that okys oky Cons.prems yx by simp
    with False yx Cons.prems(3) show ?thesis by simp
  qed
qed simp

lemma sort_sorted:
  assumes "\<And>x. x \<in> set xs \<Longrightarrow> ok x"
  shows "sorted_wrt (\<lambda>a b. cmp a b \<le> 0) (sort_stable cmp xs)"
  using assms
proof (induction xs rule: rev_induct)
  case (snoc x xs)
  then have "sorted_wrt (\<lambda>a b. cmp b a \<le> 0) (rev (sort_stable cmp xs))"
    by (simp add: sorted_wrt_rev)
  then have "sorted_wrt (\<lambda>a b. cmp b a \<le> 0) (place cmp x (rev (sort_stable cmp xs)))"
    using snoc.prems by (intro place_sorted) auto
  then show ?case by (simp add: sort_stable_snoc sorted_wrt_rev)
qed simp

text \<open>Stability: the elements equal to a given one keep their order.\<close>

lemma place_stable:
  assumes "ok x" "ok z" "\<And>y. y \<in> set ys \<Longrightarrow> ok y" "sorted_wrt (\<lambda>a b. cmp b a \<le> 0) ys"
  shows "filter (\<lambda>y. cmp z y = 0) (place cmp x ys)
    = (if cmp z x = 0 then x # filter (\<lambda>y. cmp z y = 0) ys else filter (\<lambda>y. cmp z y = 0) ys)"
  using assms
proof (induction ys)
  case (Cons y ys)
  have oky: "ok y" using Cons.prems(3) by simp
  show ?case
  proof (cases "cmp x y < 0")
    case True
    have "cmp z y \<noteq> 0" if "cmp z x = 0"
      using le_less_trans [of z x y] that True Cons.prems(1,2) oky by simp
    with True Cons show ?thesis by auto
  qed auto
qed simp

lemma sort_stable_filter:
  assumes "ok z" "\<And>x. x \<in> set xs \<Longrightarrow> ok x"
  shows "filter (\<lambda>y. cmp z y = 0) (sort_stable cmp xs) = filter (\<lambda>y. cmp z y = 0) xs"
  using assms(2)
proof (induction xs rule: rev_induct)
  case (snoc x xs)
  have "sorted_wrt (\<lambda>a b. cmp b a \<le> 0) (rev (sort_stable cmp xs))"
    using sort_sorted [of xs] snoc.prems by (simp add: sorted_wrt_rev)
  then have "filter (\<lambda>y. cmp z y = 0) (place cmp x (rev (sort_stable cmp xs)))
    = (if cmp z x = 0 then x # rev (filter (\<lambda>y. cmp z y = 0) xs) else rev (filter (\<lambda>y. cmp z y = 0) xs))"
    using place_stable [of x z "rev (sort_stable cmp xs)"] snoc assms(1)
    by (simp add: rev_filter [symmetric])
  then show ?case
    by (simp add: sort_stable_snoc rev_filter [symmetric] split: if_splits)
qed simp

lemma sorted_stable_unique:
  assumes "mset xs = mset ys" and "\<And>x. x \<in> set xs \<Longrightarrow> ok x"
    and "sorted_wrt (\<lambda>a b. cmp a b \<le> 0) xs" "sorted_wrt (\<lambda>a b. cmp a b \<le> 0) ys"
    and "\<And>z. z \<in> set xs \<Longrightarrow> filter (\<lambda>y. cmp z y = 0) xs = filter (\<lambda>y. cmp z y = 0) ys"
  shows "xs = ys"
  using assms
proof (induction xs arbitrary: ys)
  case (Cons x xs)
  then obtain y zs where ys: "ys = y # zs" by (cases ys) auto
  have seteq: "set (x # xs) = set ys" using Cons.prems(1) by (metis set_mset_mset)
  have okx: "ok x" and oky: "ok y" using Cons.prems(2) seteq ys by auto
  have "y \<in> set (x # xs)" and "x \<in> set ys" using seteq ys by auto
  then have "cmp x y \<le> 0" using Cons.prems(3) refl_zero [OF okx] by auto
  moreover have "cmp y x \<le> 0"
    using \<open>x \<in> set ys\<close> Cons.prems(4) ys refl_zero [OF oky] by auto
  ultimately have xy: "cmp x y = 0" using flip [OF okx oky] by linarith
  have "filter (\<lambda>u. cmp x u = 0) (x # xs) = filter (\<lambda>u. cmp x u = 0) ys"
    using Cons.prems(5) by simp
  then have eq: "x = y" using refl_zero [OF okx] xy ys by simp
  have "xs = zs"
  proof (rule Cons.IH)
    show "mset xs = mset zs" using Cons.prems(1) ys eq by simp
    show "sorted_wrt (\<lambda>a b. cmp a b \<le> 0) zs" using Cons.prems(4) ys by simp
    fix z assume z: "z \<in> set xs"
    then have "filter (\<lambda>u. cmp z u = 0) (x # xs) = filter (\<lambda>u. cmp z u = 0) (y # zs)"
      using Cons.prems(5) ys by simp
    then show "filter (\<lambda>u. cmp z u = 0) xs = filter (\<lambda>u. cmp z u = 0) zs"
      using eq by (simp split: if_splits)
  qed (use Cons.prems in auto)
  with eq ys show ?case by simp
qed simp

text \<open>Any stable sorting of the same elements is the one the insertion sort computes.\<close>

lemma sort_stable_unique:
  assumes "\<And>x. x \<in> set xs \<Longrightarrow> ok x" and "mset ys = mset xs"
    and "sorted_wrt (\<lambda>a b. cmp a b \<le> 0) ys"
    and "\<And>z. z \<in> set xs \<Longrightarrow> filter (\<lambda>y. cmp z y = 0) ys = filter (\<lambda>y. cmp z y = 0) xs"
  shows "ys = sort_stable cmp xs"
proof (rule sorted_stable_unique)
  have s: "set ys = set xs" using assms(2) by (metis set_mset_mset)
  show "mset ys = mset (sort_stable cmp xs)" using assms(2) by simp
  show "sorted_wrt (\<lambda>a b. cmp a b \<le> 0) (sort_stable cmp xs)" using sort_sorted assms(1) .
  fix z assume "z \<in> set ys"
  with s assms(1,4) show "filter (\<lambda>y. cmp z y = 0) ys = filter (\<lambda>y. cmp z y = 0) (sort_stable cmp xs)"
    using sort_stable_filter [of z xs] by simp
qed (use assms in \<open>auto dest: mset_eq_setD\<close>)

lemma sort_stable_id:
  "(\<And>x. x \<in> set xs \<Longrightarrow> ok x) \<Longrightarrow> sorted_wrt (\<lambda>a b. cmp a b \<le> 0) xs \<Longrightarrow> sort_stable cmp xs = xs"
  using sort_stable_unique [of xs xs] by simp

end

text \<open>Building comparators: pulled back along a key, reversed, and combined with \<open>cmp.Or\<close>.\<close>

lemma three_way_pullback:
  "three_way cmp ok \<Longrightarrow> three_way (\<lambda>a b. cmp (f a) (f b)) (\<lambda>a. ok (f a))"
  unfolding three_way_def by blast

lemma three_way_weaken: "three_way cmp ok \<Longrightarrow> (\<And>a. ok' a \<Longrightarrow> ok a) \<Longrightarrow> three_way cmp ok'"
  unfolding three_way_def by blast

lemma three_way_reverse: "three_way cmp ok \<Longrightarrow> three_way (\<lambda>a b. cmp b a) ok"
  unfolding three_way_def by blast

lemma three_way_sgn:
  assumes "three_way cmp ok" and "\<And>a b. ok a \<Longrightarrow> ok b \<Longrightarrow> sgn (cmp' a b) = sgn (cmp a b)"
  shows "three_way cmp' ok"
proof -
  have s: "(cmp' a b < 0) = (cmp a b < 0)" "(cmp' a b \<le> 0) = (cmp a b \<le> 0)"
    "(0 < cmp' a b) = (0 < cmp a b)" if "ok a" "ok b" for a b
    using assms(2) [OF that] by (auto simp: sgn_if split: if_splits)
  show ?thesis
  proof
    fix a b assume ab: "ok a" "ok b"
    then show "cmp' a b < 0 \<longleftrightarrow> 0 < cmp' b a"
      using three_way.flip [OF assms(1) ab] s(1) [OF ab] s(3) [OF ab(2,1)] by blast
  next
    fix a b c assume ok: "ok a" "ok b" "ok c" and le: "cmp' a b \<le> 0" "cmp' b c \<le> 0"
    then show "cmp' a c \<le> 0"
      using three_way.le_trans [OF assms(1) ok] s(2) [OF ok(1,2)] s(2) [OF ok(2,3)]
        s(2) [OF ok(1,3)] by blast
  qed
qed

lemma three_way_or:
  assumes "three_way c1 ok" "three_way c2 ok"
  shows "three_way (\<lambda>a b. if c1 a b \<noteq> 0 then c1 a b else c2 a b) ok"
proof
  fix a b assume ab: "ok a" "ok b"
  show "(if c1 a b \<noteq> 0 then c1 a b else c2 a b) < 0 \<longleftrightarrow> 0 < (if c1 b a \<noteq> 0 then c1 b a else c2 b a)"
  proof (cases "c1 a b = 0")
    case True
    then have "c1 b a = 0" using three_way.zero_sym [OF assms(1) ab] by simp
    with True three_way.flip [OF assms(2) ab] show ?thesis by simp
  next
    case False
    then have "c1 b a \<noteq> 0" using three_way.zero_sym [OF assms(1) ab] by simp
    with False three_way.flip [OF assms(1) ab] show ?thesis by simp
  qed
next
  fix a b c
  assume ok: "ok a" "ok b" "ok c"
    and 1: "(if c1 a b \<noteq> 0 then c1 a b else c2 a b) \<le> 0"
    and 2: "(if c1 b c \<noteq> 0 then c1 b c else c2 b c) \<le> 0"
  have l: "c1 a b \<le> 0" "c1 b c \<le> 0" using 1 2 by (auto split: if_splits)
  show "(if c1 a c \<noteq> 0 then c1 a c else c2 a c) \<le> 0"
  proof (cases "c1 a b = 0 \<and> c1 b c = 0")
    case True
    then have "c1 a c = 0" using three_way.zero_trans [OF assms(1) ok] by simp
    with True 1 2 three_way.le_trans [OF assms(2) ok] show ?thesis by simp
  next
    case False
    then consider "c1 a b < 0" | "c1 b c < 0" using l by linarith
    then have "c1 a c < 0"
      using l three_way.less_le_trans [OF assms(1) ok] three_way.le_less_trans [OF assms(1) ok]
      by cases blast+
    then show ?thesis by simp
  qed
qed

lemma three_way_zero: "three_way (\<lambda>a b. 0) ok"
  by (simp add: three_way_def)

lemma three_way_cmp_or2:
  "three_way c1 ok \<Longrightarrow> three_way c2 ok \<Longrightarrow> three_way (\<lambda>a b. cmp_or [c1 a b, c2 a b]) ok"
  using three_way_or [of c1 ok c2] three_way_sgn [of _ ok "\<lambda>a b. cmp_or [c1 a b, c2 a b]"]
  by (simp cong: if_cong)

lemma three_way_cmp_or3:
  assumes "three_way c1 ok" "three_way c2 ok" "three_way c3 ok"
  shows "three_way (\<lambda>a b. cmp_or [c1 a b, c2 a b, c3 a b]) ok"
  using three_way_or [OF assms(1) three_way_cmp_or2 [OF assms(2,3)]] by simp

lemma three_way_cmp_or4:
  assumes "three_way c1 ok" "three_way c2 ok" "three_way c3 ok" "three_way c4 ok"
  shows "three_way (\<lambda>a b. cmp_or [c1 a b, c2 a b, c3 a b, c4 a b]) ok"
  using three_way_or [OF assms(1) three_way_cmp_or3 [OF assms(2-4)]] by simp

lemma three_way_compare: "three_way (cmp_compare :: 'a::linorder \<Rightarrow> 'a \<Rightarrow> int) ok"
  by unfold_locales auto

lemma three_way_key: "three_way (\<lambda>a b. cmp_compare (f a :: 'b::linorder) (f b)) ok"
  by unfold_locales auto

text \<open>Comparing by a kind first, then by a comparator of each kind.\<close>

lemma three_way_grouped:
  fixes f :: "'a \<Rightarrow> 'k::linorder"
  assumes "\<And>k. three_way c (\<lambda>a. ok a \<and> f a = k)"
  shows "three_way (\<lambda>a b. if cmp_compare (f a) (f b) \<noteq> 0 then cmp_compare (f a) (f b) else c a b) ok"
proof
  fix a b assume ab: "ok a" "ok b"
  show "(if cmp_compare (f a) (f b) \<noteq> 0 then cmp_compare (f a) (f b) else c a b) < 0
      \<longleftrightarrow> 0 < (if cmp_compare (f b) (f a) \<noteq> 0 then cmp_compare (f b) (f a) else c b a)"
    using three_way.flip [OF assms [of "f a"], of a b] ab by (auto simp: cmp_compare_def)
next
  fix a b d assume ok: "ok a" "ok b" "ok d"
    and l: "(if cmp_compare (f a) (f b) \<noteq> 0 then cmp_compare (f a) (f b) else c a b) \<le> 0"
      "(if cmp_compare (f b) (f d) \<noteq> 0 then cmp_compare (f b) (f d) else c b d) \<le> 0"
  have aux: "x \<le> 0" if "(if x \<noteq> 0 then x else y) \<le> 0" for x y :: int
    using that by (cases "x = 0") simp_all
  have le: "f a \<le> f b" "f b \<le> f d"
    using aux [OF l(1)] aux [OF l(2)] by (simp_all only: cmp_compare_simps)
  show "(if cmp_compare (f a) (f d) \<noteq> 0 then cmp_compare (f a) (f d) else c a d) \<le> 0"
  proof (cases "f a = f d")
    case True
    then have eq: "f b = f a" "f d = f a" using le by simp_all
    then have "c a b \<le> 0" "c b d \<le> 0" using l by simp_all
    then have "c a d \<le> 0" using three_way.le_trans [OF assms [of "f a"], of a b d] ok eq by simp
    then show ?thesis using eq by simp
  next
    case False
    then show ?thesis using le by simp
  qed
qed

interpretation string_order: three_way "cmp_compare :: string \<Rightarrow> string \<Rightarrow> int" "\<lambda>_. True"
  by (rule three_way_compare)

lemma sorted_sort_strings: "sorted (sort_strings xs)"
  using string_order.sort_sorted [of xs] by (simp add: sort_strings_def)

lemma compact_sorted_distinct:
  fixes xs :: "'a::linorder list"
  shows "sorted xs \<Longrightarrow> sorted (compact xs) \<and> distinct (compact xs)"
proof (induction xs rule: compact.induct)
  case (3 x y zs)
  then show ?case by auto
qed auto

end
