(* ===== verification/Version_Order.thy ===== *)
theory Version_Order
  imports Go_Sort
begin

text \<open>
  web/internal/directory/version.go: the comparison of package versions behind every version
  column. The two index variables of \<open>compareFragment\<close> are modelled by the suffixes they point
  at (the inner loop never steps past the end of either string, because \<open>rank\<close> is never 0, the
  value it uses for the end). The loops of the source are \<open>skipNonDigits\<close>, the dropping of
  leading zeros, and \<open>digitRun\<close>.

  The order facts are stated for the fragments on which the comparison is one: an upstream
  version that ends in a digit, a revision that is absent or starts and ends with one. Outside
  that set the comparison is not transitive, and it departs from dpkg's (last section).
\<close>

section \<open>The code\<close>

definition rank :: "char \<Rightarrow> int" where
  "rank c =
     (if c = CHR ''~'' then -1
      else if isLetter c then byte c
      else byte c + 256)"

definition splitVersion :: "string \<Rightarrow> int \<times> string \<times> string" where
  "splitVersion v0 =
     (let (epoch, v) =
        (case index_byte v0 CHR '':'' of
           Some i \<Rightarrow> (case atoi (take i v0) of
               Some e \<Rightarrow> (e, drop (i + 1) v0)
             | None \<Rightarrow> (0, v0))
         | None \<Rightarrow> (0, v0))
      in case last_index_byte v CHR ''-'' of
           Some i \<Rightarrow> (epoch, take i v, drop (i + 1) v)
         | None \<Rightarrow> (epoch, v, []))"

definition at_digit :: "string \<Rightarrow> bool" where
  "at_digit s \<longleftrightarrow> s \<noteq> [] \<and> isDigit (hd s)"

definition at_non_digit :: "string \<Rightarrow> bool" where
  "at_non_digit s \<longleftrightarrow> s \<noteq> [] \<and> \<not> isDigit (hd s)"

text \<open>
  The first inner loop: \<open>Inl\<close> is the early return of \<open>ac - bc\<close>, \<open>Inr\<close> the two suffixes it
  leaves.
\<close>

function skipNonDigits :: "string \<Rightarrow> string \<Rightarrow> int + string \<times> string" where
  "skipNonDigits a b =
     (if at_non_digit a \<or> at_non_digit b then
        (let ac = (if a \<noteq> [] then rank (hd a) else 0);
             bc = (if b \<noteq> [] then rank (hd b) else 0)
         in if ac \<noteq> bc then Inl (ac - bc) else skipNonDigits (tl a) (tl b))
      else Inr (a, b))"
  by pat_completeness auto
termination
  by (relation "measure (\<lambda>(a, b). length a + length b)") (auto simp: at_non_digit_def neq_Nil_conv)

text \<open>The loop over two runs of digits, with its accumulator \<open>firstDiff\<close>.\<close>

function digitRun :: "int \<Rightarrow> string \<Rightarrow> string \<Rightarrow> int \<times> string \<times> string" where
  "digitRun firstDiff a b =
     (if at_digit a \<and> at_digit b then
        digitRun (if firstDiff = 0 then byte (hd a) - byte (hd b) else firstDiff) (tl a) (tl b)
      else (firstDiff, a, b))"
  by pat_completeness auto
termination
  by (relation "measure (\<lambda>(f, a, b). length a)") (auto simp: at_digit_def neq_Nil_conv)

definition skipZeros :: "string \<Rightarrow> string" where
  "skipZeros s = dropWhile (\<lambda>c. c = CHR ''0'') s"

declare skipNonDigits.simps [simp del] digitRun.simps [simp del]

lemma skipNonDigits_lengths:
  "skipNonDigits a b = Inr (a', b') \<Longrightarrow>
    \<not> at_non_digit a' \<and> \<not> at_non_digit b' \<and> length a' \<le> length a \<and> length b' \<le> length b \<and>
    (a' = [] \<and> b' = [] \<longrightarrow> a = [] \<and> b = [] \<or> length a' + length b' < length a + length b)"
proof (induction a b rule: skipNonDigits.induct)
  case (1 a b)
  show ?case
  proof (cases "at_non_digit a \<or> at_non_digit b")
    case True
    let ?ac = "if a \<noteq> [] then rank (hd a) else 0"
    let ?bc = "if b \<noteq> [] then rank (hd b) else 0"
    from True 1(2) have eq: "?ac = ?bc" and step: "skipNonDigits (tl a) (tl b) = Inr (a', b')"
      by (auto simp: skipNonDigits.simps [of a b] Let_def split: if_splits)
    from 1(1) [OF True refl refl] eq step have
      "\<not> at_non_digit a'" "\<not> at_non_digit b'" "length a' \<le> length (tl a)" "length b' \<le> length (tl b)"
      by auto
    then show ?thesis using True by (auto simp: at_non_digit_def neq_Nil_conv)
  next
    case False
    with 1(2) show ?thesis by (auto simp: skipNonDigits.simps [of a b])
  qed
qed

lemma digitRun_lengths:
  "digitRun f a b = (f', a', b') \<Longrightarrow>
    length a' \<le> length a \<and> length b' \<le> length b \<and>
    (at_digit a \<and> at_digit b \<longrightarrow> length a' < length a \<and> length b' < length b) \<and>
    (\<not> (at_digit a \<and> at_digit b) \<longrightarrow> a' = a \<and> b' = b)"
proof (induction f a b rule: digitRun.induct)
  case (1 f a b)
  then show ?case
    by (cases "at_digit a \<and> at_digit b")
      (auto simp: digitRun.simps [of f a b] at_digit_def neq_Nil_conv split: if_splits)
qed

lemma skipZeros_length:
  "length (skipZeros s) \<le> length s \<and> (skipZeros s = s \<or> length (skipZeros s) < length s)"
  unfolding skipZeros_def
proof (induction s)
  case (Cons x xs)
  then show ?case by (auto simp: le_imp_less_Suc)
qed simp

function compareFragment :: "string \<Rightarrow> string \<Rightarrow> int" where
  "compareFragment a b =
     (if a \<noteq> [] \<or> b \<noteq> [] then
        (case skipNonDigits a b of
           Inl d \<Rightarrow> d
         | Inr (a1, b1) \<Rightarrow>
             (case digitRun 0 (skipZeros a1) (skipZeros b1) of
                (firstDiff, a2, b2) \<Rightarrow>
                  if at_digit a2 then 1
                  else if at_digit b2 then -1
                  else if firstDiff \<noteq> 0 then firstDiff
                  else compareFragment a2 b2))
      else 0)"
  by pat_completeness auto
termination
proof (relation "measure (\<lambda>(a, b). length a + length b)", simp, clarsimp)
  fix a b a1 b1 a2 b2
  assume ne: "a = [] \<longrightarrow> b \<noteq> []" and s: "skipNonDigits a b = Inr (a1, b1)"
    and "(0, a2, b2) = digitRun 0 (skipZeros a1) (skipZeros b1)"
    and da: "\<not> at_digit a2" and db: "\<not> at_digit b2"
  then have r: "digitRun 0 (skipZeros a1) (skipZeros b1) = (0, a2, b2)" by simp
  note sl = skipNonDigits_lengths [OF s] and rl = digitRun_lengths [OF r]
  note za = skipZeros_length [of a1] and zb = skipZeros_length [of b1]
  show "length a2 + length b2 < length a + length b"
  proof (cases "a1 = [] \<and> b1 = []")
    case True
    with sl rl ne show ?thesis by (auto simp: at_digit_def skipZeros_def)
  next
    case False
    have "at_digit a1 \<or> at_digit b1" using False sl by (auto simp: at_digit_def at_non_digit_def)
    then have "length a2 + length b2 < length a1 + length b1"
    proof (cases "at_digit (skipZeros a1) \<and> at_digit (skipZeros b1)")
      case True
      with rl za zb show ?thesis by linarith
    next
      case False
      then have "a2 = skipZeros a1" "b2 = skipZeros b1" using rl by auto
      with \<open>at_digit a1 \<or> at_digit b1\<close> da db have "skipZeros a1 \<noteq> a1 \<or> skipZeros b1 \<noteq> b1" by metis
      with za zb \<open>a2 = skipZeros a1\<close> \<open>b2 = skipZeros b1\<close> show ?thesis by auto
    qed
    with sl show ?thesis by linarith
  qed
qed

declare compareFragment.simps [simp del]

definition CompareVersion :: "string \<Rightarrow> string \<Rightarrow> int" where
  "CompareVersion a b =
     (case splitVersion a of (aEpoch, aUpstream, aRevision) \<Rightarrow>
      case splitVersion b of (bEpoch, bUpstream, bRevision) \<Rightarrow>
        if aEpoch \<noteq> bEpoch then wrap64 (aEpoch - bEpoch)
        else if compareFragment aUpstream bUpstream \<noteq> 0 then compareFragment aUpstream bUpstream
        else compareFragment aRevision bRevision)"

section \<open>Ranks and numbers\<close>

lemma rank_cases:
  shows rank_digit: "isDigit c \<Longrightarrow> 304 \<le> rank c \<and> rank c \<le> 313"
    and rank_non_digit: "\<not> isDigit c \<Longrightarrow> rank c < 304 \<or> 313 < rank c"
    and rank_nonzero: "rank c \<noteq> 0"
proof -
  have b: "0 \<le> byte c" "byte c < 256" by (rule byte_bounds)+
  have t: "c = CHR ''~'' \<Longrightarrow> byte c = 126" by (simp add: byte_def)
  show "isDigit c \<Longrightarrow> 304 \<le> rank c \<and> rank c \<le> 313"
    using t b by (auto simp: isDigit_def rank_def isLetter_def)
  show "\<not> isDigit c \<Longrightarrow> rank c < 304 \<or> 313 < rank c"
    using b by (auto simp: isDigit_def rank_def isLetter_def)
  show "rank c \<noteq> 0"
    using b by (auto simp: rank_def isLetter_def)
qed

lemma rank_inj: "rank c = rank d \<longleftrightarrow> c = d"
proof
  assume eq: "rank c = rank d"
  have b: "0 \<le> byte c" "byte c < 256" "0 \<le> byte d" "byte d < 256" by (rule byte_bounds)+
  then have "byte c = byte d"
    using eq by (auto simp: rank_def isLetter_def split: if_splits)
  then show "c = d" by simp
qed simp

lemma digits_val_Cons: "digits_val (x # xs) = digit_val x * 10 ^ length xs + digits_val xs"
proof (induction xs rule: rev_induct)
  case Nil
  show ?case by (simp add: digits_val_def)
next
  case (snoc y ys)
  have "digits_val (x # ys @ [y]) = 10 * digits_val (x # ys) + digit_val y"
    using digits_val_snoc [of "x # ys" y] by simp
  with snoc show ?case by (simp add: digits_val_snoc algebra_simps)
qed

lemma digits_val_Nil [simp]: "digits_val [] = 0"
  by (simp add: digits_val_def)

lemma digit_val_range: "isDigit c \<Longrightarrow> 0 \<le> digit_val c \<and> digit_val c \<le> 9"
  by (simp add: isDigit_def digit_val_def)

lemma digits_val_range:
  "(\<forall>c \<in> set s. isDigit c) \<Longrightarrow> 0 \<le> digits_val s \<and> digits_val s < 10 ^ length s"
proof (induction s)
  case (Cons x xs)
  then have r: "0 \<le> digits_val xs" "digits_val xs < 10 ^ length xs"
    and d: "0 \<le> digit_val x" "digit_val x \<le> 9" using digit_val_range [of x] by auto
  have "digit_val x * 10 ^ length xs \<le> 9 * 10 ^ length xs" using d by (intro mult_right_mono) auto
  moreover have "0 \<le> digit_val x * 10 ^ length xs" using d by simp
  moreover have "(10::int) ^ length (x # xs) = 9 * 10 ^ length xs + 10 ^ length xs" by simp
  ultimately show ?case using r by (simp only: digits_val_Cons) linarith
qed simp

lemma power_digit_step:
  fixes d :: int
  assumes "1 \<le> d"
  shows "10 ^ n \<le> d * 10 ^ n"
  using assms by simp

lemma digits_val_leading:
  assumes "\<forall>c \<in> set (x # xs). isDigit c" and "x \<noteq> CHR ''0''"
  shows "10 ^ length xs \<le> digits_val (x # xs)"
proof -
  have "byte x \<noteq> byte (CHR ''0'')" using assms(2) by simp
  then have "1 \<le> digit_val x"
    using assms(1) by (simp add: isDigit_def digit_val_def byte_def)
  then have a: "10 ^ length xs \<le> digit_val x * 10 ^ length xs" by (rule power_digit_step)
  have b: "0 \<le> digits_val xs" using digits_val_range [of xs] assms(1) by simp
  show ?thesis unfolding digits_val_Cons using a b by (rule add_increasing2 [rotated])
qed

abbreviation run_val :: "string \<Rightarrow> int" where
  "run_val s \<equiv> digits_val (takeWhile isDigit s)"

lemma run_digits: "\<forall>c \<in> set (takeWhile isDigit s). isDigit c"
  by (auto dest: set_takeWhileD)

lemma run_val_skipZeros: "run_val (skipZeros s) = run_val s"
  unfolding skipZeros_def
proof (induction s)
  case (Cons x xs)
  have "isDigit (CHR ''0'')" "digit_val (CHR ''0'') = 0"
    by (simp_all add: isDigit_def digit_val_def byte_def)
  then show ?case
    using Cons by (cases "x = CHR ''0''") (simp_all add: digits_val_Cons)
qed simp

lemma dropWhile_digit_skipZeros: "dropWhile isDigit (skipZeros s) = dropWhile isDigit s"
  unfolding skipZeros_def
proof (induction s)
  case (Cons x xs)
  have "isDigit (CHR ''0'')" by (simp add: isDigit_def byte_def)
  then show ?case using Cons by (cases "x = CHR ''0''") simp_all
qed simp

lemma skipZeros_no_zero: "skipZeros s \<noteq> [] \<Longrightarrow> hd (skipZeros s) \<noteq> CHR ''0''"
  unfolding skipZeros_def by (rule hd_dropWhile)

lemma digitRun_stop: "\<not> (at_digit a \<and> at_digit b) \<Longrightarrow> digitRun f a b = (f, a, b)"
  by (subst digitRun.simps) (simp only: if_False)

lemma digitRun_step:
  "isDigit x \<Longrightarrow> isDigit y \<Longrightarrow> digitRun f (x # xs) (y # ys)
    = digitRun (if f = 0 then byte x - byte y else f) xs ys"
  by (subst digitRun.simps) (simp only: at_digit_def list.sel list.distinct if_True simp_thms)

text \<open>What the digit loop computes: the longer run wins, and of equal runs the number.\<close>

lemma digitRun_shape:
  "digitRun f a b = (f', a', b') \<Longrightarrow> \<not> (at_digit a' \<and> at_digit b') \<and>
    (at_digit a' \<longrightarrow> length (takeWhile isDigit b) < length (takeWhile isDigit a)) \<and>
    (at_digit b' \<longrightarrow> length (takeWhile isDigit a) < length (takeWhile isDigit b)) \<and>
    (\<not> at_digit a' \<and> \<not> at_digit b' \<longrightarrow>
       length (takeWhile isDigit a) = length (takeWhile isDigit b) \<and>
       a' = dropWhile isDigit a \<and> b' = dropWhile isDigit b \<and>
       sgn f' = (if f \<noteq> 0 then sgn f else sgn (run_val a - run_val b)))"
proof (induction f a b rule: digitRun.induct)
  case (1 f a b)
  show ?case
  proof (cases "at_digit a \<and> at_digit b")
    case False
    with 1(2) have eq: "f' = f" "a' = a" "b' = b" using digitRun_stop by auto
    from False show ?thesis
      unfolding eq by (cases a; cases b; simp add: at_digit_def)
  next
    case True
    obtain x xs y ys where ab: "a = x # xs" "b = y # ys" "isDigit x" "isDigit y"
      using True by (auto simp: at_digit_def neq_Nil_conv)
    let ?f = "if f = 0 then byte x - byte y else f"
    from 1(2) ab have "digitRun ?f xs ys = (f', a', b')" by (simp add: digitRun_step)
    then have ih: "\<not> (at_digit a' \<and> at_digit b') \<and>
      (at_digit a' \<longrightarrow> length (takeWhile isDigit ys) < length (takeWhile isDigit xs)) \<and>
      (at_digit b' \<longrightarrow> length (takeWhile isDigit xs) < length (takeWhile isDigit ys)) \<and>
      (\<not> at_digit a' \<and> \<not> at_digit b' \<longrightarrow>
         length (takeWhile isDigit xs) = length (takeWhile isDigit ys) \<and>
         a' = dropWhile isDigit xs \<and> b' = dropWhile isDigit ys \<and>
         sgn f' = (if ?f \<noteq> 0 then sgn ?f else sgn (run_val xs - run_val ys)))"
      by (rule 1(1) [OF True, unfolded ab list.sel])
    have "sgn f' = (if f \<noteq> 0 then sgn f else sgn (run_val a - run_val b))"
      if n: "\<not> at_digit a'" "\<not> at_digit b'"
    proof -
      let ?u = "takeWhile isDigit xs" and ?v = "takeWhile isDigit ys"
      from ih n have len: "length ?u = length ?v"
        and sg: "sgn f' = (if ?f \<noteq> 0 then sgn ?f else sgn (digits_val ?u - digits_val ?v))" by auto
      have ru: "0 \<le> digits_val ?u" "digits_val ?u < 10 ^ length ?u"
        and rv: "0 \<le> digits_val ?v" "digits_val ?v < 10 ^ length ?u"
        using digits_val_range [OF run_digits, of xs] digits_val_range [OF run_digits, of ys] len
        by simp_all
      have diff: "run_val a - run_val b
          = (byte x - byte y) * 10 ^ length ?u + (digits_val ?u - digits_val ?v)"
        using ab len by (simp add: digits_val_Cons digit_val_def algebra_simps)
      have "sgn (run_val a - run_val b) = sgn (byte x - byte y)" if "byte x \<noteq> byte y"
      proof (cases "byte x < byte y")
        case True
        then have "(byte x - byte y) * 10 ^ length ?u \<le> (-1) * 10 ^ length ?u"
          by (intro mult_right_mono) auto
        then have "run_val a - run_val b < 0" using diff ru rv by linarith
        then show ?thesis using True by simp
      next
        case False
        with that have "1 \<le> byte x - byte y" by linarith
        then have "10 ^ length ?u \<le> (byte x - byte y) * 10 ^ length ?u"
          by (rule power_digit_step)
        then have "0 < run_val a - run_val b" using diff ru rv by linarith
        then show ?thesis using \<open>1 \<le> byte x - byte y\<close> by simp
      qed
      with sg diff show ?thesis by (cases "f = 0") auto
    qed
    with ih ab show ?thesis by auto
  qed
qed

lemma digits_compare:
  assumes "digitRun 0 (skipZeros a) (skipZeros b) = (f, a', b')"
  shows "sgn (if at_digit a' then 1 else if at_digit b' then -1 else f)
      = cmp_compare (run_val a) (run_val b) \<and>
    (\<not> at_digit a' \<and> \<not> at_digit b' \<longrightarrow> a' = dropWhile isDigit a \<and> b' = dropWhile isDigit b)"
proof -
  have longer: "run_val v < run_val u"
    if "length (takeWhile isDigit (skipZeros v)) < length (takeWhile isDigit (skipZeros u))" for u v
  proof -
    let ?u = "takeWhile isDigit (skipZeros u)" and ?v = "takeWhile isDigit (skipZeros v)"
    from that obtain x xs where x: "?u = x # xs" by (cases ?u) auto
    then have "x \<noteq> CHR ''0''"
      using skipZeros_no_zero [of u] by (cases "skipZeros u") (auto split: if_splits)
    then have "10 ^ length xs \<le> digits_val ?u"
      using digits_val_leading [of x xs] run_digits [of "skipZeros u"] x by simp
    moreover have "digits_val ?v < 10 ^ length ?v" using digits_val_range [OF run_digits] by auto
    moreover have "(10::int) ^ length ?v \<le> 10 ^ length xs"
      using that x by (intro power_increasing) auto
    ultimately show ?thesis unfolding run_val_skipZeros by linarith
  qed
  note sh = digitRun_shape [OF assms]
  show ?thesis
  proof (cases "at_digit a' \<or> at_digit b'")
    case True
    with sh longer [of a b] longer [of b a] show ?thesis by (auto simp: cmp_compare_def)
  next
    case False
    with sh have "sgn f = sgn (run_val a - run_val b)" by (simp add: run_val_skipZeros)
    then have "sgn f = cmp_compare (run_val a) (run_val b)" by (simp add: cmp_compare_def sgn_if)
    with False sh show ?thesis by (simp add: dropWhile_digit_skipZeros)
  qed
qed

section \<open>Fragments as keys\<close>

text \<open>
  On fragments that end in a digit, comparing is comparing lists of numbers: the ranks of the
  non-digits, then a mark where a digit run starts (the ranks of the ten digits are adjacent,
  so any of them will do), its value, and 0 for the end.
\<close>

function nkey :: "string \<Rightarrow> int list" where
  "nkey s =
     (if s = [] then [0]
      else if isDigit (hd s) then 304 # run_val s # nkey (dropWhile isDigit s)
      else rank (hd s) # nkey (tl s))"
  by pat_completeness auto
termination
proof (relation "measure length")
  fix s :: string assume "s \<noteq> []" and "isDigit (hd s)"
  then show "(dropWhile isDigit s, s) \<in> measure length"
    using length_dropWhile_le [of isDigit "tl s"] by (cases s) auto
qed auto

declare nkey.simps [simp del]

text \<open>
  The fragments the comparison orders: they end in a digit or a letter, and no number that
  directly follows a letter is zero (\<open>1.1.1n\<close>, \<open>9+deb12u4\<close>, \<open>2.0~rc1\<close>, \<open>1.10.0\<close>).
\<close>

fun no_letter_zero :: "string \<Rightarrow> bool" where
  "no_letter_zero [] \<longleftrightarrow> True"
| "no_letter_zero (c # s) \<longleftrightarrow> (isLetter c \<and> at_digit s \<longrightarrow> run_val s \<noteq> 0) \<and> no_letter_zero s"

definition frag_tail :: "string \<Rightarrow> bool" where
  "frag_tail s \<longleftrightarrow> no_letter_zero s \<and> (s = [] \<or> isDigit (last s) \<or> isLetter (last s))"

definition frag_ok :: "string \<Rightarrow> bool" where
  "frag_ok s \<longleftrightarrow> s \<noteq> [] \<and> frag_tail s"

definition comparable :: "string \<Rightarrow> string \<Rightarrow> bool" where
  "comparable a b \<longleftrightarrow> frag_tail a \<and> frag_tail b \<and>
     (a = [] \<and> at_digit b \<longrightarrow> run_val b \<noteq> 0) \<and> (b = [] \<and> at_digit a \<longrightarrow> run_val a \<noteq> 0)"

lemma no_letter_zero_dropWhile: "no_letter_zero s \<Longrightarrow> no_letter_zero (dropWhile P s)"
  by (induction s) auto

lemma frag_tail_dropWhile: "frag_tail s \<Longrightarrow> frag_tail (dropWhile P s)"
  using last_appendR [of "dropWhile P s" "takeWhile P s"] no_letter_zero_dropWhile [of s P]
  by (cases "dropWhile P s = []") (auto simp del: dropWhile_eq_Nil_conv simp: frag_tail_def)

lemma frag_tail_Cons: "frag_tail (x # xs) \<Longrightarrow> frag_tail xs"
  by (auto simp: frag_tail_def split: if_splits)

lemma comparable_step:
  assumes "comparable (x # xs) (x # ys)" and "\<not> isDigit x"
  shows "comparable xs ys"
  using assms frag_tail_Cons [of x xs] frag_tail_Cons [of x ys]
  by (auto simp: comparable_def frag_tail_def)

lemma comparable_digits:
  "comparable a b \<Longrightarrow> comparable (dropWhile isDigit a) (dropWhile isDigit b)"
  using hd_dropWhile [of isDigit a] hd_dropWhile [of isDigit b]
  by (auto simp: comparable_def frag_tail_dropWhile at_digit_def simp del: dropWhile_eq_Nil_conv)

lemma nkey_Nil [simp]: "nkey [] = [0]"
  by (subst nkey.simps) simp

lemma nkey_digit: "at_digit s \<Longrightarrow> nkey s = 304 # run_val s # nkey (dropWhile isDigit s)"
  by (rule trans [OF nkey.simps]) (simp add: at_digit_def)

lemma nkey_non_digit: "at_non_digit s \<Longrightarrow> nkey s = rank (hd s) # nkey (tl s)"
  by (rule trans [OF nkey.simps]) (simp add: at_non_digit_def)

lemma cmp_compare_Cons:
  fixes x y :: int
  shows "cmp_compare (x # xs) (y # ys)
    = (if x < y then -1 else if y < x then 1 else cmp_compare xs ys)"
  by (auto simp: cmp_compare_def)

lemma skipNonDigits_stop:
  "\<not> at_non_digit a \<Longrightarrow> \<not> at_non_digit b \<Longrightarrow> skipNonDigits a b = Inr (a, b)"
  by (rule trans [OF skipNonDigits.simps]) simp

lemma skipNonDigits_same:
  "\<not> isDigit x \<Longrightarrow> skipNonDigits (x # xs) (x # ys) = skipNonDigits xs ys"
  by (rule trans [OF skipNonDigits.simps]) (simp add: at_non_digit_def)

lemma skipNonDigits_differ:
  assumes "at_non_digit a \<or> at_non_digit b"
    and "(if a \<noteq> [] then rank (hd a) else 0) \<noteq> (if b \<noteq> [] then rank (hd b) else 0)"
  shows "skipNonDigits a b
    = Inl ((if a \<noteq> [] then rank (hd a) else 0) - (if b \<noteq> [] then rank (hd b) else 0))"
  by (rule trans [OF skipNonDigits.simps]) (use assms in \<open>simp add: Let_def\<close>)

text \<open>The three ways the loop over non-digits can go on a pair.\<close>

lemma skip_cases:
  obtains (stop) "\<not> at_non_digit a" "\<not> at_non_digit b"
  | (same) x xs ys where "a = x # xs" "b = x # ys" "\<not> isDigit x"
  | (differ) "at_non_digit a \<or> at_non_digit b"
      "(if a \<noteq> [] then rank (hd a) else 0) \<noteq> (if b \<noteq> [] then rank (hd b) else 0)"
  using rank_nonzero rank_inj
  by (cases a; cases b) (fastforce simp: at_non_digit_def split: if_splits)+

lemma nkey_hd:
  "\<exists>ks. nkey s = (if s \<noteq> [] then if isDigit (hd s) then 304 else rank (hd s) else 0) # ks"
  by (cases "s = []"; cases "isDigit (hd s)")
    (auto simp: nkey_digit nkey_non_digit at_digit_def at_non_digit_def)

lemma skip_key_differ:
  assumes "at_non_digit a \<or> at_non_digit b"
    and "(if a \<noteq> [] then rank (hd a) else 0) \<noteq> (if b \<noteq> [] then rank (hd b) else 0)"
  shows "\<exists>d. skipNonDigits a b = Inl d \<and> sgn d = cmp_compare (nkey a) (nkey b)"
proof -
  from nkey_hd [of a] nkey_hd [of b] obtain ks ls where
    k: "nkey a = (if a \<noteq> [] then if isDigit (hd a) then 304 else rank (hd a) else 0) # ks"
       "nkey b = (if b \<noteq> [] then if isDigit (hd b) then 304 else rank (hd b) else 0) # ls" by blast
  show ?thesis
    unfolding skipNonDigits_differ [OF assms] k
    using assms rank_digit [of "hd a"] rank_digit [of "hd b"]
      rank_non_digit [of "hd a"] rank_non_digit [of "hd b"]
    by (auto simp: at_non_digit_def cmp_compare_Cons sgn_if)
qed

lemma skip_key:
  "comparable a b \<Longrightarrow>
    (case skipNonDigits a b of
       Inl d \<Rightarrow> sgn d = cmp_compare (nkey a) (nkey b)
     | Inr (a', b') \<Rightarrow> comparable a' b' \<and> \<not> at_non_digit a' \<and> \<not> at_non_digit b' \<and>
         cmp_compare (nkey a) (nkey b) = cmp_compare (nkey a') (nkey b'))"
proof (induction a arbitrary: b)
  case Nil
  show ?case
  proof (cases "[] :: string" b rule: skip_cases)
    case stop
    with Nil show ?thesis by (simp add: skipNonDigits_stop)
  next
    case differ
    then show ?thesis using skip_key_differ [OF differ] by auto
  qed simp
next
  case (Cons z zs)
  show ?case
  proof (cases "z # zs" b rule: skip_cases)
    case stop
    with Cons.prems show ?thesis by (simp add: skipNonDigits_stop)
  next
    case (same x xs ys)
    then have e: "z = x" "zs = xs" by auto
    from same Cons.prems have c: "comparable xs ys" using comparable_step by simp
    have "cmp_compare (nkey (x # xs)) (nkey (x # ys)) = cmp_compare (nkey xs) (nkey ys)"
      using same by (simp add: nkey_non_digit at_non_digit_def cmp_compare_Cons)
    then show ?thesis
      using Cons.IH [of ys] c same(3) unfolding e same(2)
      by (auto simp: skipNonDigits_same split: sum.splits)
  next
    case differ
    then show ?thesis using skip_key_differ [OF differ] by auto
  qed
qed

text \<open>One round of the outer loop, by what it decides.\<close>

lemma compareFragment_round:
  assumes "a \<noteq> [] \<or> b \<noteq> []"
  shows "case skipNonDigits a b of
      Inl d \<Rightarrow> compareFragment a b = d
    | Inr (a1, b1) \<Rightarrow>
        if run_val a1 = run_val b1
        then compareFragment a b = compareFragment (dropWhile isDigit a1) (dropWhile isDigit b1)
        else sgn (compareFragment a b) = cmp_compare (run_val a1) (run_val b1)"
proof (cases "skipNonDigits a b")
  case (Inl d)
  with assms show ?thesis by (simp add: compareFragment.simps [of a b])
next
  case (Inr p)
  obtain a1 b1 where p: "p = (a1, b1)" by force
  obtain f a2 b2 where dr: "digitRun 0 (skipZeros a1) (skipZeros b1) = (f, a2, b2)"
    by (metis prod_cases3)
  let ?R = "if at_digit a2 then 1 else if at_digit b2 then -1 else f"
  have cf: "compareFragment a b = (if ?R \<noteq> 0 then ?R else compareFragment a2 b2)"
    using assms Inr p dr by (simp add: compareFragment.simps [of a b])
  note dc = digits_compare [OF dr]
  show ?thesis
  proof (cases "run_val a1 = run_val b1")
    case True
    with dc have "?R = 0" by (simp add: cmp_compare_def sgn_if split: if_splits)
    then have "a2 = dropWhile isDigit a1" "b2 = dropWhile isDigit b1"
      using dc by (auto split: if_splits)
    with \<open>?R = 0\<close> cf True Inr p show ?thesis by simp
  next
    case False
    with dc have "?R \<noteq> 0" by (auto simp: cmp_compare_def sgn_if split: if_splits)
    then have "compareFragment a b = ?R" unfolding cf by (rule if_P)
    with dc False Inr p show ?thesis by simp
  qed
qed

lemma run_key:
  assumes "comparable a b" "\<not> at_non_digit a" "\<not> at_non_digit b"
  shows "cmp_compare (nkey a) (nkey b) = (if run_val a = run_val b
    then cmp_compare (nkey (dropWhile isDigit a)) (nkey (dropWhile isDigit b))
    else cmp_compare (run_val a) (run_val b))"
proof -
  have pos: "0 \<le> run_val s" for s using digits_val_range [OF run_digits] by auto
  consider "a = []" "b = []" | "a = []" "at_digit b" | "at_digit a" "b = []" | "at_digit a" "at_digit b"
    using assms(2,3) by (auto simp: at_digit_def at_non_digit_def)
  then show ?thesis
  proof cases
    case 2
    then have "0 < run_val b" using assms(1) pos [of b] by (auto simp: comparable_def)
    with 2 show ?thesis by (simp add: nkey_digit cmp_compare_Cons) (simp add: cmp_compare_def)
  next
    case 3
    then have "0 < run_val a" using assms(1) pos [of a] by (auto simp: comparable_def)
    with 3 show ?thesis by (simp add: nkey_digit cmp_compare_Cons) (simp add: cmp_compare_def)
  next
    case 4
    then show ?thesis by (simp add: nkey_digit cmp_compare_Cons) (simp add: cmp_compare_def)
  qed simp
qed

lemma length_skip_drop:
  assumes "skipNonDigits a b = Inr (a1, b1)" and "a \<noteq> [] \<or> b \<noteq> []"
  shows "length (dropWhile isDigit a1) + length (dropWhile isDigit b1) < length a + length b"
proof -
  note sl = skipNonDigits_lengths [OF assms(1)]
  have drop: "length (dropWhile isDigit s) < length s" if "\<not> at_non_digit s" "s \<noteq> []" for s
    using that length_dropWhile_le [of isDigit "tl s"] by (cases s) (auto simp: at_non_digit_def)
  have le: "length (dropWhile isDigit s) \<le> length s" for s by (rule length_dropWhile_le)
  from sl drop [of a1] drop [of b1] le [of a1] le [of b1] assms(2) show ?thesis
    by (cases "a1 = []"; cases "b1 = []") auto
qed

lemma compareFragment_key:
  "comparable a b \<Longrightarrow> sgn (compareFragment a b) = cmp_compare (nkey a) (nkey b)"
proof (induction "length a + length b" arbitrary: a b rule: less_induct)
  case less
  show ?case
  proof (cases "a = [] \<and> b = []")
    case True
    then show ?thesis by (simp add: compareFragment.simps [of "[]" "[]"])
  next
    case False
    then have ne: "a \<noteq> [] \<or> b \<noteq> []" by blast
    note sk = skip_key [OF less.prems] and rd = compareFragment_round [OF ne]
    show ?thesis
    proof (cases "skipNonDigits a b")
      case (Inl d)
      with sk rd show ?thesis by simp
    next
      case (Inr p)
      obtain a1 b1 where p: "p = (a1, b1)" by force
      with sk Inr have c: "comparable a1 b1" and nd: "\<not> at_non_digit a1" "\<not> at_non_digit b1"
        and key: "cmp_compare (nkey a) (nkey b) = cmp_compare (nkey a1) (nkey b1)" by auto
      have "sgn (compareFragment (dropWhile isDigit a1) (dropWhile isDigit b1))
          = cmp_compare (nkey (dropWhile isDigit a1)) (nkey (dropWhile isDigit b1))"
        using length_skip_drop [OF _ ne] Inr p comparable_digits [OF c] by (intro less.hyps) auto
      then show ?thesis
        using rd Inr p unfolding key run_key [OF c nd] by (simp split: if_splits)
    qed
  qed
qed

section \<open>Swapping the arguments\<close>

lemma skipNonDigits_swap:
  "skipNonDigits b a = (case skipNonDigits a b of Inl d \<Rightarrow> Inl (- d) | Inr (x, y) \<Rightarrow> Inr (y, x))"
proof (induction a arbitrary: b)
  case Nil
  show ?case
  proof (cases "[] :: string" b rule: skip_cases)
    case differ
    then show ?thesis
      using skipNonDigits_differ [OF differ] skipNonDigits_differ [of b "[]"] by auto
  qed (simp_all add: skipNonDigits_stop)
next
  case (Cons z zs)
  show ?case
  proof (cases "z # zs" b rule: skip_cases)
    case (same x xs ys)
    then have e: "z = x" "zs = xs" by auto
    show ?thesis using Cons.IH [of ys] same(3) unfolding e same(2) by (simp add: skipNonDigits_same)
  next
    case differ
    then show ?thesis
      using skipNonDigits_differ [OF differ] skipNonDigits_differ [of b "z # zs"] by auto
  qed (simp add: skipNonDigits_stop)
qed

lemma digitRun_swap:
  "digitRun (- f) b a = (case digitRun f a b of (g, x, y) \<Rightarrow> (- g, y, x))"
proof (induction f a b rule: digitRun.induct)
  case (1 f a b)
  show ?case
  proof (cases "at_digit a \<and> at_digit b")
    case False
    then show ?thesis using digitRun_stop [of a b f] digitRun_stop [of b a "- f"] by auto
  next
    case True
    obtain x xs y ys where ab: "a = x # xs" "b = y # ys" "isDigit x" "isDigit y"
      using True by (auto simp: at_digit_def neq_Nil_conv)
    have "(if - f = 0 then byte y - byte x else - f) = - (if f = 0 then byte x - byte y else f)"
      by simp
    with 1 [OF True] ab show ?thesis by (simp only: digitRun_step list.sel)
  qed
qed

lemma compareFragment_swap: "compareFragment b a = - compareFragment a b"
proof (induction a b rule: compareFragment.induct)
  case (1 a b)
  show ?case
  proof (cases "a = [] \<and> b = []")
    case True
    then show ?thesis by (simp add: compareFragment.simps [of "[]" "[]"])
  next
    case False
    then have ne: "a \<noteq> [] \<or> b \<noteq> []" by blast
    show ?thesis
    proof (cases "skipNonDigits a b")
      case (Inl d)
      then show ?thesis
        using ne skipNonDigits_swap [of b a]
        by (auto simp: compareFragment.simps [of a b] compareFragment.simps [of b a])
    next
      case (Inr p)
      obtain a1 b1 where p: "p = (a1, b1)" by force
      obtain f a2 b2 where dr: "digitRun 0 (skipZeros a1) (skipZeros b1) = (f, a2, b2)"
        by (metis prod_cases3)
      have nboth: "\<not> (at_digit a2 \<and> at_digit b2)" using digitRun_shape [OF dr] by blast
      have sw: "skipNonDigits b a = Inr (b1, a1)" using skipNonDigits_swap [of b a] Inr p by simp
      have dsw: "digitRun 0 (skipZeros b1) (skipZeros a1) = (- f, b2, a2)"
        using digitRun_swap [of 0 "skipZeros b1" "skipZeros a1"] dr by simp
      show ?thesis
        using ne Inr p dr sw dsw nboth 1 [OF ne Inr p [symmetric] dr [symmetric] refl]
        by (auto simp: compareFragment.simps [of a b] compareFragment.simps [of b a])
    qed
  qed
qed

section \<open>Versions\<close>

definition rev_norm :: "string \<Rightarrow> string" where
  "rev_norm r = (if r = [] then ''0'' else r)"

definition epoch_ok :: "string \<Rightarrow> bool" where
  "epoch_ok v \<longleftrightarrow> \<bar>fst (splitVersion v)\<bar> < 2 ^ 62"

text \<open>The versions the comparison orders.\<close>

definition version_ok :: "string \<Rightarrow> bool" where
  "version_ok v \<longleftrightarrow>
     (case splitVersion v of (e, u, r) \<Rightarrow>
        \<bar>e\<bar> < 2 ^ 62 \<and> frag_ok u \<and> (r = [] \<or> at_digit r \<and> frag_ok r))"

lemma digit_zero: "isDigit (CHR ''0'')" "digit_val (CHR ''0'') = 0"
  by (simp_all add: isDigit_def digit_val_def byte_def)

lemma frag_ok_zero: "frag_ok ''0''" "at_digit ''0''"
  by (simp_all add: frag_ok_def frag_tail_def at_digit_def digit_zero)

lemma compareFragment_empty:
  assumes "b = [] \<or> at_digit b"
  shows "sgn (compareFragment [] b) = sgn (compareFragment ''0'' b)"
proof -
  have nb: "\<not> at_non_digit b" using assms by (auto simp: at_digit_def at_non_digit_def)
  have "\<not> at_non_digit ''0''" by (simp add: at_non_digit_def digit_zero)
  then have s0: "skipNonDigits ''0'' b = Inr (''0'', b)" using nb by (simp add: skipNonDigits_stop)
  have s1: "skipNonDigits [] b = Inr ([], b)" using nb by (simp add: skipNonDigits_stop at_non_digit_def)
  have z: "run_val ''0'' = 0" "dropWhile isDigit ''0'' = []"
    by (simp_all add: digit_zero digits_val_Cons)
  show ?thesis
  proof (cases "b = []")
    case True
    with compareFragment_round [of "''0''" "[]"] s0 z show ?thesis by simp
  next
    case False
    with compareFragment_round [of "''0''" b] compareFragment_round [of "[]" b] s0 s1 z
    show ?thesis by (simp split: if_splits)
  qed
qed

lemma compareFragment_rev_norm:
  assumes "a = [] \<or> at_digit a" "b = [] \<or> at_digit b"
  shows "sgn (compareFragment a b) = sgn (compareFragment (rev_norm a) (rev_norm b))"
proof -
  have 1: "sgn (compareFragment a b) = sgn (compareFragment (rev_norm a) b)"
    using compareFragment_empty [OF assms(2)] by (simp add: rev_norm_def)
  have "rev_norm a = [] \<or> at_digit (rev_norm a)"
    using assms(1) frag_ok_zero by (auto simp: rev_norm_def)
  then have "sgn (compareFragment b (rev_norm a)) = sgn (compareFragment (rev_norm b) (rev_norm a))"
    using compareFragment_empty [of "rev_norm a"] by (cases b) (simp_all add: rev_norm_def [of "[]"] rev_norm_def [of "_ # _"])
  then show ?thesis
    using 1 compareFragment_swap [of "rev_norm a"] by (simp add: sgn_minus)
qed

lemma frag_ok_comparable: "frag_ok a \<Longrightarrow> frag_ok b \<Longrightarrow> comparable a b"
  by (simp add: frag_ok_def comparable_def)

definition vkey :: "string \<Rightarrow> int \<times> int list \<times> int list" where
  "vkey v = (case splitVersion v of (e, u, r) \<Rightarrow> (e, nkey u, nkey (rev_norm r)))"

lemma wrap64_epochs: "\<bar>x\<bar> < 2 ^ 62 \<Longrightarrow> \<bar>y\<bar> < 2 ^ 62 \<Longrightarrow> wrap64 (x - y) = x - y"
  by (rule wrap64_id) (simp add: in_int64_def abs_less_iff)

lemma version_ok_epoch: "version_ok v \<Longrightarrow> epoch_ok v"
  by (auto simp: version_ok_def epoch_ok_def split: prod.splits)

lemma CompareVersion_swap:
  assumes "epoch_ok a" "epoch_ok b"
  shows "CompareVersion b a = - CompareVersion a b"
proof -
  obtain e u r where a: "splitVersion a = (e, u, r)" by (metis prod_cases3)
  obtain e' u' r' where b: "splitVersion b = (e', u', r')" by (metis prod_cases3)
  have "\<bar>e\<bar> < 2 ^ 62" "\<bar>e'\<bar> < 2 ^ 62" using assms a b by (auto simp: epoch_ok_def)
  then have "wrap64 (e - e') = e - e'" "wrap64 (e' - e) = e' - e" by (simp_all add: wrap64_epochs)
  then show ?thesis
    using compareFragment_swap [of u' u] compareFragment_swap [of r' r]
    by (simp add: CompareVersion_def a b)
qed

lemma CompareVersion_key:
  assumes "version_ok a" "version_ok b"
  shows "sgn (CompareVersion a b) = cmp_or
    [cmp_compare (fst (vkey a)) (fst (vkey b)),
     cmp_compare (fst (snd (vkey a))) (fst (snd (vkey b))),
     cmp_compare (snd (snd (vkey a))) (snd (snd (vkey b)))]"
proof -
  obtain e u r where a: "splitVersion a = (e, u, r)" by (metis prod_cases3)
  obtain e' u' r' where b: "splitVersion b = (e', u', r')" by (metis prod_cases3)
  from assms a b have ok: "\<bar>e\<bar> < 2 ^ 62" "\<bar>e'\<bar> < 2 ^ 62" "frag_ok u" "frag_ok u'"
    and r: "r = [] \<or> at_digit r" "r' = [] \<or> at_digit r'" "frag_ok (rev_norm r)" "frag_ok (rev_norm r')"
    using frag_ok_zero by (auto simp: version_ok_def rev_norm_def)
  have w: "wrap64 (e - e') = e - e'" using ok by (intro wrap64_epochs)
  have U: "sgn (compareFragment u u') = cmp_compare (nkey u) (nkey u')"
    by (rule compareFragment_key [OF frag_ok_comparable [OF ok(3,4)]])
  have R: "sgn (compareFragment r r') = cmp_compare (nkey (rev_norm r)) (nkey (rev_norm r'))"
    unfolding compareFragment_rev_norm [OF r(1,2)]
    by (rule compareFragment_key [OF frag_ok_comparable [OF r(3,4)]])
  have "sgn (e - e') = cmp_compare e e'" by (simp add: cmp_compare_def sgn_if)
  moreover have "compareFragment u u' = 0 \<longleftrightarrow> nkey u = nkey u'"
    using U by (metis cmp_compare_simps(4) sgn_0_0)
  ultimately show ?thesis
    using U R by (simp add: CompareVersion_def vkey_def a b w cmp_compare_def [of e])
qed

interpretation version_order: three_way CompareVersion version_ok
proof (rule three_way_sgn)
  let ?c = "\<lambda>f a b. cmp_compare (f (vkey a)) (f (vkey b))"
  show "three_way (\<lambda>a b. cmp_or [?c fst a b, ?c (\<lambda>k. fst (snd k)) a b, ?c (\<lambda>k. snd (snd k)) a b]) version_ok"
    by (intro three_way_cmp_or3 three_way_weaken [OF three_way_pullback [OF three_way_compare]]) auto
  fix a b assume "version_ok a" "version_ok b"
  then show "sgn (CompareVersion a b)
    = sgn (cmp_or [?c fst a b, ?c (\<lambda>k. fst (snd k)) a b, ?c (\<lambda>k. snd (snd k)) a b])"
    by (metis CompareVersion_key sgn_sgn)
qed

section \<open>dpkg's order\<close>

text \<open>
  Debian policy, 5.6.12, on the same fragments: the runs of non-digits compare by \<open>dpkg_order\<close>
  with the end of a run as 0, the runs of digits as numbers, and a missing part as 0. The
  difference to the program is the value a digit has while the other string is still in a run
  of non-digits: 0 for dpkg, \<open>rank\<close> of the digit here.
\<close>

definition dpkg_order :: "char \<Rightarrow> int" where
  "dpkg_order c =
     (if isDigit c then 0 else if c = CHR ''~'' then -1 else if isLetter c then byte c else byte c + 256)"

function dkey :: "string \<Rightarrow> int list" where
  "dkey s =
     (if s = [] then []
      else if isDigit (hd s) then dpkg_order (hd s) # run_val s # dkey (dropWhile isDigit s)
      else dpkg_order (hd s) # dkey (tl s))"
  by pat_completeness auto
termination
proof (relation "measure length")
  fix s :: string assume "s \<noteq> []" and "isDigit (hd s)"
  then show "(dropWhile isDigit s, s) \<in> measure length"
    using length_dropWhile_le [of isDigit "tl s"] by (cases s) auto
qed auto

declare dkey.simps [simp del]

fun pad_compare :: "int list \<Rightarrow> int list \<Rightarrow> int" where
  "pad_compare [] [] = 0"
| "pad_compare [] (y # ys) = (if y = 0 then pad_compare [] ys else sgn (- y))"
| "pad_compare (x # xs) [] = (if x = 0 then pad_compare xs [] else sgn x)"
| "pad_compare (x # xs) (y # ys) = (if x = y then pad_compare xs ys else sgn (x - y))"

definition dpkgFragment :: "string \<Rightarrow> string \<Rightarrow> int" where
  "dpkgFragment a b = pad_compare (dkey a) (dkey b)"

text \<open>A fragment of numbers with one separator between two of them: \<open>1.10.2\<close>, \<open>2.36~1\<close>.\<close>

fun single_sep :: "string \<Rightarrow> bool" where
  "single_sep [] \<longleftrightarrow> True"
| "single_sep [c] \<longleftrightarrow> isDigit c"
| "single_sep (c # d # s) \<longleftrightarrow> (isDigit c \<or> isDigit d) \<and> single_sep (d # s)"

lemma single_sep_Cons: "single_sep (c # s) \<Longrightarrow> single_sep s \<and> (\<not> isDigit c \<longrightarrow> at_digit s)"
  by (cases s) (auto simp: at_digit_def)

lemma single_sep_dropWhile: "single_sep s \<Longrightarrow> single_sep (dropWhile P s)"
  by (induction s) (auto dest: single_sep_Cons)

lemma dkey_Nil [simp]: "dkey [] = []"
  by (rule trans [OF dkey.simps]) simp

lemma dkey_digit: "at_digit s \<Longrightarrow> dkey s = 0 # run_val s # dkey (dropWhile isDigit s)"
  by (rule trans [OF dkey.simps]) (simp add: at_digit_def dpkg_order_def)

lemma dkey_non_digit: "at_non_digit s \<Longrightarrow> dkey s = rank (hd s) # dkey (tl s)"
  by (rule trans [OF dkey.simps]) (simp add: at_non_digit_def dpkg_order_def rank_def)

lemma not_at_digit_dropWhile: "\<not> at_digit (dropWhile isDigit s)"
  using hd_dropWhile [of isDigit s] by (auto simp: at_digit_def simp del: dropWhile_eq_Nil_conv)

lemma at_digit_drop_shorter: "at_digit s \<Longrightarrow> length (dropWhile isDigit s) < length s"
  using length_dropWhile_le [of isDigit "tl s"] by (cases s) (auto simp: at_digit_def)

lemma dkey_nkey:
  assumes "single_sep a" "single_sep b" "at_digit a \<longleftrightarrow> at_digit b"
  shows "cmp_compare (nkey a) (nkey b) = pad_compare (dkey a) (dkey b)"
  using assms
proof (induction "length a + length b" arbitrary: a b rule: less_induct)
  case less
  show ?case
  proof (cases "at_digit a")
    case True
    with less.prems have d: "at_digit a" "at_digit b" by auto
    have "cmp_compare (nkey (dropWhile isDigit a)) (nkey (dropWhile isDigit b))
        = pad_compare (dkey (dropWhile isDigit a)) (dkey (dropWhile isDigit b))"
      using less.prems d at_digit_drop_shorter [of a] at_digit_drop_shorter [of b]
      by (intro less.hyps) (simp_all add: single_sep_dropWhile not_at_digit_dropWhile)
    with d show ?thesis
      by (simp add: nkey_digit dkey_digit cmp_compare_Cons sgn_if)
  next
    case False
    with less.prems have "\<not> at_digit b" by simp
    with False consider "a = []" "b = []" | y ys where "a = []" "b = y # ys" "\<not> isDigit y"
      | x xs where "b = []" "a = x # xs" "\<not> isDigit x"
      | x xs y ys where "a = x # xs" "\<not> isDigit x" "b = y # ys" "\<not> isDigit y"
      by (cases a; cases b) (auto simp: at_digit_def)
    then show ?thesis
    proof cases
      case 2
      then show ?thesis using rank_nonzero [of y]
        by (simp add: nkey_non_digit dkey_non_digit at_non_digit_def cmp_compare_Cons sgn_if)
    next
      case 3
      then show ?thesis using rank_nonzero [of x]
        by (simp add: nkey_non_digit dkey_non_digit at_non_digit_def cmp_compare_Cons sgn_if)
    next
      case 4
      then have "at_digit xs" "at_digit ys" "single_sep xs" "single_sep ys"
        using less.prems single_sep_Cons [of x xs] single_sep_Cons [of y ys] by auto
      with 4 have "cmp_compare (nkey xs) (nkey ys) = pad_compare (dkey xs) (dkey ys)"
        by (intro less.hyps) auto
      with 4 show ?thesis
        by (simp add: nkey_non_digit dkey_non_digit at_non_digit_def cmp_compare_Cons sgn_if)
    qed simp
  qed
qed

section \<open>Appending to a fragment\<close>

lemma nkey_ne [simp]: "nkey s \<noteq> []"
  using nkey_hd [of s] by auto

lemma nkey_append:
  assumes "s \<noteq> []" "at_digit s \<longrightarrow> p = [] \<or> \<not> isDigit (last p)"
  shows "nkey (p @ s) = butlast (nkey p) @ nkey s"
  using assms(2)
proof (induction p rule: nkey.induct)
  case (1 p)
  consider "p = []" | "at_digit p" | "at_non_digit p"
    by (cases p) (auto simp: at_digit_def at_non_digit_def)
  then show ?case
  proof cases
    case 2
    then have p: "p \<noteq> []" "isDigit (hd p)" "at_digit (p @ s)" by (auto simp: at_digit_def)
    have eq: "takeWhile isDigit (p @ s) = takeWhile isDigit p
        \<and> dropWhile isDigit (p @ s) = dropWhile isDigit p @ s"
    proof (cases "\<forall>c \<in> set p. isDigit c")
      case True
      then have "\<not> at_digit s" using 1(3) p by auto
      then have "takeWhile isDigit s = [] \<and> dropWhile isDigit s = s"
        using assms(1) by (cases s) (auto simp: at_digit_def)
      moreover have "takeWhile isDigit p = p" using True by simp
      ultimately show ?thesis using True by simp (rule sym, simp)
    next
      case False
      then show ?thesis by (auto simp: takeWhile_append1 dropWhile_append1)
    qed
    have "at_digit s \<longrightarrow> dropWhile isDigit p = [] \<or> \<not> isDigit (last (dropWhile isDigit p))"
      using last_appendR [of "dropWhile isDigit p" "takeWhile isDigit p"] 1(3) p(1)
      by (cases "dropWhile isDigit p = []") (auto simp del: dropWhile_eq_Nil_conv)
    then have "nkey (dropWhile isDigit p @ s) = butlast (nkey (dropWhile isDigit p)) @ nkey s"
      using 1(1) p by simp
    then show ?thesis using nkey_digit [OF p(3)] nkey_digit [OF 2] eq by simp
  next
    case 3
    then have p: "p \<noteq> []" "\<not> isDigit (hd p)" "at_non_digit (p @ s)"
      by (auto simp: at_non_digit_def)
    have "at_digit s \<longrightarrow> tl p = [] \<or> \<not> isDigit (last (tl p))"
      using 1(3) p(1) by (cases p) auto
    then have "nkey (tl p @ s) = butlast (nkey (tl p)) @ nkey s" using 1(2) p by simp
    then show ?thesis using nkey_non_digit [OF p(3)] nkey_non_digit [OF 3] p by simp
  qed simp
qed

lemma nkey_end: "nkey s = butlast (nkey s) @ [0]"
proof -
  have "last (nkey s) = 0"
  proof (induction s rule: nkey.induct)
    case (1 s)
    then show ?case
      by (cases "s = []"; cases "isDigit (hd s)")
        (auto simp: nkey_digit nkey_non_digit at_digit_def at_non_digit_def)
  qed
  then show ?thesis by (metis append_butlast_last_id nkey_ne)
qed

lemma cmp_compare_append: "cmp_compare (ks @ xs) (ks @ ys) = cmp_compare xs (ys :: int list)"
  by (induction ks) (simp_all add: cmp_compare_Cons)

lemma itoa_run: "takeWhile isDigit (itoa n) = itoa n" "dropWhile isDigit (itoa n) = []"
    "at_digit (itoa n)" "run_val (itoa n) = int n"
proof -
  have d: "itoa n \<noteq> []" "\<forall>c \<in> set (itoa n). isDigit c" "digits_val (itoa n) = int n"
    using itoa_digits [of n] by simp_all
  then show t: "takeWhile isDigit (itoa n) = itoa n" and "dropWhile isDigit (itoa n) = []"
    by simp_all
  show "at_digit (itoa n)" using d by (simp add: at_digit_def)
  show "run_val (itoa n) = int n" unfolding t by (rule d)
qed

section \<open>What the comparison promises\<close>

text \<open>
  C13: on well-formed versions CompareVersion is a total preorder: swapping the arguments
  negates the result (so it is sign-antisymmetric and 0 on equal versions), and "not greater"
  and "equal" are transitive. Every sort and every rank of a version column relies on it.
\<close>

theorem CompareVersion_total_preorder:
  assumes "version_ok a" "version_ok b" "version_ok c"
  shows "CompareVersion b a = - CompareVersion a b \<and>
    (CompareVersion a b \<le> 0 \<longrightarrow> CompareVersion b c \<le> 0 \<longrightarrow> CompareVersion a c \<le> 0) \<and>
    (CompareVersion a b = 0 \<longrightarrow> CompareVersion b c = 0 \<longrightarrow> CompareVersion a c = 0)"
  using CompareVersion_swap [OF version_ok_epoch [OF assms(1)] version_ok_epoch [OF assms(2)]]
    version_order.le_trans [OF assms] version_order.zero_trans [OF assms]
  by blast

theorem CompareVersion_total_preorder_witness:
  "CompareVersion ''1.1.1n-0+deb11u5'' ''2:0.1~rc1'' \<le> 0"
proof -
  have ok: "version_ok ''1.1.1n-0+deb11u5''" "version_ok ''1.10-1''" "version_ok ''2:0.1~rc1''"
    by code_simp+
  have "CompareVersion ''1.1.1n-0+deb11u5'' ''1.10-1'' \<le> 0" "CompareVersion ''1.10-1'' ''2:0.1~rc1'' \<le> 0"
    by code_simp+
  then show ?thesis using CompareVersion_total_preorder [OF ok] by blast
qed

text \<open>
  C14: on fragments of numbers with one separator between two of them (1.10.2, 2.36~1)
  compareFragment orders exactly as dpkg does: its sign is the one of Debian policy's
  algorithm.
\<close>

theorem compareFragment_is_dpkg:
  assumes "frag_ok a" "frag_ok b" "single_sep a" "single_sep b" "at_digit a" "at_digit b"
  shows "sgn (compareFragment a b) = dpkgFragment a b"
  using assms compareFragment_key [OF frag_ok_comparable [of a b]]
  by (simp add: dpkgFragment_def dkey_nkey)

theorem compareFragment_is_dpkg_witness:
  "sgn (compareFragment ''1.10.2'' ''1.9~3'') = dpkgFragment ''1.10.2'' ''1.9~3''"
  by (rule compareFragment_is_dpkg; code_simp)

text \<open>
  After equal beginnings, two numbers of a fragment decide by their value, whatever their
  lengths: 1.10 comes after 1.9.
\<close>

theorem compareFragment_numeric:
  assumes "p = [] \<or> \<not> isDigit (last p)" "frag_ok (p @ itoa m)" "frag_ok (p @ itoa n)"
  shows "sgn (compareFragment (p @ itoa m) (p @ itoa n)) = sgn (int m - int n)"
proof -
  have "nkey (p @ itoa k) = butlast (nkey p) @ [304, int k, 0]" for k
    using assms(1) itoa_run [of k] itoa_digits [of k]
    by (simp only: nkey_append nkey_digit nkey_Nil simp_thms)
  then show ?thesis
    using compareFragment_key [OF frag_ok_comparable [OF assms(2,3)]]
    by (simp add: cmp_compare_append cmp_compare_Cons sgn_if)
qed

theorem compareFragment_numeric_witness:
  "sgn (compareFragment (''1.'' @ itoa 10) (''1.'' @ itoa 9)) = sgn (int 10 - int 9)"
  by (rule compareFragment_numeric; code_simp)

text \<open>
  A pre-release sorts before the release it leads to: appending a tilde and anything
  after it makes a fragment smaller (1.0~rc1 before 1.0).
\<close>

theorem compareFragment_prerelease:
  assumes "frag_ok u" "frag_ok (u @ CHR ''~'' # x)"
  shows "compareFragment (u @ CHR ''~'' # x) u < 0"
proof -
  have d: "\<not> isDigit (CHR ''~'')" by (simp add: isDigit_def byte_def)
  have "nkey (u @ CHR ''~'' # x) = butlast (nkey u) @ -1 # nkey x"
    using d by (simp add: nkey_append nkey_non_digit at_digit_def at_non_digit_def rank_def)
  then have "cmp_compare (nkey (u @ CHR ''~'' # x)) (butlast (nkey u) @ [0]) = -1"
    by (simp only: cmp_compare_append cmp_compare_Cons) simp
  then have "sgn (compareFragment (u @ CHR ''~'' # x) u) = -1"
    unfolding compareFragment_key [OF frag_ok_comparable [OF assms(2,1)]] nkey_end [of u, symmetric] .
  then show ?thesis by (simp add: sgn_if split: if_splits)
qed

theorem compareFragment_prerelease_witness:
  "compareFragment (''1.0'' @ CHR ''~'' # ''rc1'') ''1.0'' < 0"
  by (rule compareFragment_prerelease; code_simp)

text \<open>
  The comparison departs from dpkg's, which its comment promises, where a run of letters
  meets a digit: dpkg puts 2.0r1 before 2.0rc1, the program after it.
\<close>

theorem compareFragment_not_dpkg:
  "compareFragment ''2.0rc1'' ''2.0r1'' < 0 \<and> dpkgFragment ''2.0rc1'' ''2.0r1'' > 0"
  by code_simp

text \<open>
  Outside the well-formed versions the comparison is not transitive: 1.0 is less than
  1.0-a, which is less than 1.0-0, which equals 1.0.
\<close>

theorem CompareVersion_not_transitive:
  "CompareVersion ''1.0'' ''1.0-a'' < 0 \<and> CompareVersion ''1.0-a'' ''1.0-0'' < 0 \<and>
   CompareVersion ''1.0-0'' ''1.0'' = 0"
  by code_simp

end
