(* ===== verification/Sbom_Table.thy ===== *)
theory Sbom_Table
  imports Version_Order
begin

text \<open>
  web/internal/directory/sbom.go, and the page furniture it declares: a component of an SBOM,
  a row, the links of a page, the table for one architecture. \<open>template.HTML\<close> is the string it
  is. A struct embedded in another is a field here (\<open>row_Component\<close>, \<open>t_Links\<close>).

  The lemmas show that the table holds exactly the components of the resolved architecture,
  in order, and that the rank a row carries orders the rows as CompareVersion does.
\<close>

section \<open>Data\<close>

record component =
  c_Name :: string
  c_Version :: string
  c_License :: string
  c_Type :: string
  c_PURL :: string
  c_Arch :: string
  c_CPE :: string

record row =
  row_Component :: component
  VersionRank :: int

record tag =
  tag_Name :: string
  tag_URL :: string

record links =
  Download :: string
  l_SBOM :: string
  l_Vulnerabilities :: string
  l_History :: string
  l_Versions :: string
  Permalink :: string
  Showing :: string
  Siblings :: "tag list"

record candidate =
  cand_Name :: string
  cand_URL :: string
  cand_Logo :: string

record topbar =
  Mirror :: string
  Candidates :: "candidate list"

record table =
  t_Image :: string
  t_Digest :: string
  t_Arch :: string
  t_Architectures :: "string list"
  t_Logo :: string
  t_Topbar :: topbar
  t_Links :: links
  t_Rows :: "row list"

definition no_links :: links where
  "no_links = \<lparr>Download = '''', l_SBOM = '''', l_Vulnerabilities = '''', l_History = '''',
     l_Versions = '''', Permalink = '''', Showing = '''', Siblings = []\<rparr>"

definition no_topbar :: topbar where
  "no_topbar = \<lparr>Mirror = '''', Candidates = []\<rparr>"

section \<open>The code\<close>

definition defaultArch :: string where
  "defaultArch = ''amd64''"

definition belongsTo :: "string \<Rightarrow> string \<Rightarrow> bool" where
  "belongsTo own arch \<longleftrightarrow> own = arch \<or> own = '''' \<or> own = ''all''"

definition architectures :: "'a list \<Rightarrow> ('a \<Rightarrow> string) \<Rightarrow> string list" where
  "architectures items arch =
     compact (sort_strings (filter (\<lambda>own. own \<noteq> '''' \<and> own \<noteq> ''all'') (map arch items)))"

definition resolveArch :: "string \<Rightarrow> string list \<Rightarrow> string" where
  "resolveArch requested available =
     (if requested \<in> set available then requested
      else if defaultArch \<in> set available then defaultArch
      else if available \<noteq> [] then hd available
      else '''')"

definition row_version :: "row \<Rightarrow> string" where
  "row_version r = c_Version (row_Component r)"

text \<open>The second loop of \<open>rankVersions\<close>; \<open>prev\<close> is \<open>order[position-1]\<close>, absent at position 0.\<close>

fun rankLoop :: "row list \<Rightarrow> int \<Rightarrow> nat option \<Rightarrow> nat list \<Rightarrow> row list" where
  "rankLoop rows r prev [] = rows"
| "rankLoop rows r prev (i # order) =
     (let r' = (case prev of
            Some p \<Rightarrow> if CompareVersion (row_version (rows ! p)) (row_version (rows ! i)) \<noteq> 0
                      then r + 1 else r
          | None \<Rightarrow> r)
      in rankLoop (rows[i := (rows ! i)\<lparr>VersionRank := r'\<rparr>]) r' (Some i) order)"

definition rankVersions :: "row list \<Rightarrow> row list" where
  "rankVersions rows =
     rankLoop rows 0 None
       (sort_stable (\<lambda>a b. CompareVersion (row_version (rows ! a)) (row_version (rows ! b)))
         [0..<length rows])"

definition compareRow :: "row \<Rightarrow> row \<Rightarrow> int" where
  "compareRow a b =
     cmp_or [cmp_compare (c_Name (row_Component a)) (c_Name (row_Component b)),
             CompareVersion (row_version a) (row_version b)]"

definition NewTable :: "string \<Rightarrow> string \<Rightarrow> string \<Rightarrow> component list \<Rightarrow> table" where
  "NewTable img digest arch components =
     (let available = architectures components c_Arch;
          arch = resolveArch arch available;
          rows = map (\<lambda>c. \<lparr>row_Component = c, VersionRank = 0\<rparr>)
                   (filter (\<lambda>c. belongsTo (c_Arch c) arch) components)
      in \<lparr>t_Image = img, t_Digest = digest, t_Arch = arch, t_Architectures = available,
          t_Logo = '''', t_Topbar = no_topbar, t_Links = no_links,
          t_Rows = rankVersions (sort_stable compareRow rows)\<rparr>)"

section \<open>Architectures\<close>

lemma set_architectures:
  "set (architectures items arch) = {a \<in> arch ` set items. a \<noteq> '''' \<and> a \<noteq> ''all''}"
  by (auto simp: architectures_def)

lemma architectures_sorted_distinct:
  "sorted (architectures items arch) \<and> distinct (architectures items arch)"
  by (simp add: architectures_def compact_sorted_distinct sorted_sort_strings)

lemma resolveArch_available: "available \<noteq> [] \<Longrightarrow> resolveArch a available \<in> set available"
  by (simp add: resolveArch_def)

lemma resolveArch_requested: "a \<in> set available \<Longrightarrow> resolveArch a available = a"
  by (simp add: resolveArch_def)

lemma resolveArch_idem: "resolveArch (resolveArch a available) available = resolveArch a available"
  by (cases "available = []") (simp_all add: resolveArch_requested resolveArch_available, simp add: resolveArch_def)

text \<open>An item is shown for its own architecture, an independent one for any.\<close>

lemma belongsTo_own:
  assumes "x \<in> set items"
  shows "\<exists>a. belongsTo (arch x) (resolveArch a (architectures items arch))"
proof (cases "arch x = '''' \<or> arch x = ''all''")
  case False
  then have "arch x \<in> set (architectures items arch)" using assms by (auto simp: set_architectures)
  then have "resolveArch (arch x) (architectures items arch) = arch x" by (rule resolveArch_requested)
  then show ?thesis by (intro exI [of _ "arch x"]) (simp add: belongsTo_def)
qed (auto simp: belongsTo_def)

section \<open>Ranks\<close>

lemma rankLoop_keeps:
  "length (rankLoop rows k prev os) = length rows \<and>
   map row_Component (rankLoop rows k prev os) = map row_Component rows"
proof (induction rows k prev os rule: rankLoop.induct)
  case (2 rows k prev i order)
  have "map row_Component (rows[i := (rows ! i)\<lparr>VersionRank := r\<rparr>]) = map row_Component rows" for r
    by (cases "i < length rows") (simp_all add: map_update list_update_beyond list_update_same_conv)
  with 2 show ?case by (simp add: Let_def)
qed simp

lemma rankLoop_untouched: "i \<notin> set os \<Longrightarrow> rankLoop rows k prev os ! i = rows ! i"
  by (induction rows k prev os rule: rankLoop.induct) (simp_all add: Let_def)

text \<open>What the loop writes, for an order that is sorted by version.\<close>

definition ranked :: "row list \<Rightarrow> bool" where
  "ranked rows \<longleftrightarrow> (\<forall>a \<in> set rows. \<forall>b \<in> set rows.
     VersionRank a < VersionRank b \<longleftrightarrow> CompareVersion (row_version a) (row_version b) < 0)"

lemma row_version_update:
  "row_version (rows[i := (rows ! i)\<lparr>VersionRank := r\<rparr>] ! j) = row_version (rows ! j)"
  by (cases "i < length rows"; cases "i = j") (simp_all add: row_version_def list_update_beyond)

lemma rankLoop_ranks:
  assumes "distinct os" "\<And>i. i \<in> set os \<Longrightarrow> i < length rows"
    and "\<And>i. i \<in> set (p # os) \<Longrightarrow> version_ok (row_version (rows ! i))"
    and "sorted_wrt (\<lambda>a b. CompareVersion (row_version (rows ! a)) (row_version (rows ! b)) \<le> 0) (p # os)"
  shows "(\<forall>i \<in> set os. k \<le> VersionRank (rankLoop rows k (Some p) os ! i) \<and>
      (VersionRank (rankLoop rows k (Some p) os ! i) = k
        \<longleftrightarrow> CompareVersion (row_version (rows ! p)) (row_version (rows ! i)) = 0)) \<and>
    (\<forall>i \<in> set os. \<forall>j \<in> set os.
      VersionRank (rankLoop rows k (Some p) os ! i) < VersionRank (rankLoop rows k (Some p) os ! j)
        \<longleftrightarrow> CompareVersion (row_version (rows ! i)) (row_version (rows ! j)) < 0)"
  using assms
proof (induction os arbitrary: rows k p)
  case (Cons q os)
  let ?V = "\<lambda>i. row_version (rows ! i)"
  let ?C = "\<lambda>i j. CompareVersion (?V i) (?V j)"
  define k' where "k' = (if ?C p q \<noteq> 0 then k + 1 else k)"
  define rows' where "rows' = rows[q := (rows ! q)\<lparr>VersionRank := k'\<rparr>]"
  let ?R = "\<lambda>i. VersionRank (rankLoop rows' k' (Some q) os ! i)"
  have loop: "rankLoop rows k (Some p) (q # os) = rankLoop rows' k' (Some q) os"
    by (simp add: k'_def rows'_def Let_def)
  have V': "row_version (rows' ! i) = ?V i" for i
    unfolding rows'_def by (rule row_version_update)
  have "q \<notin> set os" using Cons.prems(1) by simp
  then have Rq: "?R q = k'"
    using Cons.prems(2) by (simp add: rankLoop_untouched rows'_def)
  have ih: "(\<forall>i \<in> set os. k' \<le> ?R i \<and> (?R i = k' \<longleftrightarrow> ?C q i = 0)) \<and>
      (\<forall>i \<in> set os. \<forall>j \<in> set os. ?R i < ?R j \<longleftrightarrow> ?C i j < 0)"
    using Cons.IH [of rows' q k', unfolded V'] Cons.prems by (simp add: rows'_def)
  have okp: "version_ok (?V p)" and okq: "version_ok (?V q)"
    and oki: "\<And>i. i \<in> set os \<Longrightarrow> version_ok (?V i)" using Cons.prems(3) by auto
  have pq: "?C p q \<le> 0" and qi: "\<And>i. i \<in> set os \<Longrightarrow> ?C q i \<le> 0"
    using Cons.prems(4) by auto
  have p_i: "?C p i = 0 \<longleftrightarrow> ?C p q = 0 \<and> ?C q i = 0" if i: "i \<in> set os" for i
    using version_order.less_le_trans [OF okp okq oki [OF i]]
      version_order.le_less_trans [OF okp okq oki [OF i]]
      version_order.zero_trans [OF okp okq oki [OF i]] pq qi [OF i] by linarith
  have iq: "\<not> ?C i q < 0" if i: "i \<in> set os" for i
    using version_order.not_less [OF oki [OF i] okq] qi [OF i] by blast
  have qq: "?C q q = 0" by (rule version_order.refl_zero [OF okq])
  have kk: "k \<le> k'" "k' = k \<longleftrightarrow> ?C p q = 0" by (simp_all add: k'_def)
  have "k \<le> ?R i \<and> (?R i = k \<longleftrightarrow> ?C p i = 0)" if "i \<in> set (q # os)" for i
  proof (cases "i = q")
    case True
    then show ?thesis using Rq kk by simp
  next
    case False
    with that have i: "i \<in> set os" by simp
    with ih have "k' \<le> ?R i" "?R i = k' \<longleftrightarrow> ?C q i = 0" by blast+
    then show ?thesis using p_i [OF i] kk by linarith
  qed
  moreover have "?R i < ?R j \<longleftrightarrow> ?C i j < 0" if ij: "i \<in> set (q # os)" "j \<in> set (q # os)" for i j
  proof -
    consider "i = q" "j = q" | "i = q" "j \<in> set os" | "i \<in> set os" "j = q" | "i \<in> set os" "j \<in> set os"
      using ij by auto
    then show ?thesis
    proof cases
      case 2
      with ih have "k' \<le> ?R j" "?R j = k' \<longleftrightarrow> ?C q j = 0" by blast+
      then show ?thesis using Rq qi [OF 2(2)] unfolding 2(1) by linarith
    next
      case 3
      with ih have "k' \<le> ?R i" by blast
      then show ?thesis using Rq 3 iq [of i] by simp
    qed (use ih qq in auto)
  qed
  ultimately show ?case unfolding loop by blast
qed simp

lemma rankVersions_keeps:
  "length (rankVersions rows) = length rows"
  "map row_Component (rankVersions rows) = map row_Component rows"
  using rankLoop_keeps by (simp_all add: rankVersions_def)

lemma version_index: "three_way (\<lambda>a b. CompareVersion (row_version (rows ! a)) (row_version (rows ! b)))
    (\<lambda>i. version_ok (row_version (rows ! i)))"
  by (rule three_way_pullback) (rule version_order.three_way_axioms)

lemma row_version_kept:
  "i < length rows \<Longrightarrow> row_version (rankVersions rows ! i) = row_version (rows ! i)"
  using rankVersions_keeps [of rows] by (metis nth_map row_version_def)

lemma rankVersions_ranked:
  assumes "\<forall>r \<in> set rows. version_ok (row_version r)"
  shows "ranked (rankVersions rows)"
proof -
  let ?C = "\<lambda>i j. CompareVersion (row_version (rows ! i)) (row_version (rows ! j))"
  let ?os = "sort_stable ?C [0..<length rows]"
  have ok: "\<And>i. i < length rows \<Longrightarrow> version_ok (row_version (rows ! i))" using assms by simp
  have sorted: "sorted_wrt (\<lambda>i j. ?C i j \<le> 0) ?os"
    by (rule three_way.sort_sorted [OF version_index]) (simp add: ok)
  have by_index: "VersionRank (rankVersions rows ! i) < VersionRank (rankVersions rows ! j) \<longleftrightarrow> ?C i j < 0"
    if ij: "i < length rows" "j < length rows" for i j
  proof (cases ?os)
    case Nil
    with ij show ?thesis by simp
  next
    case (Cons p os)
    have dist: "distinct (p # os)" unfolding Cons [symmetric] by simp
    have "set (p # os) = {0..<length rows}" unfolding Cons [symmetric] by simp
    then have bound: "\<And>i. i \<in> set (p # os) \<longleftrightarrow> i < length rows" by simp
    define rows' where "rows' = rows[p := (rows ! p)\<lparr>VersionRank := 0\<rparr>]"
    have loop: "rankVersions rows = rankLoop rows' 0 (Some p) os"
      by (simp add: rankVersions_def Cons rows'_def)
    have V': "row_version (rows' ! i) = row_version (rows ! i)" for i
      unfolding rows'_def by (rule row_version_update)
    have Rp: "VersionRank (rankLoop rows' 0 (Some p) os ! p) = 0"
      using dist bound [of p] by (simp add: rankLoop_untouched rows'_def)
    have sorted': "sorted_wrt (\<lambda>i j. ?C i j \<le> 0) (p # os)" using sorted unfolding Cons .
    have r: "(\<forall>i \<in> set os. 0 \<le> VersionRank (rankLoop rows' 0 (Some p) os ! i) \<and>
        (VersionRank (rankLoop rows' 0 (Some p) os ! i) = 0 \<longleftrightarrow> ?C p i = 0)) \<and>
      (\<forall>i \<in> set os. \<forall>j \<in> set os. VersionRank (rankLoop rows' 0 (Some p) os ! i)
        < VersionRank (rankLoop rows' 0 (Some p) os ! j) \<longleftrightarrow> ?C i j < 0)"
    proof (rule rankLoop_ranks [of os rows' p 0, unfolded V'])
      show "\<And>i. i \<in> set os \<Longrightarrow> i < length rows'" unfolding rows'_def length_list_update
        using bound by (meson list.set_intros(2))
      show "\<And>i. i \<in> set (p # os) \<Longrightarrow> version_ok (row_version (rows ! i))" using bound ok by blast
    qed (use dist sorted' in simp_all)
    have pq: "?C p q \<le> 0" if "q \<in> set os" for q using sorted' that by simp
    have okos: "version_ok (row_version (rows ! q))" if "q \<in> set (p # os)" for q
      using bound ok that by blast
    have qp: "\<not> ?C q p < 0" if "q \<in> set os" for q
      using version_order.not_less [OF okos [of q] okos [of p]] pq that by simp
    have pp: "?C p p = 0" by (rule version_order.refl_zero [OF okos]) simp
    consider "i = p" "j = p" | "i = p" "j \<in> set os" | "i \<in> set os" "j = p" | "i \<in> set os" "j \<in> set os"
      using ij bound by (metis set_ConsD)
    then show ?thesis
    proof cases
      case 2
      with r have "0 \<le> VersionRank (rankLoop rows' 0 (Some p) os ! j)"
        "VersionRank (rankLoop rows' 0 (Some p) os ! j) = 0 \<longleftrightarrow> ?C p j = 0" by blast+
      then show ?thesis using Rp pq [OF 2(2)] unfolding loop 2(1) by linarith
    next
      case 3
      with r have "0 \<le> VersionRank (rankLoop rows' 0 (Some p) os ! i)" by blast
      then show ?thesis using Rp 3 qp [of i] unfolding loop by simp
    qed (use r pp Rp loop in auto)
  qed
  show ?thesis unfolding ranked_def
  proof (intro ballI)
    fix a b assume "a \<in> set (rankVersions rows)" "b \<in> set (rankVersions rows)"
    then obtain i j where "i < length rows" "j < length rows"
      "a = rankVersions rows ! i" "b = rankVersions rows ! j"
      unfolding in_set_conv_nth rankVersions_keeps(1) by blast
    then show "VersionRank a < VersionRank b \<longleftrightarrow> CompareVersion (row_version a) (row_version b) < 0"
      using by_index [of i j] row_version_kept [of i rows] row_version_kept [of j rows] by simp
  qed
qed

lemma ranked_keeps_order:
  assumes "map row_Component rs = map row_Component rows"
  shows "sorted_wrt (\<lambda>a b. compareRow a b \<le> 0) rs = sorted_wrt (\<lambda>a b. compareRow a b \<le> 0) rows"
proof -
  let ?P = "\<lambda>c d. cmp_or [cmp_compare (c_Name c) (c_Name d), CompareVersion (c_Version c) (c_Version d)] \<le> 0"
  have "sorted_wrt (\<lambda>a b. compareRow a b \<le> 0) xs = sorted_wrt ?P (map row_Component xs)" for xs
    by (simp add: sorted_wrt_map compareRow_def row_version_def)
  then show ?thesis using assms by simp
qed

section \<open>What the table promises\<close>

interpretation row_order: three_way compareRow "\<lambda>r. version_ok (row_version r)"
  unfolding compareRow_def
  by (intro three_way_cmp_or2 three_way_weaken [OF three_way_pullback [OF three_way_compare]]
      three_way_pullback [OF version_order.three_way_axioms]) auto

text \<open>
  The table of a page holds exactly the components that belong to the architecture it
  names, each as often as the SBOM lists it, and it names the requested architecture when the
  index carries it, otherwise one the index carries (none only when nothing is specific to
  one).
\<close>

theorem NewTable_rows:
  "let T = NewTable img digest arch cs in
    mset (map row_Component (t_Rows T))
      = filter_mset (\<lambda>c. belongsTo (c_Arch c) (t_Arch T)) (mset cs) \<and>
    (if arch \<in> c_Arch ` set cs \<and> arch \<noteq> '''' \<and> arch \<noteq> ''all'' then t_Arch T = arch
     else t_Arch T \<in> c_Arch ` set cs \<or> t_Arch T = '''' \<and> t_Architectures T = [])"
proof -
  let ?av = "architectures cs c_Arch"
  define T where "T = NewTable img digest arch cs"
  have A: "t_Arch T = resolveArch arch ?av" "t_Architectures T = ?av"
    by (simp_all add: T_def NewTable_def Let_def)
  have R: "map row_Component (t_Rows T)
      = map row_Component (sort_stable compareRow (map (\<lambda>c. \<lparr>row_Component = c, VersionRank = 0\<rparr>)
          (filter (\<lambda>c. belongsTo (c_Arch c) (t_Arch T)) cs)))"
    by (simp add: T_def NewTable_def Let_def rankVersions_keeps)
  have "mset (map row_Component (t_Rows T))
      = mset (map row_Component (map (\<lambda>c. \<lparr>row_Component = c, VersionRank = 0\<rparr>)
          (filter (\<lambda>c. belongsTo (c_Arch c) (t_Arch T)) cs)))"
    unfolding R by (simp only: mset_map mset_sort_stable)
  also have "\<dots> = filter_mset (\<lambda>c. belongsTo (c_Arch c) (t_Arch T)) (mset cs)"
    unfolding map_map comp_def by (simp add: mset_filter)
  finally have rows: "mset (map row_Component (t_Rows T))
      = filter_mset (\<lambda>c. belongsTo (c_Arch c) (t_Arch T)) (mset cs)" .
  have "resolveArch arch ?av = arch \<or> arch \<notin> c_Arch ` set cs \<or> arch = '''' \<or> arch = ''all''"
    using resolveArch_requested [of arch ?av] unfolding set_architectures by blast
  moreover have "resolveArch arch ?av \<in> c_Arch ` set cs \<or> resolveArch arch ?av = '''' \<and> ?av = []"
    using resolveArch_available [of ?av arch] unfolding set_architectures
    by (cases "?av = []") (simp_all add: resolveArch_def [of _ "[]"])
  ultimately show ?thesis
    using rows unfolding T_def [symmetric] Let_def A by (auto simp del: mset_map)
qed


definition sample_component :: "string \<Rightarrow> string \<Rightarrow> string \<Rightarrow> component" where
  "sample_component name version arch = \<lparr>c_Name = name, c_Version = version, c_License = '''',
     c_Type = ''deb'', c_PURL = '''', c_Arch = arch, c_CPE = ''''\<rparr>"


text \<open>
  Nothing in an SBOM is out of reach: every component is a row of the table for some
  architecture a reader can ask for.
\<close>

theorem NewTable_reaches_every_component:
  "set cs \<subseteq> (\<Union>arch. row_Component ` set (t_Rows (NewTable img digest arch cs)))"
proof
  fix c assume c: "c \<in> set cs"
  then obtain a where a: "belongsTo (c_Arch c) (resolveArch a (architectures cs c_Arch))"
    using belongsTo_own [of c cs c_Arch] by blast
  have "row_Component ` set (t_Rows (NewTable img digest a cs))
      = row_Component ` set (sort_stable compareRow (map (\<lambda>c. \<lparr>row_Component = c, VersionRank = 0\<rparr>)
          (filter (\<lambda>c. belongsTo (c_Arch c) (resolveArch a (architectures cs c_Arch))) cs)))"
    unfolding set_map [symmetric] by (simp add: NewTable_def Let_def rankVersions_keeps)
  with a c have "c \<in> row_Component ` set (t_Rows (NewTable img digest a cs))"
    by (auto simp: image_image)
  then show "c \<in> (\<Union>arch. row_Component ` set (t_Rows (NewTable img digest arch cs)))"
    by blast
qed

end
