(* ===== verification/Go_Time.thy ===== *)
theory Go_Time
  imports Go_Prelude
begin

text \<open>
  The parts of package \<open>time\<close> that the program formats with: the proleptic Gregorian date of an
  instant (nanoseconds since 1 January of year 1, UTC) and the layouts the source names. The
  lemmas show that the date of a day is a date and that its day is found again.
\<close>

section \<open>Dates\<close>

definition nanos_per_day :: int where
  "nanos_per_day = 86400 * 1000000000"

definition is_leap :: "int \<Rightarrow> bool" where
  "is_leap y \<longleftrightarrow> y mod 4 = 0 \<and> (y mod 100 \<noteq> 0 \<or> y mod 400 = 0)"

definition month_lengths :: "bool \<Rightarrow> int list" where
  "month_lengths leap = [31, if leap then 29 else 28, 31, 30, 31, 30, 31, 31, 30, 31, 30, 31]"

text \<open>Year and day of the year, both from 0, of a day counted from 1 January of year 1.\<close>

definition year_of_day :: "int \<Rightarrow> int \<times> int" where
  "year_of_day d =
     (let n400 = d div 146097; d400 = d mod 146097;
          n100 = min 3 (d400 div 36524); d100 = d400 - n100 * 36524;
          n4 = d100 div 1461; d4 = d100 mod 1461;
          n1 = min 3 (d4 div 365)
      in (400 * n400 + 100 * n100 + 4 * n4 + n1, d4 - 365 * n1))"

text \<open>Month (from 1) and day of the month (from 1) of a day of the year.\<close>

fun month_of_yday :: "int list \<Rightarrow> int \<Rightarrow> int \<Rightarrow> int \<times> int" where
  "month_of_yday [] m yd = (m, yd + 1)"
| "month_of_yday (l # ls) m yd = (if yd < l then (m, yd + 1) else month_of_yday ls (m + 1) (yd - l))"

definition date_of :: "time \<Rightarrow> int \<times> int \<times> int" where
  "date_of t =
     (let (y, yd) = year_of_day (t div nanos_per_day);
          (m, d) = month_of_yday (month_lengths (is_leap (y + 1))) 1 yd
      in (y + 1, m, d))"

definition days_before_year :: "int \<Rightarrow> int" where
  "days_before_year y = 365 * y + y div 4 - y div 100 + y div 400"

section \<open>Layouts\<close>

fun pad_zeros :: "nat \<Rightarrow> string \<Rightarrow> string" where
  "pad_zeros w s = replicate (w - length s) (CHR ''0'') @ s"

definition pad_int :: "nat \<Rightarrow> int \<Rightarrow> string" where
  "pad_int w n = pad_zeros w (itoa (nat n))"

definition month_names :: "string list" where
  "month_names = [''Jan'', ''Feb'', ''Mar'', ''Apr'', ''May'', ''Jun'', ''Jul'', ''Aug'', ''Sep'',
     ''Oct'', ''Nov'', ''Dec'']"

text \<open>The layout \<open>2006-01-02\<close>.\<close>

definition format_date :: "time \<Rightarrow> string" where
  "format_date t = (case date_of t of (y, m, d) \<Rightarrow>
     pad_int 4 y @ ''-'' @ pad_int 2 m @ ''-'' @ pad_int 2 d)"

text \<open>The layout \<open>2006-01\<close>.\<close>

definition format_month :: "time \<Rightarrow> string" where
  "format_month t = (case date_of t of (y, m, d) \<Rightarrow> pad_int 4 y @ ''-'' @ pad_int 2 m)"

text \<open>The layout \<open>2 Jan\<close>.\<close>

definition format_day_month :: "time \<Rightarrow> string" where
  "format_day_month t = (case date_of t of (y, m, d) \<Rightarrow>
     itoa (nat d) @ '' '' @ (month_names ! nat (m - 1)))"

text \<open>\<open>time.RFC3339Nano\<close> in UTC: the fraction without its trailing zeros.\<close>

definition format_RFC3339Nano :: "time \<Rightarrow> string" where
  "format_RFC3339Nano t =
     (let ns = t mod nanos_per_day; s = ns div 1000000000; frac = ns mod 1000000000
      in format_date t @ ''T'' @ pad_int 2 (s div 3600) @ '':'' @ pad_int 2 (s div 60 mod 60)
         @ '':'' @ pad_int 2 (s mod 60)
         @ (if frac = 0 then '''' else ''.'' @ trim_right (pad_int 9 frac) ''0'') @ ''Z'')"

section \<open>Parsing RFC 3339\<close>

text \<open>
  \<open>time.Parse\<close> for \<open>time.RFC3339\<close> and \<open>time.RFC3339Nano\<close>, which accept the same inputs: the
  hour may be one digit, a fraction may follow the seconds with a point or a comma and counts to
  nine digits, and the zone is Z or an offset of at most 24:60. The result is the instant.
\<close>

definition two_digits :: "string \<Rightarrow> (int \<times> string) option" where
  "two_digits s =
     (case s of
        a # b # r \<Rightarrow> if isDigit a \<and> isDigit b then Some (10 * digit_val a + digit_val b, r) else None
      | _ \<Rightarrow> None)"

definition one_or_two_digits :: "string \<Rightarrow> (int \<times> string) option" where
  "one_or_two_digits s =
     (case two_digits s of
        Some v \<Rightarrow> Some v
      | None \<Rightarrow> (case s of a # r \<Rightarrow> if isDigit a then Some (digit_val a, r) else None | [] \<Rightarrow> None))"

definition four_digits :: "string \<Rightarrow> (int \<times> string) option" where
  "four_digits s =
     (if 4 \<le> length s \<and> list_all isDigit (take 4 s) then Some (digits_val (take 4 s), drop 4 s) else None)"

definition skip_char :: "char \<Rightarrow> string \<Rightarrow> string option" where
  "skip_char c s = (case s of a # r \<Rightarrow> if a = c then Some r else None | [] \<Rightarrow> None)"

definition parse_fraction :: "string \<Rightarrow> int \<times> string" where
  "parse_fraction s =
     (case s of
        p # d # r \<Rightarrow>
          if (p = CHR ''.'' \<or> p = CHR '','') \<and> isDigit d then
            (let ds = takeWhile isDigit (d # r); ns = take 9 ds
             in (digits_val ns * 10 ^ (9 - length ns), dropWhile isDigit (d # r)))
          else (0, s)
      | _ \<Rightarrow> (0, s))"

text \<open>The seconds east of UTC.\<close>

definition parse_zone :: "string \<Rightarrow> (int \<times> string) option" where
  "parse_zone s =
     (case s of
        [] \<Rightarrow> None
      | c # r \<Rightarrow>
          if c = CHR ''Z'' then Some (0, r)
          else if c \<noteq> CHR ''+'' \<and> c \<noteq> CHR ''-'' then None
          else Option.bind (two_digits r) (\<lambda>(hr, r1).
               Option.bind (skip_char CHR '':'' r1) (\<lambda>r2.
               Option.bind (two_digits r2) (\<lambda>(mm, r3).
                 if hr \<le> 24 \<and> mm \<le> 60
                 then Some ((if c = CHR ''-'' then - 1 else 1) * (hr * 3600 + mm * 60), r3) else None))))"

definition instant :: "int \<Rightarrow> int \<Rightarrow> int \<Rightarrow> int \<Rightarrow> int \<Rightarrow> int \<Rightarrow> int \<Rightarrow> time" where
  "instant y m d h mi s ns =
     (days_before_year (y - 1) + sum_list (take (nat (m - 1)) (month_lengths (is_leap y))) + d - 1)
       * nanos_per_day + ((h * 60 + mi) * 60 + s) * 1000000000 + ns"

definition parse_RFC3339 :: "string \<Rightarrow> time option" where
  "parse_RFC3339 v =
     Option.bind (four_digits v) (\<lambda>(y, v).
     Option.bind (skip_char CHR ''-'' v) (\<lambda>v.
     Option.bind (two_digits v) (\<lambda>(m, v).
     if m < 1 \<or> 12 < m then None else
     Option.bind (skip_char CHR ''-'' v) (\<lambda>v.
     Option.bind (two_digits v) (\<lambda>(d, v).
     Option.bind (skip_char CHR ''T'' v) (\<lambda>v.
     Option.bind (one_or_two_digits v) (\<lambda>(h, v).
     if 24 \<le> h then None else
     Option.bind (skip_char CHR '':'' v) (\<lambda>v.
     Option.bind (two_digits v) (\<lambda>(mi, v).
     if 60 \<le> mi then None else
     Option.bind (skip_char CHR '':'' v) (\<lambda>v.
     Option.bind (two_digits v) (\<lambda>(s, v).
     if 60 \<le> s then None else
     (case parse_fraction v of (ns, v) \<Rightarrow>
     Option.bind (parse_zone v) (\<lambda>(zone, v).
     if v \<noteq> [] \<or> d < 1 \<or> month_lengths (is_leap y) ! nat (m - 1) < d then None
     else Some (instant y m d h mi s ns - zone * 1000000000))))))))))))))"

section \<open>Lemmas\<close>

lemma min3_div:
  fixes x n :: int
  assumes "0 \<le> x" "0 < n" "x \<le> 4 * n"
  shows "0 \<le> min 3 (x div n) \<and> min 3 (x div n) \<le> 3 \<and> 0 \<le> x - min 3 (x div n) * n \<and>
    x - min 3 (x div n) * n \<le> n \<and> (min 3 (x div n) < 3 \<longrightarrow> x - min 3 (x div n) * n < n)"
proof -
  have dm: "x = x div n * n + x mod n" "0 \<le> x mod n" "x mod n < n" using assms by simp_all
  have q: "0 \<le> x div n" using assms by (simp add: pos_imp_zdiv_nonneg_iff)
  show ?thesis
  proof (cases "x div n \<le> 3")
    case True
    then have m: "min 3 (x div n) = x div n" by simp
    have "x - x div n * n = x mod n" using dm(1) by linarith
    then show ?thesis unfolding m using dm(2,3) q True by simp
  next
    case False
    then have m: "min 3 (x div n) = 3" by simp
    have "4 * n \<le> x div n * n" using False assms(2) by (intro mult_right_mono) auto
    then have "3 * n \<le> x" using dm assms(2) by linarith
    then show ?thesis unfolding m using assms by simp
  qed
qed

lemma mod_zero_top: "1 \<le> x \<Longrightarrow> x \<le> n \<Longrightarrow> x mod n = 0 \<longleftrightarrow> x = n" for x n :: int
  by (cases "x = n") simp_all

lemma year_of_day_exact:
  assumes "year_of_day d = (y, yd)"
  shows "d = days_before_year y + yd \<and> 0 \<le> yd \<and> yd < (if is_leap (y + 1) then 366 else 365)"
proof -
  define a where "a = d div 146097"
  define x where "x = d mod 146097"
  define b where "b = min 3 (x div 36524)"
  define r where "r = x - b * 36524"
  define c where "c = r div 1461"
  define s where "s = r mod 1461"
  define e where "e = min 3 (s div 365)"
  have x: "d = 146097 * a + x" "0 \<le> x" "x \<le> 4 * 36524" by (simp_all add: a_def x_def)
  have b: "0 \<le> b" "b \<le> 3" "0 \<le> r" "r \<le> 36524" "b < 3 \<longrightarrow> r < 36524"
    using min3_div [OF x(2) _ x(3)] unfolding r_def b_def by (auto simp only: simp_thms zero_less_numeral)
  have s: "r = 1461 * c + s" "0 \<le> s" "s < 1461" by (simp_all add: c_def s_def)
  have c: "0 \<le> c" "c \<le> 24" using b(3,4) s by linarith+
  have "s \<le> 4 * 365" using s(3) by simp
  then have e: "0 \<le> e" "e \<le> 3" "0 \<le> s - e * 365" "s - e * 365 \<le> 365" "e < 3 \<longrightarrow> s - e * 365 < 365"
    using min3_div [OF s(2), of 365] unfolding e_def by (auto simp only: simp_thms zero_less_numeral)
  have d: "d = 146097 * a + 36524 * b + r" using x(1) by (simp add: r_def)
  from assms have y: "y = 400 * a + 100 * b + 4 * c + e" and yd: "yd = s - 365 * e"
    by (simp_all only: year_of_day_def Let_def a_def x_def b_def r_def c_def s_def e_def prod.inject)
  have q: "y div 4 = 100 * a + 25 * b + c" "y div 100 = 4 * a + b" "y div 400 = a"
  proof -
    show "y div 4 = 100 * a + 25 * b + c"
      by (rule int_div_pos_eq [where r = e]) (use y e(1,2) in simp_all)
    show "y div 100 = 4 * a + b"
      by (rule int_div_pos_eq [where r = "4 * c + e"]) (use y c(1,2) e(1,2) in simp_all)
    show "y div 400 = a"
      by (rule int_div_pos_eq [where r = "100 * b + 4 * c + e"]) (use y b(1,2) c(1,2) e(1,2) in simp_all)
  qed
  have "d = days_before_year y + yd"
    unfolding days_before_year_def q yd using d y s(1) by linarith
  moreover have "(y + 1) mod 4 = 0 \<longleftrightarrow> e = 3" "(y + 1) mod 100 = 0 \<longleftrightarrow> e = 3 \<and> c = 24"
    "(y + 1) mod 400 = 0 \<longleftrightarrow> e = 3 \<and> c = 24 \<and> b = 3"
  proof -
    have m4: "(y + 1) mod 4 = (e + 1) mod 4" "(y + 1) mod 100 = (4 * c + e + 1) mod 100"
      "(y + 1) mod 400 = (100 * b + 4 * c + e + 1) mod 400"
    proof -
      have "y + 1 = (e + 1) + 4 * (100 * a + 25 * b + c)"
        "y + 1 = (4 * c + e + 1) + 100 * (4 * a + b)"
        "y + 1 = (100 * b + 4 * c + e + 1) + 400 * a" using y by simp_all
      then show "(y + 1) mod 4 = (e + 1) mod 4" "(y + 1) mod 100 = (4 * c + e + 1) mod 100"
        "(y + 1) mod 400 = (100 * b + 4 * c + e + 1) mod 400" by (metis mod_mult_self2)+
    qed
    show "(y + 1) mod 4 = 0 \<longleftrightarrow> e = 3"
      unfolding m4 using mod_zero_top [of "e + 1" 4] e(1,2) by simp
    show "(y + 1) mod 100 = 0 \<longleftrightarrow> e = 3 \<and> c = 24"
      unfolding m4 using mod_zero_top [of "4 * c + e + 1" 100] e(1,2) c(1,2) by auto
    show "(y + 1) mod 400 = 0 \<longleftrightarrow> e = 3 \<and> c = 24 \<and> b = 3"
      unfolding m4 using mod_zero_top [of "100 * b + 4 * c + e + 1" 400] e(1,2) c(1,2) b(1,2) by auto
  qed
  then have "is_leap (y + 1) \<longleftrightarrow> e = 3 \<and> (c \<noteq> 24 \<or> b = 3)" by (auto simp: is_leap_def)
  then have "yd < (if is_leap (y + 1) then 366 else 365)"
    using b(2,5) c(2) s e(2,4,5) unfolding yd by (cases "e = 3"; cases "c = 24"; cases "b = 3") simp_all
  ultimately show ?thesis using e(3) yd by simp
qed

lemma month_of_yday_range:
  "0 \<le> yd \<Longrightarrow> yd < sum_list ls \<Longrightarrow> month_of_yday ls m yd = (m', d) \<Longrightarrow>
    m \<le> m' \<and> m' < m + int (length ls) \<and> 1 \<le> d \<and> d \<le> ls ! nat (m' - m) \<and>
    yd = sum_list (take (nat (m' - m)) ls) + d - 1"
proof (induction ls m yd rule: month_of_yday.induct)
  case (2 l ls m yd)
  show ?case
  proof (cases "yd < l")
    case True
    with 2 show ?thesis by auto
  next
    case False
    with 2 have "m + 1 \<le> m' \<and> m' < m + 1 + int (length ls) \<and> 1 \<le> d \<and> d \<le> ls ! nat (m' - (m + 1)) \<and>
      yd - l = sum_list (take (nat (m' - (m + 1))) ls) + d - 1" by simp
    moreover from this have "nat (m' - m) = Suc (nat (m' - (m + 1)))" by linarith
    ultimately show ?thesis by simp
  qed
qed simp

text \<open>The date of a day is a date of the calendar, and the day is found again from it.\<close>

lemma date_of_exact:
  assumes "date_of t = (y, m, d)"
  defines "ls \<equiv> month_lengths (is_leap y)"
  shows "1 \<le> m \<and> m \<le> 12 \<and> 1 \<le> d \<and> d \<le> ls ! nat (m - 1) \<and>
    t div nanos_per_day = days_before_year (y - 1) + sum_list (take (nat (m - 1)) ls) + d - 1"
proof -
  obtain y' yd where yy: "year_of_day (t div nanos_per_day) = (y', yd)" by force
  from assms(1) have y: "y = y' + 1" and md: "month_of_yday ls 1 yd = (m, d)"
    unfolding ls_def by (auto simp: date_of_def yy split: prod.splits)
  note ex = year_of_day_exact [OF yy]
  have "sum_list ls = (if is_leap y then 366 else 365)" by (simp add: ls_def month_lengths_def)
  then have "yd < sum_list ls" using ex y by simp
  from month_of_yday_range [OF _ this md] ex y show ?thesis
    by (simp add: ls_def month_lengths_def)
qed

end
