(* ===== verification/Scan_Report.thy ===== *)
theory Scan_Report
  imports Sbom_Table Go_Time Go_Crypto
begin

text \<open>
  web/internal/directory/scan.go: a vulnerability scan, its findings, and the report that folds
  the copies of one vulnerability into a row. The map \<open>index\<close> from a row's key to its place is
  a partial function; a nil \<open>*Suppression\<close> is \<open>None\<close>; the lists \<open>FixedIn\<close> and \<open>Packages\<close> are nil
  when empty. A \<open>Severity\<close> is the \<open>int\<close> it is in Go, because \<open>String\<close> and \<open>Rank\<close> handle
  values off the scale.

  The lemmas account for every finding of the architecture, order the rows and add up the
  counts.
\<close>

section \<open>Data\<close>

type_synonym severity = int

definition Unknown :: severity where "Unknown = 0"
definition Critical :: severity where "Critical = 1"
definition High :: severity where "High = 2"
definition Medium :: severity where "Medium = 3"
definition Low :: severity where "Low = 4"
definition Negligible :: severity where "Negligible = 5"

definition severityNames :: "string list" where
  "severityNames = [''Unknown'', ''Critical'', ''High'', ''Medium'', ''Low'', ''Negligible'']"

definition scale :: "severity list" where
  "scale = [Critical, High, Medium, Low, Negligible, Unknown]"

record suppression =
  Status :: string
  Justification :: string
  Impact :: string

record finding =
  f_ID :: string
  f_Severity :: severity
  f_Package :: string
  f_Version :: string
  f_Upstream :: string
  f_Type :: string
  f_Arch :: string
  f_PURL :: string
  f_FixedIn :: "string list"
  f_FixState :: string
  f_URL :: string
  f_Description :: string
  f_Suppressed :: "suppression option"

record scan =
  s_Scanner :: string
  s_ScannerURL :: string
  s_Database :: time
  s_Finished :: time
  s_Findings :: "finding list"

record finding_row =
  fr_Finding :: finding
  fr_Component :: string
  fr_Packages :: "string list"
  fr_Fix :: string

record severity_count =
  sc_Severity :: severity
  sc_Count :: nat

record report =
  r_Image :: string
  r_Digest :: string
  r_Arch :: string
  r_Architectures :: "string list"
  r_Scanner :: string
  r_ScannerURL :: string
  r_Database :: time
  r_Finished :: time
  r_Logo :: string
  r_Topbar :: topbar
  r_Links :: links
  r_Rows :: "finding_row list"
  r_Open :: nat
  r_Suppressed :: nat
  r_Summary :: "severity_count list"

section \<open>The scale\<close>

text \<open>The loop of \<open>ParseSeverity\<close> over the names, from index \<open>i\<close>.\<close>

fun severity_index :: "string \<Rightarrow> int \<Rightarrow> string list \<Rightarrow> severity" where
  "severity_index label i [] = Unknown"
| "severity_index label i (n # ns) = (if equal_fold label n then i else severity_index label (i + 1) ns)"

definition ParseSeverity :: "string \<Rightarrow> severity" where
  "ParseSeverity label = severity_index label 0 severityNames"

definition severity_String :: "severity \<Rightarrow> string" where
  "severity_String s =
     (if s < 0 \<or> int (length severityNames) \<le> s then severityNames ! nat Unknown
      else severityNames ! nat s)"

definition severity_Lower :: "severity \<Rightarrow> string" where
  "severity_Lower s = to_lower (severity_String s)"

text \<open>The loop of \<open>Rank\<close>.\<close>

fun scale_index :: "severity \<Rightarrow> nat \<Rightarrow> severity list \<Rightarrow> nat" where
  "scale_index s r [] = length scale - 1"
| "scale_index s r (k # ks) = (if k = s then r else scale_index s (r + 1) ks)"

definition Rank :: "severity \<Rightarrow> nat" where
  "Rank s = scale_index s 0 scale"

section \<open>Words and fingerprints\<close>

definition Words :: "suppression \<Rightarrow> string" where
  "Words s = replace_all (Status s) ''_'' '' '' @
     (if Justification s \<noteq> '''' then '': '' @ replace_all (Justification s) ''_'' '' '' else '''')"

definition unit_sep :: string where
  "unit_sep = [char_of (31::nat)]"

definition newline :: string where
  "newline = [char_of (10::nat)]"

definition finding_bytes :: "finding \<Rightarrow> string" where
  "finding_bytes f =
     f_ID f @ unit_sep @ f_PURL f @ unit_sep @ severity_String (f_Severity f) @ unit_sep
     @ f_FixState f @ unit_sep @ join '','' (f_FixedIn f)
     @ (case f_Suppressed f of
          None \<Rightarrow> ''''
        | Some s \<Rightarrow> unit_sep @ Status s @ unit_sep @ Justification s @ unit_sep @ Impact s)
     @ newline"

definition Fingerprint :: "scan \<Rightarrow> string" where
  "Fingerprint s =
     take 16 (hex_encode (sha256
       (s_Scanner s @ newline @ format_RFC3339Nano (s_Database s) @ newline
        @ format_RFC3339Nano (s_Finished s) @ newline
        @ concat (map finding_bytes (s_Findings s)))))"

section \<open>The report\<close>

definition row_key :: "finding_row \<Rightarrow> string" where
  "row_key r = join unit_sep
     [f_ID (fr_Finding r), fr_Component r, f_Version (fr_Finding r), f_FixState (fr_Finding r), fr_Fix r]"

definition cmp_Or :: "string \<Rightarrow> string \<Rightarrow> string" where
  "cmp_Or a b = (if a \<noteq> '''' then a else b)"

definition finding_row_of :: "finding \<Rightarrow> finding_row" where
  "finding_row_of f = \<lparr>fr_Finding = f, fr_Component = cmp_Or (f_Upstream f) (f_Package f),
     fr_Packages = [], fr_Fix = join '', '' (f_FixedIn f)\<rparr>"

definition add_package :: "string \<Rightarrow> finding_row \<Rightarrow> finding_row" where
  "add_package p r = r\<lparr>fr_Packages := fr_Packages r @ [p]\<rparr>"

text \<open>One round of the first loop, over the rows and the index of their keys.\<close>

definition foldFinding :: "string \<Rightarrow> finding \<Rightarrow> finding_row list \<times> (string \<Rightarrow> nat option)
    \<Rightarrow> finding_row list \<times> (string \<Rightarrow> nat option)" where
  "foldFinding arch f st =
     (case st of (rows, index) \<Rightarrow>
        if \<not> belongsTo (f_Arch f) arch then (rows, index)
        else let row = finding_row_of f
             in (case index (row_key row) of
                   Some i \<Rightarrow> (rows[i := add_package (f_Package f) (rows ! i)], index)
                 | None \<Rightarrow>
                     (rows @ [add_package (f_Package f) row], index(row_key row := Some (length rows)))))"

definition foldFindings :: "string \<Rightarrow> finding list \<Rightarrow> finding_row list \<times> (string \<Rightarrow> nat option)" where
  "foldFindings arch fs = foldl (\<lambda>st f. foldFinding arch f st) ([], (\<lambda>_. None)) fs"

text \<open>The second loop: packages in name order, none when they are the component itself.\<close>

definition tidyPackages :: "finding_row \<Rightarrow> finding_row" where
  "tidyPackages r =
     (let ps = sort_strings (fr_Packages r)
      in r\<lparr>fr_Packages := (if ps = [fr_Component r] then [] else ps)\<rparr>)"

definition compareSuppressed :: "finding_row \<Rightarrow> finding_row \<Rightarrow> int" where
  "compareSuppressed a b =
     (case (f_Suppressed (fr_Finding a), f_Suppressed (fr_Finding b)) of
        (None, Some _) \<Rightarrow> -1
      | (Some _, None) \<Rightarrow> 1
      | _ \<Rightarrow> 0)"

definition compareFindingRow :: "finding_row \<Rightarrow> finding_row \<Rightarrow> int" where
  "compareFindingRow a b = cmp_or
     [compareSuppressed a b,
      cmp_compare (Rank (f_Severity (fr_Finding a))) (Rank (f_Severity (fr_Finding b))),
      cmp_compare (f_ID (fr_Finding b)) (f_ID (fr_Finding a)),
      cmp_compare (fr_Component a) (fr_Component b)]"

text \<open>The third loop: Suppressed, Open and the counts by rank.\<close>

fun countRows :: "finding_row list \<Rightarrow> nat \<Rightarrow> nat \<Rightarrow> nat list \<Rightarrow> nat \<times> nat \<times> nat list" where
  "countRows [] nsup nopen counts = (nsup, nopen, counts)"
| "countRows (r # rs) nsup nopen counts =
     (if f_Suppressed (fr_Finding r) \<noteq> None then countRows rs (nsup + 1) nopen counts
      else let k = Rank (f_Severity (fr_Finding r))
           in countRows rs nsup (nopen + 1) (counts[k := counts ! k + 1]))"

definition summarise :: "nat list \<Rightarrow> severity_count list" where
  "summarise counts =
     map (\<lambda>(s, n). \<lparr>sc_Severity = s, sc_Count = n\<rparr>) (filter (\<lambda>(s, n). 0 < n) (zip scale counts))"

definition NewReport :: "string \<Rightarrow> string \<Rightarrow> string \<Rightarrow> scan \<Rightarrow> report" where
  "NewReport img digest arch scn =
     (let available = architectures (s_Findings scn) f_Arch;
          arch = resolveArch arch available;
          rows = sort_stable compareFindingRow
                   (map tidyPackages (fst (foldFindings arch (s_Findings scn))));
          (nsup, nopen, counts) = countRows rows 0 0 (replicate (length scale) 0)
      in \<lparr>r_Image = img, r_Digest = digest, r_Arch = arch, r_Architectures = available,
          r_Scanner = s_Scanner scn, r_ScannerURL = s_ScannerURL scn,
          r_Database = s_Database scn, r_Finished = s_Finished scn,
          r_Logo = '''', r_Topbar = no_topbar, r_Links = no_links, r_Rows = rows,
          r_Open = nopen, r_Suppressed = nsup, r_Summary = summarise counts\<rparr>)"

section \<open>Ranks\<close>

lemma Rank_cases:
  "Rank s = (if s = Critical then 0 else if s = High then 1 else if s = Medium then 2
     else if s = Low then 3 else if s = Negligible then 4 else 5)"
  by (simp add: Rank_def scale_def eq_commute [of _ s])

lemma Rank_less: "Rank s < length scale"
  by (simp add: Rank_cases scale_def)

lemma Rank_scale: "map Rank scale = [0..<length scale]"
  by (simp add: scale_def Rank_cases Critical_def High_def Medium_def Low_def Negligible_def
      Unknown_def upt_rec)

lemma ParseSeverity_on_scale: "0 \<le> ParseSeverity l \<and> ParseSeverity l \<le> 5"
  by (simp add: ParseSeverity_def severityNames_def Unknown_def)

section \<open>Folding\<close>

lemma row_key_add_package [simp]: "row_key (add_package p r) = row_key r"
  by (simp add: row_key_def add_package_def)

lemma row_key_tidyPackages [simp]: "row_key (tidyPackages r) = row_key r"
  by (simp add: row_key_def tidyPackages_def Let_def)

definition finding_key :: "finding \<Rightarrow> string" where
  "finding_key f = row_key (finding_row_of f)"

text \<open>The (key, package) pairs a row stands for.\<close>

definition row_pairs :: "finding_row \<Rightarrow> (string \<times> string) list" where
  "row_pairs r = map (Pair (row_key r)) (fr_Packages r)"

lemma fr_Packages_add [simp]: "fr_Packages (add_package p r) = fr_Packages r @ [p]"
  by (simp add: add_package_def)

lemma row_pairs_add: "row_pairs (add_package p r) = row_pairs r @ [(row_key r, p)]"
  by (simp add: row_pairs_def)

lemma row_pairs_new: "row_pairs (finding_row_of f) = []"
  by (simp add: row_pairs_def finding_row_of_def)

definition shown_packages :: "finding_row \<Rightarrow> string list" where
  "shown_packages r = (if fr_Packages r = [] then [fr_Component r] else fr_Packages r)"

definition index_ok :: "finding_row list \<Rightarrow> (string \<Rightarrow> nat option) \<Rightarrow> bool" where
  "index_ok rows index \<longleftrightarrow>
     (\<forall>k i. index k = Some i \<longleftrightarrow> i < length rows \<and> row_key (rows ! i) = k)"

lemma index_ok_distinct: "index_ok rows index \<Longrightarrow> distinct (map row_key rows)"
  unfolding index_ok_def distinct_conv_nth
  by (metis length_map nth_map option.inject)

lemma index_ok_update:
  assumes "index_ok rows index" "i < length rows"
  shows "index_ok (rows[i := add_package p (rows ! i)]) index"
proof -
  have "row_key (rows[i := add_package p (rows ! i)] ! j) = row_key (rows ! j)" for j
    by (cases "j = i") (use assms(2) in simp_all)
  with assms show ?thesis by (simp add: index_ok_def)
qed

lemma index_ok_append:
  assumes "index_ok rows index" "index (row_key r) = None" "row_key r' = row_key r"
  shows "index_ok (rows @ [r']) (index(row_key r := Some (length rows)))"
  unfolding index_ok_def
proof (intro allI)
  fix k i
  have no: "\<And>j. j < length rows \<Longrightarrow> row_key (rows ! j) \<noteq> row_key r"
    using assms(1,2) unfolding index_ok_def by (metis option.distinct(1))
  show "(index(row_key r := Some (length rows))) k = Some i \<longleftrightarrow>
      i < length (rows @ [r']) \<and> row_key ((rows @ [r']) ! i) = k"
  proof (cases "i < length rows")
    case True
    then show ?thesis using assms(1) no [of i] by (auto simp: index_ok_def nth_append)
  next
    case False
    have "index k \<noteq> Some i" using assms(1) False unfolding index_ok_def by blast
    then show ?thesis using False assms(3) by (auto simp: nth_append less_Suc_eq)
  qed
qed

lemma foldFindings_inv:
  "index_ok (fst (foldFindings arch fs)) (snd (foldFindings arch fs)) \<and>
   (\<forall>r \<in> set (fst (foldFindings arch fs)). fr_Packages r \<noteq> []) \<and>
   mset (concat (map row_pairs (fst (foldFindings arch fs))))
     = mset (map (\<lambda>f. (finding_key f, f_Package f)) (filter (\<lambda>f. belongsTo (f_Arch f) arch) fs))"
proof (induction fs rule: rev_induct)
  case Nil
  then show ?case by (simp add: foldFindings_def index_ok_def)
next
  case (snoc f fs)
  obtain rows index where st: "foldFindings arch fs = (rows, index)" by force
  have step: "foldFindings arch (fs @ [f]) = foldFinding arch f (rows, index)"
    using st by (simp add: foldFindings_def)
  from snoc st have ok: "index_ok rows index" and ne: "\<forall>r \<in> set rows. fr_Packages r \<noteq> []"
    and acc: "mset (concat (map row_pairs rows))
      = mset (map (\<lambda>f. (finding_key f, f_Package f)) (filter (\<lambda>f. belongsTo (f_Arch f) arch) fs))"
    by simp_all
  show ?case
  proof (cases "belongsTo (f_Arch f) arch")
    case False
    then show ?thesis unfolding step using ok ne acc by (simp add: foldFinding_def)
  next
    case True
    show ?thesis
    proof (cases "index (finding_key f)")
      case None
      then have st': "foldFindings arch (fs @ [f])
          = (rows @ [add_package (f_Package f) (finding_row_of f)],
             index(finding_key f := Some (length rows)))"
        unfolding step using True by (simp add: foldFinding_def finding_key_def Let_def)
      have "index_ok (rows @ [add_package (f_Package f) (finding_row_of f)])
          (index(finding_key f := Some (length rows)))"
        using index_ok_append [OF ok] None by (simp add: finding_key_def)
      then show ?thesis unfolding st' using True ne acc
        by (simp add: row_pairs_add row_pairs_new del: fun_upd_apply)
          (simp add: finding_key_def del: fun_upd_apply)
    next
      case (Some i)
      then have i: "i < length rows" "row_key (rows ! i) = finding_key f"
        using ok unfolding index_ok_def by auto
      let ?r = "add_package (f_Package f) (rows ! i)"
      have st': "foldFindings arch (fs @ [f]) = (rows[i := ?r], index)"
        unfolding step using True Some by (simp add: foldFinding_def finding_key_def Let_def)
      have "row_pairs ?r = row_pairs (rows ! i) @ [(finding_key f, f_Package f)]"
        using i by (simp add: row_pairs_add)
      then have "mset (concat (map row_pairs (rows[i := ?r])))
          = add_mset (finding_key f, f_Package f) (mset (concat (map row_pairs rows)))"
        using mset_concat_update [OF i(1), of row_pairs ?r] by simp
      moreover have "\<forall>r \<in> set (rows[i := ?r]). fr_Packages r \<noteq> []"
        using ne set_update_subset_insert [of rows i ?r] by fastforce
      ultimately show ?thesis unfolding st' using True acc index_ok_update [OF ok i(1)] by simp
    qed
  qed
qed

text \<open>Tidying the packages of a row keeps what it stands for.\<close>

lemma tidy_shown:
  assumes "fr_Packages r \<noteq> []"
  shows "mset (map (Pair (row_key r)) (shown_packages (tidyPackages r))) = mset (row_pairs r)"
proof (cases "sort_strings (fr_Packages r) = [fr_Component r]")
  case True
  then have "mset (fr_Packages r) = {#fr_Component r#}"
    by (metis mset_sort_stable mset_single_iff_right sort_strings_def)
  with True show ?thesis
    by (simp add: shown_packages_def tidyPackages_def row_pairs_def Let_def)
next
  case False
  moreover have "sort_strings (fr_Packages r) \<noteq> []" using assms by (simp add: sort_strings_def)
  ultimately show ?thesis
    by (simp add: shown_packages_def tidyPackages_def row_pairs_def Let_def)
      (simp add: sort_strings_def)
qed

section \<open>Counting\<close>

definition standing :: "finding_row \<Rightarrow> bool" where
  "standing r \<longleftrightarrow> f_Suppressed (fr_Finding r) = None"

definition count_at :: "finding_row list \<Rightarrow> nat \<Rightarrow> nat" where
  "count_at rows k =
     length (filter (\<lambda>r. standing r \<and> Rank (f_Severity (fr_Finding r)) = k) rows)"

lemma countRows_counts:
  assumes "length counts = length scale"
  shows "countRows rows nsup nopen counts =
    (nsup + length (filter (\<lambda>r. \<not> standing r) rows), nopen + length (filter standing rows),
     map (\<lambda>k. counts ! k + count_at rows k) [0..<length scale])"
  using assms
proof (induction rows arbitrary: nsup nopen counts)
  case Nil
  then show ?case by (simp add: count_at_def) (metis map_nth)
next
  case (Cons r rows)
  show ?case
  proof (cases "standing r")
    case False
    then show ?thesis using Cons by (auto simp: standing_def count_at_def)
  next
    case True
    let ?k = "Rank (f_Severity (fr_Finding r))"
    have "map (\<lambda>k. counts[?k := counts ! ?k + 1] ! k + count_at rows k) [0..<length scale]
        = map (\<lambda>k. counts ! k + count_at (r # rows) k) [0..<length scale]"
      using True Cons.prems by (intro map_cong) (auto simp: count_at_def nth_list_update)
    then show ?thesis
      using True Cons.IH [of "counts[?k := counts ! ?k + 1]"] Cons.prems
      by (simp add: standing_def Let_def)
  qed
qed

lemma sum_count_at: "(\<Sum>k\<leftarrow>[0..<length scale]. count_at rows k) = length (filter standing rows)"
proof (induction rows)
  case Nil
  then show ?case by (simp add: count_at_def)
next
  case (Cons r rows)
  let ?k = "Rank (f_Severity (fr_Finding r))"
  have "count_at (r # rows) k = count_at rows k + (if standing r \<and> ?k = k then 1 else 0)" for k
    by (simp add: count_at_def)
  then have "(\<Sum>k\<leftarrow>[0..<length scale]. count_at (r # rows) k)
      = (\<Sum>k\<leftarrow>[0..<length scale]. count_at rows k)
        + (\<Sum>k\<leftarrow>[0..<length scale]. if standing r \<and> ?k = k then 1 else 0)"
    by (simp add: sum_list_addf)
  also have "(\<Sum>k\<leftarrow>[0..<length scale]. if standing r \<and> ?k = k then 1 else 0) = (if standing r then 1 else (0::nat))"
    using Rank_less [of "f_Severity (fr_Finding r)"]
    by (auto simp: sum_list_distinct_conv_sum_set)
  finally show ?case using Cons by simp
qed

lemma sum_summary:
  "length ns = length ss \<Longrightarrow> sum_list (map sc_Count (map (\<lambda>(s, n). \<lparr>sc_Severity = s, sc_Count = n\<rparr>)
     (filter (\<lambda>(s, n). 0 < n) (zip ss ns)))) = sum_list (ns :: nat list)"
proof (induction ns ss rule: list_induct2)
  case (Cons n ns s ss)
  then show ?case by simp
qed simp

section \<open>What the report promises\<close>

interpretation finding_order: three_way compareFindingRow "\<lambda>_. True"
proof -
  have "three_way compareSuppressed (\<lambda>_. True)"
    by unfold_locales (auto simp: compareSuppressed_def split: option.splits)
  moreover have "three_way (\<lambda>a b. cmp_compare (f_ID (fr_Finding b)) (f_ID (fr_Finding a))) (\<lambda>_. True)"
    by (rule three_way_reverse) (rule three_way_pullback [OF three_way_compare])
  ultimately show "three_way compareFindingRow (\<lambda>_. True)"
    unfolding compareFindingRow_def
    by (intro three_way_cmp_or4 three_way_pullback [OF three_way_compare, of _ "\<lambda>_. True"])
qed

lemma sorted_split:
  assumes "sorted_wrt (\<lambda>a b. compareFindingRow a b \<le> 0) rows"
  shows "rows = filter standing rows @ filter (\<lambda>r. \<not> standing r) rows"
  using assms
proof (induction rows)
  case (Cons r rows)
  show ?case
  proof (cases "standing r")
    case True
    with Cons show ?thesis by simp
  next
    case False
    have "\<not> standing x" if "x \<in> set rows" for x
      using Cons.prems that False
      by (auto simp: compareFindingRow_def compareSuppressed_def standing_def split: option.splits if_splits)
    then show ?thesis using False by simp
  qed
qed simp

lemma NewReport_fields:
  fixes img digest arch scn
  defines "R \<equiv> NewReport img digest arch scn"
  shows "r_Rows R = sort_stable compareFindingRow
      (map tidyPackages (fst (foldFindings (r_Arch R) (s_Findings scn))))"
    and "r_Open R = length (filter standing (r_Rows R))"
    and "r_Suppressed R = length (filter (\<lambda>r. \<not> standing r) (r_Rows R))"
    and "r_Summary R = summarise (map (count_at (r_Rows R)) [0..<length scale])"
proof -
  define rows where "rows = sort_stable compareFindingRow
    (map tidyPackages (fst (foldFindings (resolveArch arch (architectures (s_Findings scn) f_Arch)) (s_Findings scn))))"
  have c: "countRows rows 0 0 (replicate (length scale) 0) =
    (length (filter (\<lambda>r. \<not> standing r) rows), length (filter standing rows),
     map (count_at rows) [0..<length scale])"
    by (simp add: countRows_counts)
  have "R = \<lparr>r_Image = img, r_Digest = digest,
      r_Arch = resolveArch arch (architectures (s_Findings scn) f_Arch),
      r_Architectures = architectures (s_Findings scn) f_Arch,
      r_Scanner = s_Scanner scn, r_ScannerURL = s_ScannerURL scn,
      r_Database = s_Database scn, r_Finished = s_Finished scn,
      r_Logo = '''', r_Topbar = no_topbar, r_Links = no_links, r_Rows = rows,
      r_Open = length (filter standing rows),
      r_Suppressed = length (filter (\<lambda>r. \<not> standing r) rows),
      r_Summary = summarise (map (count_at rows) [0..<length scale])\<rparr>"
    unfolding R_def NewReport_def Let_def rows_def [symmetric] c by simp
  then show "r_Rows R = sort_stable compareFindingRow
      (map tidyPackages (fst (foldFindings (r_Arch R) (s_Findings scn))))"
    "r_Open R = length (filter standing (r_Rows R))"
    "r_Suppressed R = length (filter (\<lambda>r. \<not> standing r) (r_Rows R))"
    "r_Summary R = summarise (map (count_at (r_Rows R)) [0..<length scale])"
    by (simp_all add: rows_def)
qed

lemma zip_summary:
  "map (\<lambda>(s, n). \<lparr>sc_Severity = s, sc_Count = n\<rparr>)
      (filter (\<lambda>(s, n). 0 < n) (zip ss (map (\<lambda>s. f (Rank s)) ss)))
    = map (\<lambda>s. \<lparr>sc_Severity = s, sc_Count = f (Rank s)\<rparr>) (filter (\<lambda>s. 0 < f (Rank s)) ss)"
  by (induction ss) simp_all

text \<open>The sum of the summary, for the pages that add it up again.\<close>

lemma NewReport_open_sum:
  "sum_list (map sc_Count (r_Summary (NewReport img digest arch scn))) = r_Open (NewReport img digest arch scn)"
  unfolding NewReport_fields(4) summarise_def
  using sum_summary [of "map (count_at (r_Rows (NewReport img digest arch scn))) [0..<length scale]" scale]
  by (simp only: length_map length_upt sum_count_at NewReport_fields(2) diff_zero)

lemma summarise_scale:
  "summarise (map f [0..<length scale]) = map (\<lambda>s. \<lparr>sc_Severity = s, sc_Count = f (Rank s)\<rparr>)
     (filter (\<lambda>s. 0 < f (Rank s)) scale)"
proof -
  have "map f [0..<length scale] = map (\<lambda>s. f (Rank s)) scale"
    by (simp only: Rank_scale [symmetric] map_map comp_def)
  then have "summarise (map f [0..<length scale]) = map (\<lambda>(s, n). \<lparr>sc_Severity = s, sc_Count = n\<rparr>)
      (filter (\<lambda>(s, n). 0 < n) (zip scale (map (\<lambda>s. f (Rank s)) scale)))"
    by (simp only: summarise_def)
  also have "\<dots> = map (\<lambda>s. \<lparr>sc_Severity = s, sc_Count = f (Rank s)\<rparr>)
     (filter (\<lambda>s. 0 < f (Rank s)) scale)"
    by (rule zip_summary)
  finally show ?thesis .
qed

text \<open>
  C18: the report loses no finding and invents none. Its rows have distinct keys, and the
  packages they show (the component itself where a row lists none), paired with the key of
  the row, are exactly the findings of the architecture, each counted once.
\<close>

theorem NewReport_accounts_for_findings:
  "let R = NewReport img digest arch scn in
    distinct (map row_key (r_Rows R)) \<and>
    mset (concat (map (\<lambda>r. map (Pair (row_key r)) (shown_packages r)) (r_Rows R)))
      = mset (map (\<lambda>f. (finding_key f, f_Package f))
          (filter (\<lambda>f. belongsTo (f_Arch f) (r_Arch R)) (s_Findings scn)))"
proof -
  define R where "R = NewReport img digest arch scn"
  define rows where "rows = fst (foldFindings (r_Arch R) (s_Findings scn))"
  let ?g = "\<lambda>r. map (Pair (row_key r)) (shown_packages r)"
  have R: "r_Rows R = sort_stable compareFindingRow (map tidyPackages rows)"
    unfolding rows_def R_def by (rule NewReport_fields(1))
  note inv = foldFindings_inv [of "r_Arch R" "s_Findings scn", folded rows_def]
  have "mset (map row_key (r_Rows R)) = mset (map row_key (map tidyPackages rows))"
    unfolding R by (simp only: mset_map mset_sort_stable)
  also have "map row_key (map tidyPackages rows) = map row_key rows" by simp
  finally have d: "distinct (map row_key (r_Rows R))"
    using inv index_ok_distinct [of rows] mset_eq_imp_distinct_iff by blast
  have "mset (concat (map ?g (r_Rows R))) = mset (concat (map ?g (map tidyPackages rows)))"
    unfolding R by (rule mset_concat_perm) simp
  also have "\<dots> = mset (concat (map row_pairs rows))"
    using inv tidy_shown by (intro mset_concat_cong) auto
  finally show ?thesis using d inv unfolding R_def [symmetric] Let_def by simp
qed

text \<open>
  The counts of a report add up: every row is open or suppressed, the summary lists the
  severities that occur among the open rows, worst first, each with the number of open rows
  at it, and these numbers sum to the open count.
\<close>

theorem NewReport_counts:
  "let R = NewReport img digest arch scn in
    r_Open R + r_Suppressed R = length (r_Rows R) \<and>
    r_Open R = length (filter standing (r_Rows R)) \<and>
    sum_list (map sc_Count (r_Summary R)) = r_Open R \<and>
    r_Summary R = map (\<lambda>s. \<lparr>sc_Severity = s, sc_Count = count_at (r_Rows R) (Rank s)\<rparr>)
      (filter (\<lambda>s. 0 < count_at (r_Rows R) (Rank s)) scale)"
proof -
  define R where "R = NewReport img digest arch scn"
  note f = NewReport_fields(2-4) [of img digest arch scn, folded R_def]
  have "sum_list (map sc_Count (r_Summary R)) = r_Open R"
    unfolding R_def by (rule NewReport_open_sum)
  then show ?thesis
    using sum_length_filter_compl [of standing "r_Rows R"]
    unfolding R_def [symmetric] Let_def by (simp only: f(1,2) f(3) summarise_scale simp_thms)
qed

text \<open>
  A report lists every open row before every suppressed one, and within each group the
  worst severity first.
\<close>

theorem NewReport_order:
  "let rows = r_Rows (NewReport img digest arch scn) in
    rows = filter standing rows @ filter (\<lambda>r. \<not> standing r) rows \<and>
    sorted (map (\<lambda>r. Rank (f_Severity (fr_Finding r))) (filter standing rows)) \<and>
    sorted (map (\<lambda>r. Rank (f_Severity (fr_Finding r))) (filter (\<lambda>r. \<not> standing r) rows))"
proof -
  define rows where "rows = r_Rows (NewReport img digest arch scn)"
  have s: "sorted_wrt (\<lambda>a b. compareFindingRow a b \<le> 0) rows"
    unfolding rows_def NewReport_fields(1) by (rule finding_order.sort_sorted) simp
  have same: "sorted (map (\<lambda>r. Rank (f_Severity (fr_Finding r))) (filter P rows))"
    if P: "\<And>a b. P a \<Longrightarrow> P b \<Longrightarrow> compareSuppressed a b = 0" for P
  proof -
    have "sorted_wrt (\<lambda>a b. compareFindingRow a b \<le> 0) (filter P rows)"
      using s by (rule sorted_wrt_filter)
    then have "sorted_wrt (\<lambda>a b. Rank (f_Severity (fr_Finding a)) \<le> Rank (f_Severity (fr_Finding b)))
        (filter P rows)"
      by (rule sorted_wrt_mono_rel [rotated])
        (auto simp: compareFindingRow_def P split: if_splits)
    then show ?thesis by (simp add: sorted_map)
  qed
  have "sorted (map (\<lambda>r. Rank (f_Severity (fr_Finding r))) (filter standing rows))"
    "sorted (map (\<lambda>r. Rank (f_Severity (fr_Finding r))) (filter (\<lambda>r. \<not> standing r) rows))"
    by (rule same, auto simp: compareSuppressed_def standing_def split: option.splits)+
  then show ?thesis using sorted_split [OF s] unfolding rows_def [symmetric] Let_def by simp
qed

text \<open>
  A row stands or is suppressed as its first finding is: the key of a row does not say, so an
  open finding that follows a suppressed copy of it is counted as suppressed.
\<close>

definition sample_finding :: "string \<Rightarrow> suppression option \<Rightarrow> finding" where
  "sample_finding pkg s = \<lparr>f_ID = ''CVE-1'', f_Severity = Critical, f_Package = pkg,
     f_Version = ''1'', f_Upstream = ''glibc'', f_Type = ''deb'', f_Arch = '''', f_PURL = '''',
     f_FixedIn = [], f_FixState = '''', f_URL = '''', f_Description = '''', f_Suppressed = s\<rparr>"

theorem NewReport_hides_open_copy:
  "let R = NewReport '''' '''' '''' \<lparr>s_Scanner = '''', s_ScannerURL = '''', s_Database = 0,
       s_Finished = 0, s_Findings =
         [sample_finding ''libc6'' (Some \<lparr>Status = ''not_affected'', Justification = '''', Impact = ''''\<rparr>),
          sample_finding ''libc-bin'' None]\<rparr>
   in r_Open R = 0 \<and> r_Suppressed R = 1"
  by code_simp

end
