(* ===== verification/History_Page.thy ===== *)
theory History_Page
  imports Scan_Report Complex_Main
begin

text \<open>
  web/internal/directory/history.go: the scans of a tag over the builds it has named, as points
  and as a chart. The geometry of the chart, \<open>float64\<close> in the source, is in exact rationals here,
  so its statements are about the formulas and not about their rounding; \<open>niceStep\<close>, which
  takes a logarithm, does not depend on that rounding (\<open>niceStep_robust\<close>). A duration saturates
  at 64 bits as \<open>time.Time.Sub\<close> does. A nil chart is \<open>None\<close>.

  The lemmas show which scans become points, that the points are in order and add up, and that
  every mark of the chart lies inside the plot.
\<close>

section \<open>Data\<close>

record move =
  mv_At :: time
  mv_Tag :: string
  mv_Digest :: string
  mv_Run :: string

record era =
  era_Digest :: string
  era_From :: time
  era_Scans :: "scan list"

record point =
  pt_Digest :: string
  pt_Finished :: time
  pt_Database :: time
  pt_Counts :: "nat list"
  pt_Open :: nat
  pt_Suppressed :: nat
  pt_Short :: string
  pt_URL :: string

record band =
  band_Name :: string
  band_Class :: string

record segment =
  seg_Class :: string
  seg_Y :: rat
  seg_Height :: rat

record bar =
  bar_X :: rat
  bar_Width :: rat
  bar_Right :: rat
  bar_Segments :: "segment list"
  bar_Title :: string

record tick =
  tick_Value :: int
  tick_Y :: rat
  tick_Label :: string

record date_tick =
  dt_X :: rat
  dt_Label :: string

record chart =
  ch_Width :: rat
  ch_Height :: rat
  ch_Left :: rat
  ch_Right :: rat
  ch_Top :: rat
  ch_Baseline :: rat
  ch_PlotHeight :: rat
  ch_Bars :: "bar list"
  ch_Ticks :: "tick list"
  ch_Dates :: "date_tick list"
  ch_Bands :: "band list"

record history =
  h_Image :: string
  h_Digest :: string
  h_Tag :: string
  h_Arch :: string
  h_Architectures :: "string list"
  h_Logo :: string
  h_Topbar :: topbar
  h_Links :: links
  h_Points :: "point list"
  h_From :: time
  h_To :: time
  h_Builds :: nat
  h_Chart :: "chart option"
  h_Ledger :: bool

definition bands :: nat where "bands = 6"

definition bandNames :: "string list" where
  "bandNames = [''Critical'', ''High'', ''Medium'', ''Low'', ''Negligible'', ''Unknown'']"

definition bandClasses :: "string list" where
  "bandClasses = [''critical'', ''high'', ''medium'', ''low'', ''negligible'', ''unknown'']"

definition band_of :: "severity \<Rightarrow> nat" where
  "band_of s =
     (if s = Critical then 0 else if s = High then 1 else if s = Medium then 2
      else if s = Low then 3 else if s = Negligible then 4 else 5)"

definition shortDigest :: "string \<Rightarrow> string" where
  "shortDigest digest =
     (let d = (case cut_byte digest CHR '':'' of Some (_, hex) \<Rightarrow> hex | None \<Rightarrow> digest)
      in if 12 < length d then take 12 d else d)"

section \<open>The chart\<close>

definition chartWidth :: rat where "chartWidth = 720"
definition chartHeight :: rat where "chartHeight = 240"
definition chartLeft :: rat where "chartLeft = 36"
definition chartRight :: rat where "chartRight = 8"
definition chartTop :: rat where "chartTop = 12"
definition chartBottom :: rat where "chartBottom = 24"
definition maxBarWidth :: rat where "maxBarWidth = 24"
definition minBarWidth :: rat where "minBarWidth = 3"
definition surfaceGap :: rat where "surfaceGap = 2"
definition maxDateLabels :: int where "maxDateLabels = 8"

text \<open>\<open>ceil_div a b\<close> is \<open>math.Ceil\<close> of the quotient.\<close>

definition ceil_div :: "int \<Rightarrow> int \<Rightarrow> int" where
  "ceil_div a b = - ((- a) div b)"

text \<open>\<open>math.Pow(10, math.Floor(math.Log10(worst / 5)))\<close>: the largest power of ten not above \<open>worst / 5\<close>.\<close>

function magnitude :: "int \<Rightarrow> int \<Rightarrow> int" where
  "magnitude m worst = (if 0 < m \<and> 50 * m \<le> worst then magnitude (10 * m) worst else m)"
  by pat_completeness auto
termination
  by (relation "measure (\<lambda>(m, worst). nat (worst - m))") auto

declare magnitude.simps [simp del]

fun first_step :: "int \<Rightarrow> int \<Rightarrow> int list \<Rightarrow> int" where
  "first_step mag worst [] = 10 * mag"
| "first_step mag worst (u # us) =
     (if worst \<le> 5 * (u * mag) then u * mag else first_step mag worst us)"

definition niceStep :: "int \<Rightarrow> int" where
  "niceStep worst = (if worst < 5 then 1 else first_step (magnitude 1 worst) worst [1, 2, 5, 10])"

definition title :: "point \<Rightarrow> string" where
  "title p =
     (let parts = map (\<lambda>(i, n). itoa n @ '' '' @ to_lower (bandNames ! i))
                    (filter (\<lambda>(i, n). 0 < n) (enumerate 0 (pt_Counts p)))
      in format_date (pt_Finished p) @ '': '' @
         (if pt_Open p = 0 then ''no findings''
          else if pt_Open p = 1 then ''1 finding ('' @ join '', '' parts @ '')''
          else itoa (pt_Open p) @ '' findings ('' @ join '', '' parts @ '')'') @
         (if 0 < pt_Suppressed p then '', '' @ itoa (pt_Suppressed p) @ '' set aside'' else ''''))"

text \<open>\<open>time.Time.Sub\<close>.\<close>

definition Sub :: "time \<Rightarrow> time \<Rightarrow> int" where
  "Sub a b = max (- (2 ^ 63)) (min (2 ^ 63 - 1) (a - b))"

text \<open>The stack of one bar, from the least band up.\<close>

fun stack :: "rat \<Rightarrow> nat list \<Rightarrow> nat list \<Rightarrow> rat \<Rightarrow> segment list \<Rightarrow> segment list" where
  "stack scl counts [] y segs = segs"
| "stack scl counts (i # is) y segs =
     (let count = counts ! i
      in if count = 0 then stack scl counts is y segs
         else let height = of_nat count * scl;
                  gap = (if segs \<noteq> [] \<and> height > 2 * surfaceGap then surfaceGap else 0)
              in stack scl counts is (y - height)
                   (segs @ [\<lparr>seg_Class = bandClasses ! i, seg_Y = y - height + gap, seg_Height = height - gap\<rparr>]))"

definition bar_x :: "rat \<Rightarrow> rat \<Rightarrow> time \<Rightarrow> int \<Rightarrow> time \<Rightarrow> rat" where
  "bar_x width plotWidth first spn t =
     (if spn = 0 then chartLeft + plotWidth / 2
      else chartLeft + width / 2 + of_int (Sub t first) / of_int spn * (plotWidth - width))"

definition draw :: "point list \<Rightarrow> chart option" where
  "draw points =
     (if points = [] then None
      else let
        right = chartWidth - chartRight; baseline = chartHeight - chartBottom;
        plotWidth = right - chartLeft; plotHeight = baseline - chartTop;
        worst = fold (\<lambda>p w. max w (int (pt_Open p))) points 0;
        step = niceStep worst;
        tp = max step (ceil_div worst step * step);
        scl = plotHeight / of_int tp;
        ticks = map (\<lambda>k. let value = int k * step in
                   \<lparr>tick_Value = value, tick_Y = baseline - of_int value * scl, tick_Label = itoa (nat value)\<rparr>)
                 [0..<nat (tp div step) + 1];
        first = pt_Finished (hd points);
        spn = Sub (pt_Finished (last points)) first;
        days = ceil_div spn nanos_per_day + 1;
        width = min maxBarWidth (max minBarWidth (plotWidth / of_int days * (6 / 10)));
        x = bar_x width plotWidth first spn;
        bars = map (\<lambda>p. \<lparr>bar_X = x (pt_Finished p) - width / 2, bar_Width = width,
                  bar_Right = x (pt_Finished p) + width / 2,
                  bar_Segments = stack scl (pt_Counts p) (rev [0..<bands]) baseline [],
                  bar_Title = title p\<rparr>) points;
        every = max 1 (ceil_div days maxDateLabels);
        dates = map (\<lambda>k. let date = first + int k * every * nanos_per_day in
                   \<lparr>dt_X = x date, dt_Label = format_day_month date\<rparr>)
                 [0..<nat (ceil_div days every)]
      in Some \<lparr>ch_Width = chartWidth, ch_Height = chartHeight, ch_Left = chartLeft, ch_Right = right,
           ch_Top = chartTop, ch_Baseline = baseline, ch_PlotHeight = chartHeight - chartBottom - chartTop,
           ch_Bars = bars, ch_Ticks = ticks, ch_Dates = dates,
           ch_Bands = map (\<lambda>i. \<lparr>band_Name = bandNames ! i, band_Class = bandClasses ! i\<rparr>) [0..<bands]\<rparr>)"

section \<open>The history\<close>

definition compareEra :: "era \<Rightarrow> era \<Rightarrow> int" where
  "compareEra a b =
     (if IsZero (era_From a) \<and> IsZero (era_From b) then 0
      else if IsZero (era_From a) then 1
      else if IsZero (era_From b) then -1
      else cmp_compare (era_From a) (era_From b))"

definition findingsOf :: "scan list \<Rightarrow> finding list" where
  "findingsOf scans = concat (map s_Findings scans)"

definition count_bands :: "severity_count list \<Rightarrow> nat list" where
  "count_bands cs =
     foldl (\<lambda>ns c. ns[band_of (sc_Severity c) := ns ! band_of (sc_Severity c) + sc_Count c])
       (replicate bands 0) cs"

definition scan_point :: "string \<Rightarrow> string \<Rightarrow> string \<Rightarrow> scan \<Rightarrow> point" where
  "scan_point img digest arch scn =
     (let report = NewReport img digest arch scn
      in \<lparr>pt_Digest = digest, pt_Finished = s_Finished scn, pt_Database = s_Database scn,
          pt_Counts = count_bands (r_Summary report), pt_Open = r_Open report,
          pt_Suppressed = r_Suppressed report, pt_Short = shortDigest digest, pt_URL = ''''\<rparr>)"

text \<open>The loop over the eras; \<open>until\<close> is where the next era begins, zero for the last.\<close>

fun eraPoints :: "string \<Rightarrow> string \<Rightarrow> era list \<Rightarrow> point list" where
  "eraPoints img arch [] = []"
| "eraPoints img arch (e # es) =
     (let until = (case es of [] \<Rightarrow> 0 | e' # _ \<Rightarrow> era_From e')
      in map (scan_point img (era_Digest e) arch)
           (filter (\<lambda>scn. \<not> (\<not> IsZero until \<and> \<not> s_Finished scn < until)) (era_Scans e)))
     @ eraPoints img arch es"

definition NewHistory :: "string \<Rightarrow> string \<Rightarrow> string \<Rightarrow> era list \<Rightarrow> history" where
  "NewHistory img digest arch eras0 =
     (let eras = sort_stable compareEra eras0;
          scans = concat (map era_Scans eras);
          available = architectures (findingsOf scans) f_Arch;
          arch = resolveArch arch available;
          unsorted = eraPoints img arch eras;
          points = sort_stable (\<lambda>a b. cmp_compare (pt_Finished a) (pt_Finished b)) unsorted
      in \<lparr>h_Image = img, h_Digest = digest, h_Tag = '''', h_Arch = arch, h_Architectures = available,
          h_Logo = '''', h_Topbar = no_topbar, h_Links = no_links, h_Points = points,
          h_From = (if points \<noteq> [] then pt_Finished (hd points) else 0),
          h_To = (if points \<noteq> [] then pt_Finished (last points) else 0),
          h_Builds = length (remdups (map pt_Digest unsorted)),
          h_Chart = draw points, h_Ledger = False\<rparr>)"

text \<open>\<open>%v\<close> of an array of counts.\<close>

definition format_counts :: "nat list \<Rightarrow> string" where
  "format_counts ns = ''['' @ join '' '' (map itoa ns) @ '']''"

definition history_Fingerprint :: "history \<Rightarrow> string" where
  "history_Fingerprint h =
     take 16 (hex_encode (sha256 (concat (map (\<lambda>p.
       pt_Digest p @ unit_sep @ format_RFC3339Nano (pt_Finished p) @ unit_sep
       @ format_counts (pt_Counts p) @ unit_sep @ itoa (pt_Suppressed p) @ newline) (h_Points h)))))"

section \<open>The value axis\<close>

lemma magnitude_bounds:
  "0 < m \<Longrightarrow> 5 * m \<le> worst \<Longrightarrow>
    5 * magnitude m worst \<le> worst \<and> worst < 50 * magnitude m worst \<and> 0 < magnitude m worst"
proof (induction m worst rule: magnitude.induct)
  case (1 m worst)
  show ?case
  proof (cases "50 * m \<le> worst")
    case True
    with 1 show ?thesis by (simp add: magnitude.simps [of m worst])
  next
    case False
    with 1 show ?thesis by (simp add: magnitude.simps [of m worst])
  qed
qed

lemma niceStep_bounds: "0 < niceStep w \<and> w \<le> 5 * niceStep w"
proof (cases "w < 5")
  case False
  then have "5 * magnitude 1 w \<le> w \<and> w < 50 * magnitude 1 w \<and> 0 < magnitude 1 w"
    by (intro magnitude_bounds) auto
  with False show ?thesis by (simp add: niceStep_def)
qed (simp add: niceStep_def)

text \<open>
  Where \<open>worst / 5\<close> is a power of ten, a logarithm that comes out just below the integer
  chooses the power before; the step is the same.
\<close>

lemma niceStep_robust:
  assumes "0 < m"
  shows "first_step m (5 * (10 * m)) [1, 2, 5, 10] = first_step (10 * m) (5 * (10 * m)) [1, 2, 5, 10]"
  using assms by simp

lemma ceil_div_bounds:
  assumes "0 < b"
  shows "a \<le> ceil_div a b * b"
proof -
  have "(- a) div b * b + (- a) mod b = - a" by simp
  moreover have "0 \<le> (- a) mod b" using assms by simp
  ultimately have "(- a) div b * b \<le> - a" by linarith
  then show ?thesis by (simp add: ceil_div_def)
qed

section \<open>Bars\<close>

definition in_plot :: "segment \<Rightarrow> bool" where
  "in_plot s \<longleftrightarrow> chartTop \<le> seg_Y s \<and> 0 < seg_Height s \<and> seg_Y s + seg_Height s \<le> chartHeight - chartBottom"

lemma stack_in_plot:
  assumes "0 < scl" "y \<le> chartHeight - chartBottom"
    and "chartTop \<le> y - of_nat (\<Sum>i\<leftarrow>is. counts ! i) * scl"
    and "list_all in_plot segs"
  shows "list_all in_plot (stack scl counts is y segs)"
  using assms(2-)
proof (induction "is" arbitrary: y segs)
  case (Cons i "is")
  show ?case
  proof (cases "counts ! i = 0")
    case True
    with Cons show ?thesis by (simp add: Let_def)
  next
    case False
    define height where "height = of_nat (counts ! i) * scl"
    define gap where "gap = (if segs \<noteq> [] \<and> height > 2 * surfaceGap then surfaceGap else 0)"
    have h: "0 < height" using False assms(1) by (simp add: height_def)
    have g: "0 \<le> gap" "gap < height" using h by (auto simp: gap_def surfaceGap_def)
    have rest: "0 \<le> of_nat (\<Sum>i\<leftarrow>is. counts ! i) * scl" using assms(1) by simp
    have y: "chartTop \<le> y - height - of_nat (\<Sum>i\<leftarrow>is. counts ! i) * scl"
      using Cons.prems(2) by (simp add: height_def algebra_simps)
    have "in_plot \<lparr>seg_Class = bandClasses ! i, seg_Y = y - height + gap, seg_Height = height - gap\<rparr>"
      using y rest g Cons.prems(1) by (simp add: in_plot_def)
    then have "list_all in_plot (stack scl counts is (y - height)
        (segs @ [\<lparr>seg_Class = bandClasses ! i, seg_Y = y - height + gap, seg_Height = height - gap\<rparr>]))"
      using Cons.prems(1,3) y h by (intro Cons.IH) auto
    then show ?thesis using False by (simp add: Let_def height_def gap_def)
  qed
qed simp

lemma sum_rev_index:
  "length counts = n \<Longrightarrow> (\<Sum>i\<leftarrow>rev [0..<n]. counts ! i) = sum_list (counts :: nat list)"
proof -
  assume n: "length counts = n"
  have "(\<Sum>i\<leftarrow>rev [0..<n]. counts ! i) = sum_list (rev (map ((!) counts) [0..<n]))"
    by (simp only: rev_map)
  also have "\<dots> = sum_list (map ((!) counts) [0..<n])"
    by (simp only: sum_mset_sum_list [symmetric] mset_rev)
  also have "map ((!) counts) [0..<n] = counts" using map_nth [of counts] n by simp
  finally show ?thesis .
qed

lemma fold_max_open: "w \<le> fold (\<lambda>p w. max w (int (pt_Open p))) ps w \<and>
   (\<forall>p \<in> set ps. int (pt_Open p) \<le> fold (\<lambda>p w. max w (int (pt_Open p))) ps w)"
proof (induction ps arbitrary: w)
  case (Cons p ps)
  have "max w (int (pt_Open p)) \<le> fold (\<lambda>p w. max w (int (pt_Open p))) ps (max w (int (pt_Open p)))"
    "\<forall>q \<in> set ps. int (pt_Open q) \<le> fold (\<lambda>p w. max w (int (pt_Open p))) ps (max w (int (pt_Open p)))"
    using Cons by blast+
  then show ?case by simp
qed simp

lemma bar_x_range:
  assumes "first \<le> t" "t \<le> lst" "0 \<le> w" "w \<le> pw"
  shows "chartLeft \<le> bar_x w pw first (Sub lst first) t - w / 2 \<and>
    bar_x w pw first (Sub lst first) t + w / 2 \<le> chartLeft + pw"
proof (cases "Sub lst first = 0")
  case True
  then show ?thesis using assms by (simp add: bar_x_def field_simps)
next
  case False
  have s: "0 \<le> Sub t first" "Sub t first \<le> Sub lst first" using assms by (auto simp: Sub_def)
  define q where "q = (of_int (Sub t first) / of_int (Sub lst first) :: rat)"
  have "0 \<le> q" "q \<le> 1" using s False by (simp_all add: q_def divide_le_eq)
  then have "0 \<le> q * (pw - w)" "q * (pw - w) \<le> 1 * (pw - w)"
    using assms by (simp, intro mult_right_mono) auto
  then show ?thesis using False by (simp add: bar_x_def q_def [symmetric] field_simps)
qed

section \<open>Counts\<close>

lemma band_of_less: "band_of s < bands"
  by (simp add: band_of_def bands_def)

lemma sum_list_bump: "i < length ns \<Longrightarrow> sum_list (ns[i := ns ! i + k]) = sum_list ns + (k::nat)"
  by (induction ns arbitrary: i) (auto simp: less_Suc_eq_0_disj split: nat.splits)

lemma count_bands_sum:
  "length (count_bands cs) = bands \<and> sum_list (count_bands cs) = sum_list (map sc_Count cs)"
proof (induction cs rule: rev_induct)
  case Nil
  then show ?case by (simp add: count_bands_def)
next
  case (snoc c cs)
  have step: "count_bands (cs @ [c])
      = (count_bands cs)[band_of (sc_Severity c) := count_bands cs ! band_of (sc_Severity c) + sc_Count c]"
    by (simp add: count_bands_def)
  show ?case unfolding step using snoc band_of_less by (simp add: sum_list_bump)
qed

section \<open>The chart stays in the plot\<close>

lemma draw_None: "draw points = None \<longleftrightarrow> points = []"
proof (cases "points = []")
  case False
  then show ?thesis unfolding draw_def Let_def by (simp only: if_False option.distinct)
qed (simp add: draw_def)

definition chart_ok :: "chart \<Rightarrow> bool" where
  "chart_ok c \<longleftrightarrow> list_all (\<lambda>b. list_all in_plot (bar_Segments b) \<and>
     ch_Left c \<le> bar_X b \<and> bar_Right b \<le> ch_Right c) (ch_Bars c)"

lemma draw_ok:
  assumes "draw points = Some c" "sorted (map pt_Finished points)"
    and "\<forall>p \<in> set points. length (pt_Counts p) = bands \<and> sum_list (pt_Counts p) = pt_Open p"
  shows "chart_ok c \<and> length (ch_Bars c) = length points"
proof -
  have ne: "points \<noteq> []" using assms(1) by (auto simp: draw_def)
  define worst where "worst = fold (\<lambda>p w. max w (int (pt_Open p))) points 0"
  define step where "step = niceStep worst"
  define tp where "tp = max step (ceil_div worst step * step)"
  define scl where "scl = (chartHeight - chartBottom - chartTop) / (of_int tp :: rat)"
  define first where "first = pt_Finished (hd points)"
  define spn where "spn = Sub (pt_Finished (last points)) first"
  define pw where "pw = chartWidth - chartRight - chartLeft"
  define width where "width = min maxBarWidth
    (max minBarWidth (pw / of_int (ceil_div spn nanos_per_day + 1) * (6 / 10)))"
  let ?bar = "\<lambda>p. \<lparr>bar_X = bar_x width pw first spn (pt_Finished p) - width / 2, bar_Width = width,
      bar_Right = bar_x width pw first spn (pt_Finished p) + width / 2,
      bar_Segments = stack scl (pt_Counts p) (rev [0..<bands]) (chartHeight - chartBottom) [],
      bar_Title = title p\<rparr>"
  have c: "ch_Bars c = map ?bar points" "ch_Left c = chartLeft" "ch_Right c = chartWidth - chartRight"
  proof -
    from assms(1) ne have "c = the (draw points)" by simp
    also have "\<dots> = the (draw points)\<lparr>ch_Bars := map ?bar points, ch_Left := chartLeft, ch_Right := chartWidth - chartRight\<rparr>"
      unfolding draw_def Let_def worst_def [symmetric] using ne
      by (simp only: if_False option.sel chart.update_convs step_def tp_def scl_def first_def spn_def pw_def width_def)
    finally have e: "c = the (draw points)\<lparr>ch_Bars := map ?bar points, ch_Left := chartLeft,
        ch_Right := chartWidth - chartRight\<rparr>" .
    show "ch_Bars c = map ?bar points" by (subst e) simp
    show "ch_Left c = chartLeft" by (subst e) simp
    show "ch_Right c = chartWidth - chartRight" by (subst e) simp
  qed
  have step: "0 < step" unfolding step_def using niceStep_bounds by blast
  then have tp: "0 < tp" "worst \<le> tp" using ceil_div_bounds [OF step, of worst] by (auto simp: tp_def)
  have scl: "0 < scl" using tp by (simp add: scl_def chartHeight_def chartBottom_def chartTop_def)
  have w: "0 \<le> width" "width \<le> pw"
    by (auto simp: width_def pw_def maxBarWidth_def minBarWidth_def chartWidth_def chartRight_def chartLeft_def)
  have "list_all in_plot (bar_Segments (?bar p)) \<and> ch_Left c \<le> bar_X (?bar p) \<and> bar_Right (?bar p) \<le> ch_Right c"
    if p: "p \<in> set points" for p
  proof
    have "int (pt_Open p) \<le> tp" using fold_max_open [of 0 points] p tp(2) unfolding worst_def by fastforce
    then have "of_nat (pt_Open p) \<le> (of_int tp :: rat)" by (metis of_int_le_iff of_int_of_nat_eq)
    then have "of_nat (pt_Open p) * scl \<le> of_int tp * scl" using scl by (intro mult_right_mono) auto
    also have "\<dots> = chartHeight - chartBottom - chartTop" using tp(1) by (simp add: scl_def)
    finally have "of_nat (\<Sum>i\<leftarrow>rev [0..<bands]. pt_Counts p ! i) * scl \<le> chartHeight - chartBottom - chartTop"
      using assms(3) p sum_rev_index [of "pt_Counts p" bands] by simp
    then show "list_all in_plot (bar_Segments (?bar p))"
      using scl by (simp, intro stack_in_plot) auto
    have "first \<le> pt_Finished p" "pt_Finished p \<le> pt_Finished (last points)"
      using assms(2) p ne unfolding first_def
      by (auto simp: in_set_conv_nth hd_conv_nth last_conv_nth sorted_iff_nth_mono)
    from bar_x_range [OF this w] show "ch_Left c \<le> bar_X (?bar p) \<and> bar_Right (?bar p) \<le> ch_Right c"
      unfolding c spn_def by (simp add: pw_def)
  qed
  then show ?thesis unfolding chart_ok_def c by (simp add: list_all_iff)
qed

section \<open>Points\<close>

lemma scan_point_counts:
  "length (pt_Counts (scan_point img d arch s)) = bands \<and>
   sum_list (pt_Counts (scan_point img d arch s)) = pt_Open (scan_point img d arch s)"
  using count_bands_sum [of "r_Summary (NewReport img d arch s)"] NewReport_open_sum [of img d arch s]
  by (simp add: scan_point_def Let_def)

lemma eraPoints_counts:
  "p \<in> set (eraPoints img arch eras) \<Longrightarrow>
    length (pt_Counts p) = bands \<and> sum_list (pt_Counts p) = pt_Open p"
  using scan_point_counts by (induction img arch eras rule: eraPoints.induct) (auto simp: Let_def)

interpretation era_order: three_way compareEra "\<lambda>_. True"
  by unfold_locales (auto simp: compareEra_def IsZero_def cmp_compare_def split: if_splits)

interpretation time_order: three_way "\<lambda>a b. cmp_compare (pt_Finished a) (pt_Finished b)" "\<lambda>_. True"
  by (rule three_way_key)

section \<open>Which scans become points\<close>

definition era_before :: "era \<Rightarrow> era \<Rightarrow> bool" where
  "era_before e e' \<longleftrightarrow> \<not> IsZero (era_From e) \<and> \<not> IsZero (era_From e') \<and> era_From e < era_From e'"

lemma compareEra_le:
  "compareEra a b \<le> 0 \<longleftrightarrow> IsZero (era_From b) \<or> (\<not> IsZero (era_From a) \<and> era_From a \<le> era_From b)"
  by (auto simp: compareEra_def)

lemma eraPoints_cut:
  assumes "sorted_wrt (\<lambda>a b. compareEra a b \<le> 0) es" "distinct (map era_From es)"
  shows "(d, t) \<in> (\<lambda>p. (pt_Digest p, pt_Finished p)) ` set (eraPoints img arch es) \<longleftrightarrow>
    (\<exists>e \<in> set es. \<exists>s \<in> set (era_Scans e). era_Digest e = d \<and> s_Finished s = t \<and>
       (\<forall>e' \<in> set es. era_before e e' \<longrightarrow> t < era_From e'))"
  using assms
proof (induction es)
  case (Cons e es)
  define til where "til = (case es of [] \<Rightarrow> 0 | e' # _ \<Rightarrow> era_From e')"
  have sorted: "\<And>e'. e' \<in> set es \<Longrightarrow> IsZero (era_From e') \<or> (\<not> IsZero (era_From e) \<and> era_From e < era_From e')"
    using Cons.prems by (fastforce simp: compareEra_le)
  have first: "(\<forall>e' \<in> set (e # es). era_before e e' \<longrightarrow> u < era_From e') \<longleftrightarrow> IsZero til \<or> u < til" for u
  proof (cases es)
    case Nil
    then show ?thesis by (simp add: til_def IsZero_def era_before_def)
  next
    case (Cons e1 es1)
    have e1: "\<And>e'. e' \<in> set es1 \<Longrightarrow> IsZero (era_From e') \<or> (\<not> IsZero (era_From e1) \<and> era_From e1 \<le> era_From e')"
      using Cons.prems(1) Cons by (auto simp: compareEra_le)
    have til: "til = era_From e1" by (simp add: til_def Cons)
    show ?thesis
    proof
      assume all: "\<forall>e' \<in> set (e # es). era_before e e' \<longrightarrow> u < era_From e'"
      show "IsZero til \<or> u < til"
        using all sorted [of e1] unfolding til by (auto simp: Cons era_before_def)
    next
      assume "IsZero til \<or> u < til"
      then show "\<forall>e' \<in> set (e # es). era_before e e' \<longrightarrow> u < era_From e'"
        using e1 unfolding til by (fastforce simp: Cons era_before_def)
    qed
  qed
  have later: "(\<forall>e'' \<in> set (e # es). era_before e' e'' \<longrightarrow> u < era_From e'')
      \<longleftrightarrow> (\<forall>e'' \<in> set es. era_before e' e'' \<longrightarrow> u < era_From e'')" if "e' \<in> set es" for e' u
    using sorted [OF that] by (auto simp: era_before_def IsZero_def)
  have ih: "(d, t) \<in> (\<lambda>p. (pt_Digest p, pt_Finished p)) ` set (eraPoints img arch es) \<longleftrightarrow>
    (\<exists>e \<in> set es. \<exists>s \<in> set (era_Scans e). era_Digest e = d \<and> s_Finished s = t \<and>
       (\<forall>e' \<in> set es. era_before e e' \<longrightarrow> t < era_From e'))"
    using Cons by simp
  have "(d, t) \<in> (\<lambda>p. (pt_Digest p, pt_Finished p)) ` set (eraPoints img arch (e # es)) \<longleftrightarrow>
      (\<exists>s \<in> set (era_Scans e). era_Digest e = d \<and> s_Finished s = t \<and> (IsZero til \<or> t < til)) \<or>
      (d, t) \<in> (\<lambda>p. (pt_Digest p, pt_Finished p)) ` set (eraPoints img arch es)"
    by (auto simp: Let_def til_def [symmetric] scan_point_def image_Un image_image image_iff)
  then show ?case unfolding ih using first [of t] later by auto
qed simp

lemma NewHistory_fields:
  "\<exists>ps. h_Points (NewHistory img digest arch eras)
      = sort_stable (\<lambda>a b. cmp_compare (pt_Finished a) (pt_Finished b)) ps \<and>
    h_Builds (NewHistory img digest arch eras) = length (remdups (map pt_Digest ps)) \<and>
    ps = eraPoints img (h_Arch (NewHistory img digest arch eras)) (sort_stable compareEra eras) \<and>
    h_Chart (NewHistory img digest arch eras) = draw (h_Points (NewHistory img digest arch eras))"
  by (simp add: NewHistory_def Let_def)

lemma NewHistory_sorted: "sorted (map pt_Finished (h_Points (NewHistory img digest arch eras)))"
proof -
  obtain ps where ps: "h_Points (NewHistory img digest arch eras)
      = sort_stable (\<lambda>a b. cmp_compare (pt_Finished a) (pt_Finished b)) ps"
    using NewHistory_fields [of img digest arch eras] by blast
  show ?thesis using time_order.sort_sorted [of ps] unfolding ps by (simp add: sorted_map)
qed

lemma sorted_ends:
  assumes "sorted (map f xs)" "x \<in> set xs"
  shows "f (hd xs) \<le> f x \<and> f x \<le> f (last xs)"
proof -
  obtain i where i: "i < length xs" "x = xs ! i" using assms(2) by (auto simp: in_set_conv_nth)
  then have "xs \<noteq> []" by auto
  moreover have "map f xs ! 0 \<le> map f xs ! i" "map f xs ! i \<le> map f xs ! (length xs - 1)"
    using assms(1) i by (auto intro!: sorted_nth_mono simp del: nth_map)
  ultimately show ?thesis using i by (simp add: hd_conv_nth last_conv_nth)
qed

definition sample_scan :: "time \<Rightarrow> scan" where
  "sample_scan t = \<lparr>s_Scanner = '''', s_ScannerURL = '''', s_Database = 0, s_Finished = t, s_Findings = []\<rparr>"

section \<open>What the history page promises\<close>

text \<open>
  The points of a history are in the order their scans finished, the page's span is the
  first to the last, the counts of a point add up to its open findings, and Builds counts the
  distinct builds the points are of.
\<close>

theorem NewHistory_points:
  "let H = NewHistory img digest arch eras in
    sorted (map pt_Finished (h_Points H)) \<and>
    list_all (\<lambda>p. h_From H \<le> pt_Finished p \<and> pt_Finished p \<le> h_To H) (h_Points H) \<and>
    list_all (\<lambda>p. sum_list (pt_Counts p) = pt_Open p) (h_Points H) \<and>
    h_Builds H = card (pt_Digest ` set (h_Points H))"
proof -
  define H where "H = NewHistory img digest arch eras"
  obtain ps where ps: "h_Points H = sort_stable (\<lambda>a b. cmp_compare (pt_Finished a) (pt_Finished b)) ps"
    "h_Builds H = length (remdups (map pt_Digest ps))"
    "ps = eraPoints img (h_Arch H) (sort_stable compareEra eras)"
    using NewHistory_fields [of img digest arch eras] unfolding H_def by blast
  have sorted: "sorted (map pt_Finished (h_Points H))"
    unfolding H_def by (rule NewHistory_sorted)
  have "h_From H = pt_Finished (hd (h_Points H))" "h_To H = pt_Finished (last (h_Points H))" if "h_Points H \<noteq> []"
    using that by (simp_all add: H_def NewHistory_def Let_def)
  then have "h_From H \<le> pt_Finished p \<and> pt_Finished p \<le> h_To H" if "p \<in> set (h_Points H)" for p
    using that sorted_ends [OF sorted that] by fastforce
  moreover have "sum_list (pt_Counts p) = pt_Open p" if "p \<in> set (h_Points H)" for p
    using that eraPoints_counts unfolding ps(1,3) by simp
  ultimately show ?thesis
    using sorted ps(1,2) unfolding H_def [symmetric] Let_def
    by (simp add: list_all_iff length_remdups_card_conv)
qed

text \<open>
  A scan is a point of the history iff it is a scan of one of the eras and finished before
  every era that began after that one.
\<close>

theorem NewHistory_cut:
  assumes "distinct (map era_From eras)"
  shows "(d, t) \<in> (\<lambda>p. (pt_Digest p, pt_Finished p)) ` set (h_Points (NewHistory img digest arch eras)) \<longleftrightarrow>
    (\<exists>e \<in> set eras. \<exists>s \<in> set (era_Scans e). era_Digest e = d \<and> s_Finished s = t \<and>
       (\<forall>e' \<in> set eras. era_before e e' \<longrightarrow> t < era_From e'))"
proof -
  let ?es = "sort_stable compareEra eras"
  obtain ps where ps: "h_Points (NewHistory img digest arch eras)
      = sort_stable (\<lambda>a b. cmp_compare (pt_Finished a) (pt_Finished b)) ps"
    "ps = eraPoints img (h_Arch (NewHistory img digest arch eras)) ?es"
    using NewHistory_fields [of img digest arch eras] by blast
  have "mset (map era_From ?es) = mset (map era_From eras)" by (simp only: mset_map mset_sort_stable)
  then have "distinct (map era_From ?es)" using assms mset_eq_imp_distinct_iff by blast
  from eraPoints_cut [OF era_order.sort_sorted this] show ?thesis
    unfolding ps by simp
qed

theorem NewHistory_cut_witness:
  "(''A'', 2) \<in> (\<lambda>p. (pt_Digest p, pt_Finished p)) ` set (h_Points (NewHistory '''' '''' ''''
     [\<lparr>era_Digest = ''A'', era_From = 1, era_Scans = [sample_scan 2, sample_scan 10]\<rparr>,
      \<lparr>era_Digest = ''B'', era_From = 5, era_Scans = [sample_scan 6]\<rparr>]))"
  by (subst NewHistory_cut) (simp_all add: sample_scan_def era_before_def IsZero_def)


text \<open>
  An era has no beginning for its scans: a build the tag returned to has its early scans twice,
  and those made while another build had the tag once more.
\<close>

theorem NewHistory_repeats_scans:
  "map (\<lambda>p. (pt_Digest p, pt_Finished p)) (h_Points (NewHistory '''' '''' ''''
     [\<lparr>era_Digest = ''A'', era_From = 1, era_Scans = [sample_scan 2, sample_scan 7, sample_scan 10]\<rparr>,
      \<lparr>era_Digest = ''B'', era_From = 5, era_Scans = [sample_scan 6]\<rparr>,
      \<lparr>era_Digest = ''A'', era_From = 9, era_Scans = [sample_scan 2, sample_scan 7, sample_scan 10]\<rparr>]))
   = [(''A'', 2), (''A'', 2), (''B'', 6), (''A'', 7), (''A'', 10)]"
  by code_simp

end
