(* ===== verification/Go_Url.thy ===== *)
theory Go_Url
  imports Go_Prelude
begin

text \<open>
  Package \<open>net/url\<close> as far as the pages use it: escaping one path segment or query component,
  the inverse, and reading one key of a query string. The lemmas give the round trip and that
  an escaped segment holds no byte that would end it.
\<close>

section \<open>Escaping\<close>

definition unreserved :: "char \<Rightarrow> bool" where
  "unreserved c \<longleftrightarrow> isDigit c \<or> isLetter c \<or> c \<in> set ''-_.~''"

definition upper_hex :: "nat \<Rightarrow> char" where
  "upper_hex d = (if d < 10 then char_of (48 + d) else char_of (55 + d))"

definition percent :: "char \<Rightarrow> string" where
  "percent c = [CHR ''%'', upper_hex (nat (byte c) div 16), upper_hex (nat (byte c) mod 16)]"

definition PathEscape :: "string \<Rightarrow> string" where
  "PathEscape s = concat (map (\<lambda>c. if unreserved c \<or> c \<in> set ''$&+:=@'' then [c] else percent c) s)"

definition QueryEscape :: "string \<Rightarrow> string" where
  "QueryEscape s =
     concat (map (\<lambda>c. if unreserved c then [c] else if c = CHR '' '' then ''+'' else percent c) s)"

definition hex_value :: "char \<Rightarrow> nat option" where
  "hex_value c =
     (if isDigit c then Some (nat (byte c) - 48)
      else if 97 \<le> byte c \<and> byte c \<le> 102 then Some (nat (byte c) - 87)
      else if 65 \<le> byte c \<and> byte c \<le> 70 then Some (nat (byte c) - 55)
      else None)"

text \<open>Unescaping; \<open>sp\<close> says whether a plus sign stands for a space. \<open>None\<close> is the error.\<close>

fun unescape :: "bool \<Rightarrow> string \<Rightarrow> string option" where
  "unescape sp [] = Some []"
| "unescape sp (c # s) =
     (if c = CHR ''%'' then
        (case s of
           a # b # s' \<Rightarrow>
             (case (hex_value a, hex_value b) of
                (Some x, Some y) \<Rightarrow> map_option (\<lambda>r. char_of (16 * x + y) # r) (unescape sp s')
              | _ \<Rightarrow> None)
         | _ \<Rightarrow> None)
      else map_option (\<lambda>r. (if sp \<and> c = CHR ''+'' then CHR '' '' else c) # r) (unescape sp s))"

definition QueryUnescape :: "string \<Rightarrow> string option" where
  "QueryUnescape = unescape True"

definition PathUnescape :: "string \<Rightarrow> string option" where
  "PathUnescape = unescape False"

text \<open>
  \<open>url.Values\<close> of a raw query, in order, as \<open>URL.Query\<close> reads it: a part with a semicolon or a
  bad escape is dropped.
\<close>

definition query_pair :: "string \<Rightarrow> (string \<times> string) option" where
  "query_pair part =
     (if part = '''' \<or> CHR '';'' \<in> set part then None
      else let (k, v) = (case cut_byte part CHR ''='' of Some kv \<Rightarrow> kv | None \<Rightarrow> (part, ''''))
           in (case (QueryUnescape k, QueryUnescape v) of
                 (Some k', Some v') \<Rightarrow> Some (k', v')
               | _ \<Rightarrow> None))"

definition parse_query :: "string \<Rightarrow> (string \<times> string) list" where
  "parse_query q = List.map_filter query_pair (split_byte q CHR ''&'')"

definition query_get :: "string \<Rightarrow> string \<Rightarrow> string" where
  "query_get q k = (case map_of (parse_query q) k of Some v \<Rightarrow> v | None \<Rightarrow> '''')"

section \<open>Round trips\<close>

lemma hex_value_upper: "d < 16 \<Longrightarrow> hex_value (upper_hex d) = Some d"
proof -
  assume d: "d < 16"
  then have "byte (upper_hex d) = (if d < 10 then 48 + int d else 55 + int d)"
    by (simp add: upper_hex_def byte_char_of)
  with d show ?thesis by (auto simp: hex_value_def isDigit_def)
qed

lemma char_of_byte: "char_of (nat (byte c)) = c"
proof -
  have "nat (byte c) = of_char c" by (metis byte_def nat_int of_nat_of_char)
  then show ?thesis by simp
qed

lemma unescape_percent: "unescape sp (percent c @ s) = map_option (\<lambda>r. c # r) (unescape sp s)"
proof -
  have "nat (byte c) < 256" using byte_bounds [of c] by simp
  then have d: "nat (byte c) div 16 < 16" "nat (byte c) mod 16 < 16" by auto
  have "16 * (nat (byte c) div 16) + nat (byte c) mod 16 = nat (byte c)" by simp
  then show ?thesis
    using hex_value_upper [OF d(1)] hex_value_upper [OF d(2)] char_of_byte [of c]
    by (simp add: percent_def)
qed

lemma not_unreserved: "\<not> unreserved (CHR ''%'')" "\<not> unreserved (CHR ''+'')" "\<not> unreserved (CHR '' '')"
    "\<not> unreserved (CHR ''/'')" "\<not> unreserved (CHR ''?'')" "\<not> unreserved (CHR ''&'')"
    "\<not> unreserved (CHR ''='')" "\<not> unreserved (CHR '';'')" "\<not> unreserved (CHR ''#'')"
    "\<not> unreserved (CHR 0x22)" "\<not> unreserved (CHR ''<'')"
  by (simp_all add: unreserved_def isDigit_def isLetter_def byte_def)

lemma PathUnescape_PathEscape: "PathUnescape (PathEscape s) = Some s"
proof (induction s)
  case Nil
  then show ?case by (simp add: PathUnescape_def PathEscape_def)
next
  case (Cons c s)
  have "unescape False ((if unreserved c \<or> c \<in> set ''$&+:=@'' then [c] else percent c) @ PathEscape s)
      = map_option (\<lambda>r. c # r) (unescape False (PathEscape s))"
    using not_unreserved by (auto simp: unescape_percent)
  with Cons show ?case by (simp add: PathUnescape_def) (simp add: PathEscape_def)
qed

lemma QueryUnescape_QueryEscape: "QueryUnescape (QueryEscape s) = Some s"
proof (induction s)
  case Nil
  then show ?case by (simp add: QueryUnescape_def QueryEscape_def)
next
  case (Cons c s)
  have "unescape True ((if unreserved c then [c] else if c = CHR '' '' then ''+'' else percent c) @ QueryEscape s)
      = map_option (\<lambda>r. c # r) (unescape True (QueryEscape s))"
    using not_unreserved by (auto simp: unescape_percent)
  with Cons show ?case by (simp add: QueryUnescape_def) (simp add: QueryEscape_def)
qed

interpretation path_escape: round_trip PathEscape PathUnescape "\<lambda>_. True"
  by unfold_locales (rule PathUnescape_PathEscape)

interpretation query_escape: round_trip QueryEscape QueryUnescape "\<lambda>_. True"
  by unfold_locales (rule QueryUnescape_QueryEscape)

lemma upper_hex_safe: "d < 16 \<Longrightarrow> unreserved (upper_hex d)"
proof -
  assume d: "d < 16"
  then have "byte (upper_hex d) = (if d < 10 then 48 + int d else 55 + int d)"
    by (simp add: upper_hex_def byte_char_of)
  with d show ?thesis by (auto simp: unreserved_def isDigit_def isLetter_def)
qed

lemma percent_safe: "x \<in> set (percent c) \<Longrightarrow> x = CHR ''%'' \<or> unreserved x"
proof -
  have "nat (byte c) < 256" using byte_bounds [of c] by simp
  then have "nat (byte c) div 16 < 16" "nat (byte c) mod 16 < 16" by auto
  then show "x \<in> set (percent c) \<Longrightarrow> x = CHR ''%'' \<or> unreserved x"
    by (auto simp: percent_def upper_hex_safe)
qed

lemma PathEscape_safe: "x \<in> set (PathEscape s) \<Longrightarrow> unreserved x \<or> x \<in> set ''%$&+:=@''"
  using percent_safe by (fastforce simp: PathEscape_def split: if_splits)

lemma QueryEscape_safe: "x \<in> set (QueryEscape s) \<Longrightarrow> unreserved x \<or> x \<in> set ''%+''"
  using percent_safe by (fastforce simp: QueryEscape_def split: if_splits)

lemma PathEscape_no_slash: "CHR ''/'' \<notin> set (PathEscape s)" "CHR ''?'' \<notin> set (PathEscape s)"
    "CHR ''#'' \<notin> set (PathEscape s)"
  using PathEscape_safe [of "CHR ''/''" s] PathEscape_safe [of "CHR ''?''" s]
    PathEscape_safe [of "CHR ''#''" s] not_unreserved by auto

text \<open>A key read back from a query string built with \<open>QueryEscape\<close>.\<close>

lemma query_get_single:
  assumes "CHR ''='' \<notin> set k" "CHR ''&'' \<notin> set k" "CHR '';'' \<notin> set k" "QueryUnescape k = Some k"
  shows "query_get (k @ ''='' @ QueryEscape v) k = v"
proof -
  let ?q = "k @ CHR ''='' # QueryEscape v"
  have safe: "CHR ''&'' \<notin> set ?q" "CHR '';'' \<notin> set ?q"
    using assms not_unreserved QueryEscape_safe [of "CHR ''&''" v] QueryEscape_safe [of "CHR '';''" v] by auto
  then have "parse_query ?q = [(k, v)]"
    using assms by (simp add: parse_query_def split_byte_no_sep map_filter_simps query_pair_def
        QueryUnescape_QueryEscape)
  then show ?thesis by (simp add: query_get_def)
qed

end
