(* ===== verification/Mirror_Evidence.thy ===== *)
theory Mirror_Evidence
  imports Attestation Go_Bufio History_Page Go_Url "HOL-Library.AList" "HOL-Library.Monad_Syntax"
begin

text \<open>
  The pure half of web/internal/mirror: what is read out of a verified predicate. From mirror.go
  the projection of a CycloneDX document, the decoding of a vulnerability record, the choice of
  the newest record and of the newest VEX document and the join of the two; from history.go the
  parser of a tag ledger. The CycloneDX library decodes the document and is a parameter of the
  client; its types appear here with the fields the code reads.
\<close>

section \<open>Components of an SBOM\<close>

record license =
  lic_ID :: string
  lic_Name :: string

record license_choice =
  lc_License :: "license option"
  lc_Expression :: string

record bom_component =
  bc_Name :: string
  bc_Version :: string
  bc_Licenses :: "license_choice list option"
  bc_PackageURL :: string
  bc_CPE :: string

record bom =
  bom_Components :: "bom_component list option"

text \<open>One round of the loop of \<open>licenses\<close>: the name a choice adds, if any.\<close>

definition license_name :: "license_choice \<Rightarrow> string list" where
  "license_name c =
     (case lc_License c of
        Some l \<Rightarrow>
          if lic_ID l \<noteq> '''' then [lic_ID l]
          else if lic_Name l \<noteq> '''' then [lic_Name l]
          else if lc_Expression c \<noteq> '''' then [lc_Expression c] else []
      | None \<Rightarrow> if lc_Expression c \<noteq> '''' then [lc_Expression c] else [])"

definition licenses :: "license_choice list option \<Rightarrow> string" where
  "licenses choices =
     (case choices of None \<Rightarrow> '''' | Some cs \<Rightarrow> join '', '' (concat (map license_name cs)))"

text \<open>\<open>url.ParseQuery\<close> fails on a part it cannot read, where \<open>URL.Query\<close> drops it.\<close>

definition qualifier :: "string \<Rightarrow> string \<Rightarrow> string" where
  "qualifier purl key =
     (case cut_byte purl CHR ''?'' of
        None \<Rightarrow> ''''
      | Some (_, query) \<Rightarrow>
          if list_all (\<lambda>part. part = '''' \<or> query_pair part \<noteq> None) (split_byte query CHR ''&'')
          then query_get query key else '''')"

definition ecosystem :: "string \<Rightarrow> string" where
  "ecosystem purl =
     (case cut_prefix purl ''pkg:'' of
        None \<Rightarrow> ''''
      | Some rest \<Rightarrow> (case cut_byte rest CHR ''/'' of Some (e, _) \<Rightarrow> e | None \<Rightarrow> rest))"

definition component_of :: "bom_component \<Rightarrow> component" where
  "component_of c =
     \<lparr>c_Name = bc_Name c, c_Version = bc_Version c, c_License = licenses (bc_Licenses c),
      c_Type = ecosystem (bc_PackageURL c), c_PURL = bc_PackageURL c,
      c_Arch = qualifier (bc_PackageURL c) ''arch'', c_CPE = bc_CPE c\<rparr>"

definition components :: "bom \<Rightarrow> component list" where
  "components b = (case bom_Components b of None \<Rightarrow> [] | Some cs \<Rightarrow> map component_of cs)"

section \<open>Vulnerability records\<close>

record grype_match =
  gm_ID :: string
  gm_DataSource :: string
  gm_Severity :: string
  gm_Description :: string
  gm_FixVersions :: "string list"
  gm_FixState :: string
  gm_Name :: string
  gm_Version :: string
  gm_PURL :: string
  gm_Upstreams :: "string list"

record grype_document =
  gd_Matches :: "grype_match list"
  gd_Name :: string
  gd_Version :: string
  gd_Timestamp :: string
  gd_Built :: string

record vuln_predicate =
  vp_URI :: string
  vp_Version :: string
  vp_DBURI :: string
  vp_DBVersion :: string
  vp_Result :: grype_document
  vp_Started :: string
  vp_Finished :: string

text \<open>A field of the member object the names lead to.\<close>

fun json_at :: "(string \<times> json) list \<Rightarrow> string list \<Rightarrow> 'a decoder \<Rightarrow> 'a option" where
  "json_at kvs [] d = d (JObject kvs)"
| "json_at kvs [n] d = dec_field kvs n d"
| "json_at kvs (n # m # ns) d = dec_field kvs n (dec_struct (\<lambda>kvs'. json_at kvs' (m # ns) d))"

definition dec_match :: "grype_match decoder" where
  "dec_match = dec_struct (\<lambda>j. do {
     i \<leftarrow> json_at j [''vulnerability'', ''id''] dec_string;
     source \<leftarrow> json_at j [''vulnerability'', ''dataSource''] dec_string;
     sev \<leftarrow> json_at j [''vulnerability'', ''severity''] dec_string;
     desc \<leftarrow> json_at j [''vulnerability'', ''description''] dec_string;
     fixes_in \<leftarrow> json_at j [''vulnerability'', ''fix'', ''versions''] (dec_list dec_string);
     state \<leftarrow> json_at j [''vulnerability'', ''fix'', ''state''] dec_string;
     name \<leftarrow> json_at j [''artifact'', ''name''] dec_string;
     ver \<leftarrow> json_at j [''artifact'', ''version''] dec_string;
     purl \<leftarrow> json_at j [''artifact'', ''purl''] dec_string;
     ups \<leftarrow> json_at j [''artifact'', ''upstreams'']
              (dec_list (dec_struct (\<lambda>u. dec_field u ''name'' dec_string)));
     Some \<lparr>gm_ID = i, gm_DataSource = source, gm_Severity = sev, gm_Description = desc,
           gm_FixVersions = fixes_in, gm_FixState = state, gm_Name = name, gm_Version = ver,
           gm_PURL = purl, gm_Upstreams = ups\<rparr>
   })"

definition dec_grype :: "grype_document decoder" where
  "dec_grype = dec_struct (\<lambda>j. do {
     ms \<leftarrow> dec_field j ''matches'' (dec_list dec_match);
     name \<leftarrow> json_at j [''descriptor'', ''name''] dec_string;
     ver \<leftarrow> json_at j [''descriptor'', ''version''] dec_string;
     ts \<leftarrow> json_at j [''descriptor'', ''timestamp''] dec_string;
     built \<leftarrow> json_at j [''descriptor'', ''db'', ''status'', ''built''] dec_string;
     Some \<lparr>gd_Matches = ms, gd_Name = name, gd_Version = ver, gd_Timestamp = ts, gd_Built = built\<rparr>
   })"

definition dec_vuln :: "vuln_predicate decoder" where
  "dec_vuln = dec_struct (\<lambda>j. do {
     uri \<leftarrow> json_at j [''scanner'', ''uri''] dec_string;
     ver \<leftarrow> json_at j [''scanner'', ''version''] dec_string;
     dburi \<leftarrow> json_at j [''scanner'', ''db'', ''uri''] dec_string;
     dbver \<leftarrow> json_at j [''scanner'', ''db'', ''version''] dec_string;
     res \<leftarrow> json_at j [''scanner'', ''result''] dec_grype;
     started \<leftarrow> json_at j [''metadata'', ''scanStartedOn''] dec_string;
     finished \<leftarrow> json_at j [''metadata'', ''scanFinishedOn''] dec_string;
     Some \<lparr>vp_URI = uri, vp_Version = ver, vp_DBURI = dburi, vp_DBVersion = dbver, vp_Result = res,
           vp_Started = started, vp_Finished = finished\<rparr>
   })"

definition releasePage :: "string \<Rightarrow> string" where
  "releasePage purl =
     (case cut_prefix purl ''pkg:github/'' of
        None \<Rightarrow> ''''
      | Some rest \<Rightarrow>
          (case cut_byte rest CHR ''@'' of
             None \<Rightarrow> ''''
           | Some (repository, ver) \<Rightarrow>
               if ver = '''' \<or> count_byte repository CHR ''/'' \<noteq> 1 then ''''
               else ''https://github.com/'' @ repository @ ''/releases/tag/'' @ ver))"

definition upstream :: "string list \<Rightarrow> string" where
  "upstream upstreams = (case upstreams of [] \<Rightarrow> '''' | u # _ \<Rightarrow> u)"

fun firstTime :: "string list \<Rightarrow> time" where
  "firstTime [] = 0"
| "firstTime (c # cs) = (case parse_RFC3339 c of Some t \<Rightarrow> t | None \<Rightarrow> firstTime cs)"

definition finding_of :: "grype_match \<Rightarrow> finding" where
  "finding_of m =
     \<lparr>f_ID = gm_ID m, f_Severity = ParseSeverity (gm_Severity m), f_Package = gm_Name m,
      f_Version = gm_Version m, f_Upstream = upstream (gm_Upstreams m),
      f_Type = ecosystem (gm_PURL m), f_Arch = qualifier (gm_PURL m) ''arch'', f_PURL = gm_PURL m,
      f_FixedIn = gm_FixVersions m, f_FixState = gm_FixState m, f_URL = gm_DataSource m,
      f_Description = gm_Description m, f_Suppressed = None\<rparr>"

definition project_scan :: "vuln_predicate \<Rightarrow> scan" where
  "project_scan r =
     (let res = vp_Result r;
          scanner = trim_space (gd_Name res @ '' '' @ gd_Version res)
      in \<lparr>s_Scanner = (if scanner = '''' then vp_URI r else scanner),
          s_ScannerURL = releasePage (vp_URI r),
          s_Database = firstTime [vp_DBVersion r, gd_Built res],
          s_Finished = firstTime [vp_Finished r, gd_Timestamp res],
          s_Findings = map finding_of (gd_Matches res)\<rparr>)"

definition decodeScan :: "string \<Rightarrow> scan result" where
  "decodeScan predicate =
     (case unmarshal dec_vuln predicate of
        None \<Rightarrow> Inl ''decoding vulnerability predicate''
      | Some r \<Rightarrow> Inr (project_scan r))"

section \<open>Which statement counts\<close>

text \<open>The loop of \<open>newestStatement\<close>.\<close>

fun newest_loop :: "statement option \<Rightarrow> statement list \<Rightarrow> statement option" where
  "newest_loop newest [] = newest"
| "newest_loop newest (s # ss) =
     newest_loop
       (case newest of
          None \<Rightarrow> Some s
        | Some n \<Rightarrow> if \<not> st_SignedAt s < st_SignedAt n then Some s else newest) ss"

definition newestStatement :: "statement list \<Rightarrow> statement option" where
  "newestStatement statements = newest_loop None statements"

type_synonym scan_record = "scan \<times> string"

text \<open>The loop of \<open>newestScan\<close>; a record that does not decode is passed over.\<close>

fun newest_scan_loop :: "scan_record option \<Rightarrow> statement list \<Rightarrow> scan_record option" where
  "newest_scan_loop newest [] = newest"
| "newest_scan_loop newest (s # ss) =
     newest_scan_loop
       (case decodeScan (st_Predicate s) of
          Inl _ \<Rightarrow> newest
        | Inr scn \<Rightarrow>
            (case newest of
               None \<Rightarrow> Some (scn, st_Predicate s)
             | Some (n, _) \<Rightarrow>
                 if s_Finished n < s_Finished scn then Some (scn, st_Predicate s) else newest)) ss"

definition newestScan :: "statement list \<Rightarrow> scan_record result" where
  "newestScan statements =
     (case newest_scan_loop None statements of
        None \<Rightarrow> Inl ''no verified vulnerability scan''
      | Some r \<Rightarrow> Inr r)"

section \<open>VEX\<close>

record vex_statement =
  vx_Name :: string
  vx_Status :: string
  vx_Justification :: string
  vx_ImpactStatement :: string

definition dec_vex :: "vex_statement list decoder" where
  "dec_vex = dec_struct (\<lambda>j. dec_field j ''statements'' (dec_list (dec_struct (\<lambda>s. do {
     name \<leftarrow> json_at s [''vulnerability'', ''name''] dec_string;
     status \<leftarrow> dec_field s ''status'' dec_string;
     justification \<leftarrow> dec_field s ''justification'' dec_string;
     impact \<leftarrow> dec_field s ''impact_statement'' dec_string;
     Some \<lparr>vx_Name = name, vx_Status = status, vx_Justification = justification,
           vx_ImpactStatement = impact\<rparr>
   }))))"

definition silences :: "vex_statement \<Rightarrow> bool" where
  "silences s \<longleftrightarrow> \<not> (vx_Status s \<noteq> ''not_affected'' \<and> vx_Status s \<noteq> ''fixed'')"

definition suppression_of :: "vex_statement \<Rightarrow> suppression" where
  "suppression_of s =
     \<lparr>Status = vx_Status s, Justification = vx_Justification s, Impact = vx_ImpactStatement s\<rparr>"

text \<open>The two loops of \<open>suppress\<close>.\<close>

fun suppressions_by_id :: "(string \<Rightarrow> suppression option) \<Rightarrow> vex_statement list \<Rightarrow> string \<Rightarrow> suppression option" where
  "suppressions_by_id byID [] = byID"
| "suppressions_by_id byID (s # ss) =
     suppressions_by_id (if silences s then byID(vx_Name s \<mapsto> suppression_of s) else byID) ss"

definition suppress_finding :: "(string \<Rightarrow> suppression option) \<Rightarrow> finding \<Rightarrow> finding" where
  "suppress_finding byID f =
     (case byID (f_ID f) of Some s \<Rightarrow> f\<lparr>f_Suppressed := Some s\<rparr> | None \<Rightarrow> f)"

definition suppress :: "scan \<Rightarrow> string \<Rightarrow> scan result" where
  "suppress scn document =
     (case unmarshal dec_vex document of
        None \<Rightarrow> Inl ''decoding OpenVEX document''
      | Some statements \<Rightarrow>
          Inr (scn\<lparr>s_Findings := map (suppress_finding (suppressions_by_id Map.empty statements))
                 (s_Findings scn)\<rparr>))"

section \<open>The tag ledger\<close>

definition maxAttestationBytes :: int where
  "maxAttestationBytes = 64 * 2 ^ 20"

record ledger_event =
  le_At :: string
  le_Tag :: string
  le_Digest :: string
  le_Run :: string

definition dec_event :: "ledger_event decoder" where
  "dec_event = dec_struct (\<lambda>j. do {
     when \<leftarrow> dec_field j ''at'' dec_string;
     tag \<leftarrow> dec_field j ''tag'' dec_string;
     digest \<leftarrow> dec_field j ''digest'' dec_string;
     run \<leftarrow> dec_field j ''run'' dec_string;
     Some \<lparr>le_At = when, le_Tag = tag, le_Digest = digest, le_Run = run\<rparr>
   })"

definition line_error :: "nat \<Rightarrow> string \<Rightarrow> string" where
  "line_error n msg = ''line '' @ itoa n @ '': '' @ msg"

text \<open>What one line gives: an error, nothing (a blank line), or a move.\<close>

definition ledger_line :: "nat \<Rightarrow> string \<Rightarrow> move option result" where
  "ledger_line n line =
     (let t = trim_space line
      in if t = '''' then Inr None
         else case unmarshal dec_event t of
             None \<Rightarrow> Inl (line_error n ''invalid JSON'')
           | Some e \<Rightarrow>
               (case parse_RFC3339 (le_At e) of
                  None \<Rightarrow> Inl (line_error n ''at: invalid time'')
                | Some when \<Rightarrow>
                    if le_Tag e = '''' \<or> \<not> has_prefix (le_Digest e) ''sha256:''
                    then Inl (line_error n ''not a tag move: need tag and a sha256: digest'')
                    else Inr (Some \<lparr>mv_At = when, mv_Tag = le_Tag e, mv_Digest = le_Digest e,
                                    mv_Run = le_Run e\<rparr>)))"

fun ledger_lines :: "nat \<Rightarrow> string list \<Rightarrow> move list \<Rightarrow> move list result" where
  "ledger_lines n [] moves = Inr moves"
| "ledger_lines n (l # ls) moves =
     (case ledger_line n l of
        Inl err \<Rightarrow> Inl err
      | Inr None \<Rightarrow> ledger_lines (Suc n) ls moves
      | Inr (Some m) \<Rightarrow> ledger_lines (Suc n) ls (moves @ [m]))"

definition decodeLedger :: "string \<Rightarrow> move list result" where
  "decodeLedger blob =
     (case ledger_lines 1 (scan_lines maxAttestationBytes blob) [] of
        Inl err \<Rightarrow> Inl err
      | Inr moves \<Rightarrow>
          if scan_ok maxAttestationBytes blob then Inr moves
          else Inl ''bufio.Scanner: token too long'')"

section \<open>Newest first, newest last\<close>

text \<open>
  Two scans over a list that keep the greatest key: \<open>newest_loop\<close> lets a later equal one win,
  \<open>newest_scan_loop\<close> an earlier one.
\<close>

lemma newest_loop_Some:
  "newest_loop (Some n) ss =
     Some (last (filter (\<lambda>s. st_SignedAt s = Max (st_SignedAt ` set (n # ss))) (n # ss)))"
proof (induction ss arbitrary: n)
  case (Cons s ss)
  let ?M = "\<lambda>x. Max (st_SignedAt ` set (x # ss))"
  have ge: "st_SignedAt x \<le> ?M y" if "x \<in> set (y # ss)" for x y using that by (intro Max_ge) auto
  show ?case
  proof (cases "st_SignedAt s < st_SignedAt n")
    case True
    then have M: "Max (st_SignedAt ` set (n # s # ss)) = ?M n"
      using ge [of n n] by (intro Max_eq_if) (auto intro: less_le_trans)
    have "st_SignedAt s \<noteq> ?M n" using True ge [of n n] by auto
    then have f: "filter (\<lambda>x. st_SignedAt x = ?M n) (n # s # ss) = filter (\<lambda>x. st_SignedAt x = ?M n) (n # ss)"
      by simp
    have "newest_loop (Some n) (s # ss) = newest_loop (Some n) ss" using True by simp
    also have "\<dots> = Some (last (filter (\<lambda>x. st_SignedAt x = ?M n) (n # ss)))" by (rule Cons.IH)
    finally show ?thesis by (simp only: M f)
  next
    case False
    then have M: "Max (st_SignedAt ` set (n # s # ss)) = ?M s"
      using ge [of s s] by (intro Max_eq_if) (auto simp: not_less intro: order_trans)
    have "Max (st_SignedAt ` set (s # ss)) \<in> st_SignedAt ` set (s # ss)" by (rule Max_in) auto
    then have ne: "filter (\<lambda>x. st_SignedAt x = ?M s) (s # ss) \<noteq> []"
      by (auto simp: filter_empty_conv)
    then have l: "last (filter (\<lambda>x. st_SignedAt x = ?M s) (n # s # ss))
        = last (filter (\<lambda>x. st_SignedAt x = ?M s) (s # ss))"
      by (simp add: last_append del: filter.simps add: filter.simps(2) [of _ n])
    have "newest_loop (Some n) (s # ss) = newest_loop (Some s) ss" using False by simp
    also have "\<dots> = Some (last (filter (\<lambda>x. st_SignedAt x = ?M s) (s # ss)))" by (rule Cons.IH)
    finally show ?thesis by (simp only: M l)
  qed
qed simp

text \<open>
  Of several VEX documents on one digest the one the log saw last speaks, whatever the
  documents say of themselves; on a tie it is the one listed later.
\<close>

theorem newestStatement_newest:
  "newestStatement ss =
     (if ss = [] then None
      else Some (last (filter (\<lambda>s. st_SignedAt s = Max (st_SignedAt ` set ss)) ss)))"
  by (cases ss) (simp_all only: newestStatement_def newest_loop.simps option.case newest_loop_Some
      list.distinct if_True if_False simp_thms)

text \<open>The records that decode, in order, each with its bytes.\<close>

definition decoded_scans :: "statement list \<Rightarrow> scan_record list" where
  "decoded_scans ss =
     concat (map (\<lambda>s. case decodeScan (st_Predicate s) of Inl _ \<Rightarrow> [] | Inr scn \<Rightarrow> [(scn, st_Predicate s)]) ss)"

fun first_greatest :: "scan_record \<Rightarrow> scan_record list \<Rightarrow> scan_record" where
  "first_greatest n [] = n"
| "first_greatest n (r # rs) =
     first_greatest (if s_Finished (fst n) < s_Finished (fst r) then r else n) rs"

lemma newest_scan_loop_decoded:
  "newest_scan_loop m ss =
     (case m of
        Some n \<Rightarrow> Some (first_greatest n (decoded_scans ss))
      | None \<Rightarrow> (case decoded_scans ss of [] \<Rightarrow> None | r # rs \<Rightarrow> Some (first_greatest r rs)))"
  by (induction ss arbitrary: m) (auto simp: decoded_scans_def split: sum.split option.split)

lemma first_greatest_props:
  "first_greatest n rs \<in> set (n # rs) \<and>
     (\<forall>r \<in> set (n # rs). s_Finished (fst r) \<le> s_Finished (fst (first_greatest n rs)))"
proof (induction rs arbitrary: n)
  case (Cons r rs)
  define k where "k = (if s_Finished (fst n) < s_Finished (fst r) then r else n)"
  have k: "k = n \<or> k = r" "s_Finished (fst n) \<le> s_Finished (fst k)"
    "s_Finished (fst r) \<le> s_Finished (fst k)"
    by (auto simp: k_def)
  have e: "first_greatest n (r # rs) = first_greatest k rs" by (simp add: k_def)
  have m: "first_greatest k rs \<in> set (k # rs)" using Cons.IH [of k] by blast
  have b: "s_Finished (fst x) \<le> s_Finished (fst (first_greatest k rs))" if "x \<in> set (k # rs)" for x
    using Cons.IH [of k] that by blast
  have bk: "s_Finished (fst k) \<le> s_Finished (fst (first_greatest k rs))" by (rule b) simp
  have "s_Finished (fst x) \<le> s_Finished (fst (first_greatest k rs))" if "x \<in> set (n # r # rs)" for x
  proof (cases "x \<in> set rs")
    case False
    then have "s_Finished (fst x) \<le> s_Finished (fst k)" using that k by auto
    with bk show ?thesis by simp
  qed (simp add: b)
  moreover have "first_greatest k rs \<in> set (n # r # rs)" using m k(1) by auto
  ultimately show ?case unfolding e by blast
qed simp

text \<open>
  The scan a page shows is the record of the digest that ran last by its own clock, among
  all those that decode; there is no scan only if none decodes. An undecodable record hides
  nothing, and what is downloaded is the very bytes the page was read from.
\<close>

theorem newestScan_newest:
  "(case newestScan ss of
      Inl _ \<Rightarrow> decoded_scans ss = []
    | Inr (scn, raw) \<Rightarrow>
        (scn, raw) \<in> set (decoded_scans ss) \<and> decodeScan raw = Inr scn \<and>
        list_all (\<lambda>r. s_Finished (fst r) \<le> s_Finished scn) (decoded_scans ss))"
proof (cases "decoded_scans ss")
  case Nil
  then show ?thesis by (simp add: newestScan_def newest_scan_loop_decoded)
next
  case (Cons r rs)
  obtain scn raw where g: "first_greatest r rs = (scn, raw)" by force
  then have mem: "(scn, raw) \<in> set (decoded_scans ss)"
    using first_greatest_props [of r rs] Cons by simp
  then have "decodeScan raw = Inr scn" by (auto simp: decoded_scans_def split: sum.splits)
  moreover have "list_all (\<lambda>q. s_Finished (fst q) \<le> s_Finished scn) (decoded_scans ss)"
    using first_greatest_props [of r rs] Cons g by (simp add: list_all_iff)
  ultimately show ?thesis using mem by (simp add: newestScan_def newest_scan_loop_decoded Cons g)
qed

section \<open>What VEX silences\<close>

lemma suppressions_by_id_find:
  "suppressions_by_id byID ss x =
     (case find (\<lambda>s. silences s \<and> vx_Name s = x) (rev ss) of
        Some s \<Rightarrow> Some (suppression_of s) | None \<Rightarrow> byID x)"
proof (induction ss arbitrary: byID)
  case (Cons s ss)
  have "find P (xs @ [s]) = (case find P xs of Some y \<Rightarrow> Some y | None \<Rightarrow> if P s then Some s else None)"
    for P :: "vex_statement \<Rightarrow> bool" and xs
    by (induction xs) auto
  then show ?case by (simp add: Cons split: option.split)
qed simp

text \<open>
  C21: a VEX document changes nothing of a scan but the suppressions, and a finding is suppressed
  exactly if a statement with status not_affected or fixed names its identifier, by the last
  such statement; a document that does not decode is an error and silences nothing.
\<close>

theorem suppress_exactly:
  "(case unmarshal dec_vex document of
      None \<Rightarrow> \<exists>err. suppress scn document = Inl err
    | Some statements \<Rightarrow>
        suppress scn document = Inr (scn\<lparr>s_Findings := map (\<lambda>f.
          f\<lparr>f_Suppressed :=
              (case find (\<lambda>s. vx_Status s \<in> {''not_affected'', ''fixed''} \<and> vx_Name s = f_ID f)
                      (rev statements) of
                 Some s \<Rightarrow> Some \<lparr>Status = vx_Status s, Justification = vx_Justification s,
                                 Impact = vx_ImpactStatement s\<rparr>
               | None \<Rightarrow> f_Suppressed f)\<rparr>) (s_Findings scn)\<rparr>))"
proof (cases "unmarshal dec_vex document")
  case (Some statements)
  have s: "silences s \<longleftrightarrow> vx_Status s \<in> {''not_affected'', ''fixed''}" for s
    by (auto simp: silences_def)
  have "suppress_finding (suppressions_by_id Map.empty statements) f =
      f\<lparr>f_Suppressed :=
          (case find (\<lambda>s. vx_Status s \<in> {''not_affected'', ''fixed''} \<and> vx_Name s = f_ID f)
                  (rev statements) of
             Some s \<Rightarrow> Some \<lparr>Status = vx_Status s, Justification = vx_Justification s,
                             Impact = vx_ImpactStatement s\<rparr>
           | None \<Rightarrow> f_Suppressed f)\<rparr>" for f
    unfolding suppress_finding_def suppressions_by_id_find s
    by (simp add: suppression_of_def split: option.split)
  then show ?thesis by (simp add: suppress_def Some)
qed (simp add: suppress_def)

section \<open>The ledger\<close>

definition decoded_ledger :: "string \<Rightarrow> move list option" where
  "decoded_ledger blob = (case decodeLedger blob of Inl _ \<Rightarrow> None | Inr moves \<Rightarrow> Some moves)"

definition line_move :: "string \<Rightarrow> move option option" where
  "line_move l = (case ledger_line 1 l of Inl _ \<Rightarrow> None | Inr m \<Rightarrow> Some m)"

definition line_moves :: "string list \<Rightarrow> move list option" where
  "line_moves ls = map_option (\<lambda>ms. List.map_filter id ms) (those (map line_move ls))"

lemma ledger_line_number:
  "(case ledger_line n l of Inl _ \<Rightarrow> None | Inr m \<Rightarrow> Some m) = line_move l"
  by (simp add: line_move_def ledger_line_def Let_def split: option.split)

lemma line_moves_Cons:
  "line_moves (l # ls) =
     (case line_move l of None \<Rightarrow> None
      | Some m \<Rightarrow> map_option (\<lambda>ms. (case m of None \<Rightarrow> ms | Some x \<Rightarrow> x # ms)) (line_moves ls))"
  by (auto simp: line_moves_def option.map_comp o_def split: option.split)

lemma line_moves_append:
  "line_moves (xs @ ys) =
     (case (line_moves xs, line_moves ys) of (Some a, Some b) \<Rightarrow> Some (a @ b) | _ \<Rightarrow> None)"
proof (induction xs)
  case Nil
  have "line_moves [] = Some []" by (simp add: line_moves_def)
  then show ?case by (simp split: option.split)
next
  case (Cons x xs)
  then show ?case by (auto simp: line_moves_Cons split: option.splits)
qed

lemma ledger_lines_moves:
  "(case ledger_lines n ls acc of Inl _ \<Rightarrow> None | Inr moves \<Rightarrow> Some moves)
     = map_option (\<lambda>ms. acc @ ms) (line_moves ls)"
proof (induction ls arbitrary: n acc)
  case Nil
  show ?case by (simp add: line_moves_def)
next
  case (Cons l ls)
  show ?case
  proof (cases "ledger_line n l")
    case (Inl err)
    then have "line_move l = None" using ledger_line_number [of n l] by simp
    then show ?thesis by (simp add: Inl line_moves_Cons)
  next
    case (Inr m)
    then have "line_move l = Some m" using ledger_line_number [of n l] by simp
    then show ?thesis
      by (cases m) (simp_all add: Inr line_moves_Cons Cons.IH option.map_comp o_def)
  qed
qed

lemma decoded_ledger_lines:
  "decoded_ledger blob =
     (if scan_ok maxAttestationBytes blob
      then line_moves (map (\<lambda>l. trim_suffix l [CHR 0x0D]) (raw_lines blob)) else None)"
proof (cases "scan_ok maxAttestationBytes blob")
  case True
  have "decoded_ledger blob = (case ledger_lines 1 (scan_lines maxAttestationBytes blob) [] of
      Inl _ \<Rightarrow> None | Inr moves \<Rightarrow> Some moves)"
    using True by (simp add: decoded_ledger_def decodeLedger_def split: sum.split)
  also have "\<dots> = line_moves (scan_lines maxAttestationBytes blob)"
    unfolding ledger_lines_moves by (cases "line_moves (scan_lines maxAttestationBytes blob)") simp_all
  finally show ?thesis using True by (simp add: scan_ok_lines)
qed (auto simp: decoded_ledger_def decodeLedger_def split: sum.split)

text \<open>
  A ledger only grows: when lines are appended to one that ends in a newline the moves read
  are those of the old ledger followed by those of the new lines, and one line that does not
  decode, anywhere, fails the whole of it.
\<close>

theorem decodeLedger_append:
  assumes "a = [] \<or> last a = CHR 0x0A"
  shows "decoded_ledger (a @ b) =
    (case (decoded_ledger a, decoded_ledger b) of (Some x, Some y) \<Rightarrow> Some (x @ y) | _ \<Rightarrow> None)"
  unfolding decoded_ledger_lines scan_ok_def raw_lines_append [OF assms] map_append line_moves_append
  by (simp split: option.split)

definition ledger_sample :: "string \<Rightarrow> string" where
  "ledger_sample s = map (\<lambda>c. if c = CHR ''~'' then CHR 0x22 else if c = CHR ''$'' then CHR 0x0A else c) s"

theorem decodeLedger_append_witness:
  "decoded_ledger (ledger_sample ''{~at~:~2025-01-02T03:04:05Z~,~tag~:~1~,~digest~:~sha256:aa~}$''
      @ ledger_sample ''{~at~:~2025-01-02T03:04:06Z~,~tag~:~2~,~digest~:~sha256:bb~,~run~:~x~}'')
    = Some [\<lparr>mv_At = 63871383845000000000, mv_Tag = ''1'', mv_Digest = ''sha256:aa'', mv_Run = ''''\<rparr>,
            \<lparr>mv_At = 63871383846000000000, mv_Tag = ''2'', mv_Digest = ''sha256:bb'', mv_Run = ''x''\<rparr>]"
proof -
  have a: "decoded_ledger (ledger_sample ''{~at~:~2025-01-02T03:04:05Z~,~tag~:~1~,~digest~:~sha256:aa~}$'')
    = Some [\<lparr>mv_At = 63871383845000000000, mv_Tag = ''1'', mv_Digest = ''sha256:aa'', mv_Run = ''''\<rparr>]"
    by code_simp
  have b: "decoded_ledger (ledger_sample ''{~at~:~2025-01-02T03:04:06Z~,~tag~:~2~,~digest~:~sha256:bb~,~run~:~x~}'')
    = Some [\<lparr>mv_At = 63871383846000000000, mv_Tag = ''2'', mv_Digest = ''sha256:bb'', mv_Run = ''x''\<rparr>]"
    by code_simp
  have c: "last (ledger_sample ''{~at~:~2025-01-02T03:04:05Z~,~tag~:~1~,~digest~:~sha256:aa~}$'') = CHR 0x0A"
    by code_simp
  show ?thesis by (subst decodeLedger_append) (simp_all add: a b c)
qed

end
