(* ===== verification/Go_Float.thy ===== *)
theory Go_Float
  imports Go_Prelude
begin

text \<open>
  The \<open>float64\<close> arithmetic behind the sizes and charts of the pages: quotients of integers
  rounded to 53 significant bits, half to even, and their decimal forms as \<open>%.0f\<close> and \<open>%.1f\<close>
  print them. A positive double is a pair of a mantissa and a binary exponent.
\<close>

definition round_half_even :: "int \<Rightarrow> int \<Rightarrow> int" where
  "round_half_even n d =
     (let q = n div d; r = n mod d
      in if 2 * r < d \<or> 2 * r = d \<and> even q then q else q + 1)"

fun bit_length :: "nat \<Rightarrow> nat" where
  "bit_length n = (if n = 0 then 0 else Suc (bit_length (n div 2)))"

declare bit_length.simps [simp del]

text \<open>The double nearest to \<open>n / d\<close> for \<open>d \<le> n\<close>, as mantissa and exponent \<open>e\<close>, of value \<open>m / 2 ^ e\<close>
  or, for a negative \<open>e\<close>, \<open>m * 2 ^ (- e)\<close>.\<close>

definition float_quot :: "int \<Rightarrow> int \<Rightarrow> int \<times> int" where
  "float_quot n d =
     (let e = 53 - int (bit_length (nat (n div d)))
      in (if 0 \<le> e then (round_half_even (n * 2 ^ nat e) d, e)
          else (round_half_even n (d * 2 ^ nat (- e)), e)))"

text \<open>Numerator and denominator of a double.\<close>

definition float_num :: "int \<times> int \<Rightarrow> int" where
  "float_num f = (case f of (m, e) \<Rightarrow> if 0 \<le> e then m else m * 2 ^ nat (- e))"

definition float_den :: "int \<times> int \<Rightarrow> int" where
  "float_den f = (case f of (m, e) \<Rightarrow> if 0 \<le> e then 2 ^ nat e else 1)"

text \<open>\<open>float64(n) / float64(d)\<close> for integers \<open>d \<le> n\<close>, \<open>d\<close> below \<open>2 ^ 53\<close>.\<close>

definition float_div :: "int \<Rightarrow> int \<Rightarrow> int \<times> int" where
  "float_div n d = (let f = float_quot n 1 in float_quot (float_num f) (float_den f * d))"

text \<open>\<open>%.0f\<close> and \<open>%.1f\<close> of a positive double.\<close>

definition format_0f :: "int \<times> int \<Rightarrow> string" where
  "format_0f f = itoa (nat (round_half_even (float_num f) (float_den f)))"

definition format_1f :: "int \<times> int \<Rightarrow> string" where
  "format_1f f =
     (let t = round_half_even (10 * float_num f) (float_den f)
      in itoa (nat (t div 10)) @ ''.'' @ itoa (nat (t mod 10)))"

lemma round_half_even_near:
  assumes "0 < d"
  shows "\<bar>2 * (round_half_even n d * d - n)\<bar> \<le> d"
proof -
  have dm: "n = n div d * d + n mod d" "0 \<le> n mod d" "n mod d < d" using assms by simp_all
  define q where "q = n div d"
  define r where "r = n mod d"
  have "n = q * d + r" "0 \<le> r" "r < d" using dm by (simp_all add: q_def r_def)
  then show ?thesis
    unfolding round_half_even_def q_def [symmetric] r_def [symmetric] Let_def
    by (auto simp: algebra_simps abs_le_iff)
qed

lemma round_half_even_exact: "0 < d \<Longrightarrow> round_half_even (k * d) d = k"
  by (simp add: round_half_even_def)

end
