(* ===== verification/Release_Versions.thy ===== *)
theory Release_Versions
  imports Sbom_Table Go_Float
begin

text \<open>
  web/internal/directory/versions.go: what a family publishes, grouped by build. A Go map that
  is only looked up is a partial function, one that is ranged over (\<open>Sizes\<close>) an association
  list; a missing key reads as 0. The lemmas show that the grouping keeps every tag, that
  the build \<open>latest\<close> names comes first, and how tags are ordered.
\<close>

section \<open>Sizes\<close>

type_synonym size = int

definition Bytes :: "size \<Rightarrow> int" where
  "Bytes s = s"

definition Size_String :: "size \<Rightarrow> string" where
  "Size_String s =
     (if s = 0 then ''unknown''
      else if s < 1000 then itoa_int s @ '' B''
      else if s < 1000000 then format_0f (float_div s 1000) @ '' kB''
      else format_1f (float_div s 1000000) @ '' MB'')"

section \<open>Data\<close>

record version =
  v_Tag :: string
  v_Digest :: string
  v_Created :: time
  v_Sizes :: "(string \<times> size) list"

record release =
  rel_Digest :: string
  rel_Tags :: "tag list"
  rel_Created :: time
  rel_Sizes :: "size list"
  rel_SBOM :: string

record versions =
  vs_Image :: string
  vs_Architectures :: "string list"
  vs_Releases :: "release list"
  vs_Logo :: string
  vs_Topbar :: topbar
  vs_SBOM :: string
  vs_Vulnerabilities :: string
  vs_History :: string

definition size_of :: "(string \<times> size) list \<Rightarrow> string \<Rightarrow> size" where
  "size_of sizes arch = (case map_of sizes arch of Some s \<Rightarrow> s | None \<Rightarrow> 0)"

section \<open>Ordering tags\<close>

definition defaultRef :: string where
  "defaultRef = ''latest''"

definition tagLatest :: int where "tagLatest = 0"
definition tagName :: int where "tagName = 1"
definition tagVersion :: int where "tagVersion = 2"

definition tagRank :: "string \<Rightarrow> int" where
  "tagRank tag =
     (if tag = defaultRef then tagLatest
      else if tag = '''' \<or> byte (hd tag) < 48 \<or> byte (hd tag) > 57 then tagName
      else tagVersion)"

definition compareVersionTag :: "string \<Rightarrow> string \<Rightarrow> int" where
  "compareVersionTag a b =
     (case splitVersion a of (aEpoch, aUpstream, aVariant) \<Rightarrow>
      case splitVersion b of (bEpoch, bUpstream, bVariant) \<Rightarrow>
        cmp_or [wrap64 (bEpoch - aEpoch),
                - compareFragment aUpstream bUpstream,
                compareFragment aVariant bVariant])"

definition compareTag :: "string \<Rightarrow> string \<Rightarrow> int" where
  "compareTag a b =
     (let byKind = cmp_compare (tagRank a) (tagRank b)
      in if byKind \<noteq> 0 then byKind
         else if tagRank a = tagVersion then compareVersionTag a b
         else cmp_compare a b)"

section \<open>Grouping\<close>

definition namesLatest :: "release \<Rightarrow> bool" where
  "namesLatest r \<longleftrightarrow> rel_Tags r \<noteq> [] \<and> tag_Name (hd (rel_Tags r)) = defaultRef"

definition release_version :: "release \<Rightarrow> string" where
  "release_version r =
     (case find (\<lambda>t. tagRank (tag_Name t) = tagVersion) (rel_Tags r) of
        Some t \<Rightarrow> tag_Name t
      | None \<Rightarrow> '''')"

definition compareNamedLatest :: "release \<Rightarrow> release \<Rightarrow> int" where
  "compareNamedLatest a b =
     (if namesLatest a \<and> \<not> namesLatest b then -1
      else if \<not> namesLatest a \<and> namesLatest b then 1
      else 0)"

definition compareRelease :: "release \<Rightarrow> release \<Rightarrow> int" where
  "compareRelease a b = cmp_or
     [compareNamedLatest a b,
      compareVersionTag (release_version a) (release_version b),
      compareTag (tag_Name (hd (rel_Tags a))) (tag_Name (hd (rel_Tags b)))]"

definition publishedArchitectures :: "(string \<times> size) list list \<Rightarrow> string list" where
  "publishedArchitectures sizes = compact (sort_strings (concat (map (map fst) sizes)))"

text \<open>The state of the first loop: \<open>byDigest\<close>, \<open>sizes\<close> and \<open>order\<close>.\<close>

type_synonym grouping =
  "(string \<Rightarrow> release option) \<times> (string \<Rightarrow> (string \<times> size) list option) \<times> string list"

definition groupVersion :: "version \<Rightarrow> grouping \<Rightarrow> grouping" where
  "groupVersion v st =
     (case st of (byDigest, sizes, order) \<Rightarrow>
        let tag = \<lparr>tag_Name = v_Tag v, tag_URL = ''''\<rparr>
        in (case byDigest (v_Digest v) of
              Some r \<Rightarrow> (byDigest(v_Digest v := Some (r\<lparr>rel_Tags := rel_Tags r @ [tag]\<rparr>)), sizes, order)
            | None \<Rightarrow>
                (byDigest(v_Digest v := Some \<lparr>rel_Digest = v_Digest v, rel_Tags = [tag],
                   rel_Created = v_Created v, rel_Sizes = [], rel_SBOM = ''''\<rparr>),
                 sizes(v_Digest v := Some (v_Sizes v)),
                 order @ [v_Digest v])))"

definition groupVersions :: "version list \<Rightarrow> grouping" where
  "groupVersions vs = foldl (\<lambda>st v. groupVersion v st) ((\<lambda>_. None), (\<lambda>_. None), []) vs"

text \<open>The second loop's body: the tags in order and the sizes aligned with the columns.\<close>

definition finishRelease :: "string list \<Rightarrow> (string \<times> size) list \<Rightarrow> release \<Rightarrow> release" where
  "finishRelease archs sizes r =
     r\<lparr>rel_Tags := sort_stable (\<lambda>a b. compareTag (tag_Name a) (tag_Name b)) (rel_Tags r),
       rel_Sizes := map (size_of sizes) archs\<rparr>"

definition NewVersions :: "string \<Rightarrow> version list \<Rightarrow> versions" where
  "NewVersions img vs =
     (case groupVersions vs of (byDigest, sizes, order) \<Rightarrow>
        let sizesOf = (\<lambda>d. case sizes d of Some s \<Rightarrow> s | None \<Rightarrow> []);
            archs = publishedArchitectures (map sizesOf order);
            releases = map (\<lambda>d. finishRelease archs (sizesOf d) (the (byDigest d))) order
        in \<lparr>vs_Image = img, vs_Architectures = archs,
            vs_Releases = sort_stable compareRelease releases,
            vs_Logo = '''', vs_Topbar = no_topbar, vs_SBOM = '''', vs_Vulnerabilities = '''',
            vs_History = ''''\<rparr>)"

section \<open>Tag order\<close>

text \<open>
  The tags the order is an order on: a version tag has a small epoch, a well-formed upstream
  version that starts with a digit, and a variant that does not start with the number 0.
\<close>

definition variant_ok :: "string \<Rightarrow> bool" where
  "variant_ok s \<longleftrightarrow> frag_tail s \<and> (at_digit s \<longrightarrow> run_val s \<noteq> 0)"

definition tag_ok :: "string \<Rightarrow> bool" where
  "tag_ok t \<longleftrightarrow> (case splitVersion t of (e, u, r) \<Rightarrow> \<bar>e\<bar> < 2 ^ 62 \<and> variant_ok r \<and> frag_ok u)"

lemma variant_ok_comparable: "variant_ok a \<Longrightarrow> variant_ok b \<Longrightarrow> comparable a b"
  by (simp add: variant_ok_def comparable_def)

definition tkey :: "string \<Rightarrow> int \<times> int list \<times> int list" where
  "tkey v = (case splitVersion v of (e, u, r) \<Rightarrow> (e, nkey u, nkey r))"

lemma three_way_fragments: "three_way compareFragment variant_ok"
proof (rule three_way_sgn)
  show "three_way (\<lambda>a b. cmp_compare (nkey a) (nkey b)) variant_ok"
    by (rule three_way_key)
  show "\<And>a b. variant_ok a \<Longrightarrow> variant_ok b \<Longrightarrow>
      sgn (compareFragment a b) = sgn (cmp_compare (nkey a) (nkey b))"
    by (metis compareFragment_key variant_ok_comparable sgn_sgn)
qed

lemma three_way_upstream: "three_way compareFragment frag_ok"
proof (rule three_way_sgn)
  show "three_way (\<lambda>a b. cmp_compare (nkey a) (nkey b)) frag_ok"
    by (rule three_way_key)
  show "\<And>a b. frag_ok a \<Longrightarrow> frag_ok b \<Longrightarrow>
      sgn (compareFragment a b) = sgn (cmp_compare (nkey a) (nkey b))"
    by (metis compareFragment_key frag_ok_comparable sgn_sgn)
qed

interpretation version_tags: three_way compareVersionTag tag_ok
proof (rule three_way_sgn)
  let ?e = "\<lambda>a. fst (splitVersion a)" and ?u = "\<lambda>a. fst (snd (splitVersion a))"
    and ?r = "\<lambda>a. snd (snd (splitVersion a))"
  let ?c = "\<lambda>a b. cmp_or [cmp_compare (?e b) (?e a), compareFragment (?u b) (?u a),
     compareFragment (?r a) (?r b)]"
  show "three_way ?c tag_ok"
  proof (rule three_way_cmp_or3)
    show "three_way (\<lambda>a b. cmp_compare (?e b) (?e a)) tag_ok"
      by (rule three_way_reverse) (rule three_way_key)
    show "three_way (\<lambda>a b. compareFragment (?u b) (?u a)) tag_ok"
      by (rule three_way_reverse, rule three_way_weaken, rule three_way_pullback [OF three_way_upstream])
        (auto simp: tag_ok_def)
    show "three_way (\<lambda>a b. compareFragment (?r a) (?r b)) tag_ok"
      by (rule three_way_weaken, rule three_way_pullback [OF three_way_fragments])
        (auto simp: tag_ok_def)
  qed
  fix a b assume ok: "tag_ok a" "tag_ok b"
  obtain e u r where a: "splitVersion a = (e, u, r)" by (metis prod_cases3)
  obtain e' u' r' where b: "splitVersion b = (e', u', r')" by (metis prod_cases3)
  have "\<bar>e\<bar> < 2 ^ 62" "\<bar>e'\<bar> < 2 ^ 62" using ok a b by (auto simp: tag_ok_def)
  then have "wrap64 (e' - e) = e' - e" by (simp add: wrap64_epochs)
  then show "sgn (compareVersionTag a b) = sgn (?c a b)"
    using compareFragment_swap [of u' u]
    by (simp add: compareVersionTag_def a b cmp_compare_def)
qed

lemma tagRank_values: "tagRank t = tagLatest \<or> tagRank t = tagName \<or> tagRank t = tagVersion"
  by (simp add: tagRank_def)

definition tag_valid :: "string \<Rightarrow> bool" where
  "tag_valid t \<longleftrightarrow> (tagRank t = tagVersion \<longrightarrow> tag_ok t)"

interpretation tag_order: three_way compareTag tag_valid
proof -
  have "three_way (\<lambda>a b. if tagRank a = tagVersion then compareVersionTag a b else cmp_compare a b)
      (\<lambda>a. tag_valid a \<and> tagRank a = k)" for k
  proof (cases "k = tagVersion")
    case True
    then have "three_way compareVersionTag (\<lambda>a. tag_valid a \<and> tagRank a = k)"
      by (intro three_way_weaken [OF version_tags.three_way_axioms]) (simp add: tag_valid_def)
    from three_way_sgn [OF this] show ?thesis using True by auto
  next
    case False
    have "three_way (cmp_compare :: string \<Rightarrow> string \<Rightarrow> int) (\<lambda>a. tag_valid a \<and> tagRank a = k)"
      by (rule three_way_compare)
    from three_way_sgn [OF this] show ?thesis using False by auto
  qed
  then have "three_way (\<lambda>a b. if cmp_compare (tagRank a) (tagRank b) \<noteq> 0
      then cmp_compare (tagRank a) (tagRank b)
      else if tagRank a = tagVersion then compareVersionTag a b else cmp_compare a b) tag_valid"
    by (rule three_way_grouped)
  moreover have "compareTag = (\<lambda>a b. if cmp_compare (tagRank a) (tagRank b) \<noteq> 0
      then cmp_compare (tagRank a) (tagRank b)
      else if tagRank a = tagVersion then compareVersionTag a b else cmp_compare a b)"
    by (intro ext) (simp add: compareTag_def Let_def)
  ultimately show "three_way compareTag tag_valid" by simp
qed

section \<open>Grouping\<close>

text \<open>The tags a release carries, and the invariant of the first loop.\<close>

definition tag_names :: "release \<Rightarrow> string list" where
  "tag_names r = map tag_Name (rel_Tags r)"

definition named_by :: "version list \<Rightarrow> string \<Rightarrow> string list" where
  "named_by vs d = map v_Tag (filter (\<lambda>v. v_Digest v = d) vs)"

lemma named_by_snoc: "named_by (vs @ [v]) d = named_by vs d @ (if v_Digest v = d then [v_Tag v] else [])"
  by (simp add: named_by_def)

lemma find_snoc: "find P (xs @ [x]) = (case find P xs of Some y \<Rightarrow> Some y | None \<Rightarrow> if P x then Some x else None)"
  by (induction xs) auto

definition group_ok :: "version list \<Rightarrow> grouping \<Rightarrow> string \<Rightarrow> bool" where
  "group_ok vs st d \<longleftrightarrow> (case st of (byDigest, sizes, order) \<Rightarrow>
     \<exists>r v. byDigest d = Some r \<and> rel_Digest r = d \<and> tag_names r = named_by vs d \<and> rel_Tags r \<noteq> [] \<and>
       find (\<lambda>v. v_Digest v = d) vs = Some v \<and> rel_Created r = v_Created v \<and> sizes d = Some (v_Sizes v))"

lemma groupVersions_inv:
  assumes "groupVersions vs = (byDigest, sizes, order)"
  shows "distinct order \<and> set order = v_Digest ` set vs \<and> dom byDigest = set order \<and>
    (\<forall>d \<in> set order. group_ok vs (byDigest, sizes, order) d)"
  using assms
proof (induction vs arbitrary: byDigest sizes order rule: rev_induct)
  case Nil
  then show ?case by (simp add: groupVersions_def)
next
  case (snoc v vs)
  obtain bd sz od where st: "groupVersions vs = (bd, sz, od)" by (metis prod_cases3)
  have step: "groupVersions (vs @ [v]) = groupVersion v (bd, sz, od)"
    using st by (simp add: groupVersions_def)
  have ih: "distinct od" "set od = v_Digest ` set vs" "dom bd = set od"
    and ok: "\<And>d. d \<in> set od \<Longrightarrow> group_ok vs (bd, sz, od) d" using snoc.IH [OF st] by blast+
  let ?d = "v_Digest v" and ?tag = "\<lparr>tag_Name = v_Tag v, tag_URL = ''''\<rparr>"
  show ?case
  proof (cases "bd ?d")
    case None
    then have new: "?d \<notin> set od" using ih(3) by auto
    then have none: "find (\<lambda>u. v_Digest u = ?d) vs = None" "named_by vs ?d = []"
      using ih(2) by (simp_all add: find_None_iff named_by_def filter_empty_conv) (metis image_eqI)+
    let ?r = "\<lparr>rel_Digest = ?d, rel_Tags = [?tag], rel_Created = v_Created v, rel_Sizes = [], rel_SBOM = ''''\<rparr>"
    have eq: "byDigest = bd(?d := Some ?r)" "sizes = sz(?d := Some (v_Sizes v))" "order = od @ [?d]"
      using snoc.prems None unfolding step by (simp_all add: groupVersion_def Let_def)
    have "group_ok (vs @ [v]) (byDigest, sizes, order) d" if d: "d \<in> set order" for d
    proof (cases "d = ?d")
      case True
      then show ?thesis
        unfolding eq group_ok_def using none by (simp add: named_by_snoc find_snoc tag_names_def)
    next
      case False
      then have "group_ok vs (bd, sz, od) d" using d ok eq by simp
      then show ?thesis
        using False unfolding eq group_ok_def by (auto simp: named_by_snoc find_snoc)
    qed
    moreover have "distinct order" "set order = v_Digest ` set (vs @ [v])" "dom byDigest = set order"
      using ih new unfolding eq by auto
    ultimately show ?thesis by blast
  next
    case (Some r)
    then have old: "?d \<in> set od" using ih(3) by auto
    have eq: "byDigest = bd(?d := Some (r\<lparr>rel_Tags := rel_Tags r @ [?tag]\<rparr>))" "sizes = sz" "order = od"
      using snoc.prems Some unfolding step by (simp_all add: groupVersion_def Let_def)
    have "group_ok (vs @ [v]) (byDigest, sizes, order) d" if d: "d \<in> set order" for d
    proof (cases "d = ?d")
      case True
      then show ?thesis
        using ok [OF old] Some unfolding eq group_ok_def
        by (auto simp: named_by_snoc find_snoc tag_names_def)
    next
      case False
      then have "group_ok vs (bd, sz, od) d" using d ok eq by simp
      then show ?thesis
        using False unfolding eq group_ok_def by (auto simp: named_by_snoc find_snoc)
    qed
    moreover have "distinct order" "set order = v_Digest ` set (vs @ [v])" "dom byDigest = set order"
      using ih old unfolding eq by auto
    ultimately show ?thesis by blast
  qed
qed

text \<open>What a finished release is.\<close>

definition tags_in_order :: "release \<Rightarrow> bool" where
  "tags_in_order r \<longleftrightarrow>
     (\<exists>ts. rel_Tags r = sort_stable (\<lambda>a b. compareTag (tag_Name a) (tag_Name b)) ts)"

lemma NewVersions_releases:
  fixes img vs
  defines "N \<equiv> NewVersions img vs"
  shows "\<exists>order rel. distinct order \<and> set order = v_Digest ` set vs \<and>
    vs_Releases N = sort_stable compareRelease (map rel order) \<and>
    (\<forall>d \<in> set order. rel_Digest (rel d) = d \<and> mset (tag_names (rel d)) = mset (named_by vs d) \<and>
       rel_Tags (rel d) \<noteq> [] \<and> length (rel_Sizes (rel d)) = length (vs_Architectures N) \<and>
       tags_in_order (rel d))"
proof -
  obtain bd sz od where st: "groupVersions vs = (bd, sz, od)" by (metis prod_cases3)
  note inv = groupVersions_inv [OF st]
  let ?sz = "\<lambda>d. case sz d of Some s \<Rightarrow> s | None \<Rightarrow> []"
  let ?archs = "publishedArchitectures (map ?sz od)"
  let ?rel = "\<lambda>d. finishRelease ?archs (?sz d) (the (bd d))"
  have N: "vs_Architectures N = ?archs" "vs_Releases N = sort_stable compareRelease (map ?rel od)"
    by (simp_all add: N_def NewVersions_def st Let_def)
  have "rel_Digest (?rel d) = d \<and> mset (tag_names (?rel d)) = mset (named_by vs d) \<and>
       rel_Tags (?rel d) \<noteq> [] \<and> length (rel_Sizes (?rel d)) = length (vs_Architectures N) \<and>
       tags_in_order (?rel d)" if "d \<in> set od" for d
  proof -
    have "group_ok vs (bd, sz, od) d" using inv that by blast
    then obtain r where r: "bd d = Some r" "rel_Digest r = d" "tag_names r = named_by vs d" "rel_Tags r \<noteq> []"
      unfolding group_ok_def prod.case by blast
    then have "tags_in_order (?rel d)" unfolding tags_in_order_def finishRelease_def by auto
    moreover have "mset (tag_names (?rel d)) = mset (tag_names r)"
      using r(1) unfolding tag_names_def finishRelease_def mset_map by simp
    ultimately show ?thesis using r by (simp add: finishRelease_def N(1))
  qed
  then show ?thesis using inv N(2) by blast
qed

lemma sum_once:
  "distinct xs \<Longrightarrow> a \<in> set xs \<Longrightarrow> (\<Sum>d\<in>#mset xs. if d = a then X else {#}) = X"
proof (induction xs)
  case (Cons x xs)
  have "a \<notin> set xs \<Longrightarrow> (\<Sum>d\<in>#mset xs. if d = a then X else {#}) = {#}" for xs
    by (induction xs) auto
  with Cons show ?case by (cases "x = a") auto
qed simp

lemma grouped_all:
  assumes "distinct order" "v_Digest ` set vs \<subseteq> set order"
  shows "mset (concat (map (\<lambda>d. map (Pair d) (named_by vs d)) order))
    = mset (map (\<lambda>v. (v_Digest v, v_Tag v)) vs)"
  using assms(2)
proof (induction vs)
  case Nil
  then show ?case by (simp add: named_by_def)
next
  case (Cons v vs)
  have "mset (map (Pair d) (named_by (v # vs) d))
      = mset (map (Pair d) (named_by vs d)) + (if d = v_Digest v then {#(v_Digest v, v_Tag v)#} else {#})" for d
    by (simp add: named_by_def)
  then have "mset (concat (map (\<lambda>d. map (Pair d) (named_by (v # vs) d)) order))
      = (\<Sum>d\<in>#mset order. mset (map (Pair d) (named_by vs d)))
        + (\<Sum>d\<in>#mset order. if d = v_Digest v then {#(v_Digest v, v_Tag v)#} else {#})"
    unfolding mset_concat_sum by (simp only: sum_mset.distrib)
  also have "\<dots> = mset (map (\<lambda>v. (v_Digest v, v_Tag v)) vs) + {#(v_Digest v, v_Tag v)#}"
    using Cons sum_once [OF assms(1), of "v_Digest v"] unfolding mset_concat_sum by simp
  finally show ?case by simp
qed

lemma compareTag_latest:
  "compareTag defaultRef y = (if y = defaultRef then 0 else -1)"
  "compareTag y defaultRef = (if y = defaultRef then 0 else 1)"
  by (simp_all add: compareTag_def Let_def tagRank_def cmp_compare_def tagLatest_def tagName_def
      tagVersion_def)

lemma tags_in_order_latest:
  assumes "tags_in_order r" "defaultRef \<in> set (tag_names r)"
  shows "namesLatest r"
proof -
  let ?c = "\<lambda>a b. compareTag (tag_Name a) (tag_Name b)"
  obtain ts where ts: "rel_Tags r = sort_stable ?c ts" using assms(1) by (auto simp: tags_in_order_def)
  obtain t where "t \<in> set ts" "tag_Name t = defaultRef"
    using assms(2) ts by (auto simp: tag_names_def)
  then obtain as m bs where split: "ts = as @ m # bs" "tag_Name m = defaultRef"
    "\<forall>y \<in> set as. tag_Name y \<noteq> defaultRef"
    using split_list_first_prop [of ts "\<lambda>t. tag_Name t = defaultRef"] by blast
  have "\<exists>ys. sort_stable ?c ts = m # ys"
    using split by (intro sort_stable_least [OF split(1)]) (simp_all add: compareTag_latest)
  then show ?thesis using split(2) ts by (auto simp: namesLatest_def)
qed

section \<open>What the versions page promises\<close>

text \<open>
  C19: the versions page groups the published tags by the build they name: builds are distinct,
  each release has a tag and one size per architecture column, and the (digest, tag) pairs of
  the releases are exactly those of the registry, none lost and none repeated.
\<close>

theorem NewVersions_groups:
  "let N = NewVersions img vs in
    mset (concat (map (\<lambda>r. map (Pair (rel_Digest r)) (tag_names r)) (vs_Releases N)))
      = mset (map (\<lambda>v. (v_Digest v, v_Tag v)) vs) \<and>
    distinct (map rel_Digest (vs_Releases N)) \<and>
    list_all (\<lambda>r. rel_Tags r \<noteq> [] \<and> length (rel_Sizes r) = length (vs_Architectures N)) (vs_Releases N)"
proof -
  define N where "N = NewVersions img vs"
  obtain order rel where o: "distinct order" "set order = v_Digest ` set vs"
    "vs_Releases N = sort_stable compareRelease (map rel order)"
    and r: "\<And>d. d \<in> set order \<Longrightarrow> rel_Digest (rel d) = d \<and> mset (tag_names (rel d)) = mset (named_by vs d)
      \<and> rel_Tags (rel d) \<noteq> [] \<and> length (rel_Sizes (rel d)) = length (vs_Architectures N)"
    using NewVersions_releases [of vs img] unfolding N_def by blast
  have "mset (concat (map (\<lambda>r. map (Pair (rel_Digest r)) (tag_names r)) (vs_Releases N)))
      = mset (concat (map (\<lambda>r. map (Pair (rel_Digest r)) (tag_names r)) (map rel order)))"
    unfolding o(3) by (rule mset_concat_perm) simp
  also have "\<dots> = mset (concat (map (\<lambda>d. map (Pair d) (named_by vs d)) order))"
    using r by (intro mset_concat_cong) simp
  also have "\<dots> = mset (map (\<lambda>v. (v_Digest v, v_Tag v)) vs)"
    using o by (intro grouped_all) auto
  finally have 1: "mset (concat (map (\<lambda>r. map (Pair (rel_Digest r)) (tag_names r)) (vs_Releases N)))
      = mset (map (\<lambda>v. (v_Digest v, v_Tag v)) vs)" .
  have "map rel_Digest (map rel order) = order" using r by (intro nth_equalityI) auto
  then have "mset (map rel_Digest (vs_Releases N)) = mset order"
    unfolding o(3) by (metis mset_map mset_sort_stable)
  then have 2: "distinct (map rel_Digest (vs_Releases N))"
    using o(1) mset_eq_imp_distinct_iff by blast
  have 3: "list_all (\<lambda>r. rel_Tags r \<noteq> [] \<and> length (rel_Sizes r) = length (vs_Architectures N)) (vs_Releases N)"
    unfolding o(3) list_all_iff using r by auto
  show ?thesis using 1 2 3 unfolding N_def [symmetric] Let_def by blast
qed

text \<open>
  Whatever a bare pull would get comes first: when the tags are distinct and one of them is
  latest, the first release is the build it names, and latest is that release's first tag.
\<close>

theorem NewVersions_latest_first:
  assumes "distinct (map v_Tag vs)" and "v \<in> set vs" "v_Tag v = defaultRef"
  shows "\<exists>r rs. vs_Releases (NewVersions img vs) = r # rs \<and> rel_Digest r = v_Digest v \<and> namesLatest r"
proof -
  obtain order rel where o: "distinct order" "set order = v_Digest ` set vs"
    "vs_Releases (NewVersions img vs) = sort_stable compareRelease (map rel order)"
    and r: "\<And>d. d \<in> set order \<Longrightarrow> rel_Digest (rel d) = d \<and> mset (tag_names (rel d)) = mset (named_by vs d)
      \<and> rel_Tags (rel d) \<noteq> [] \<and> tags_in_order (rel d)"
    using NewVersions_releases [of vs img] by blast
  have names: "set (tag_names (rel d)) = v_Tag ` {u \<in> set vs. v_Digest u = d}" if "d \<in> set order" for d
    using mset_eq_setD [of "tag_names (rel d)" "named_by vs d"] r [OF that] by (simp add: named_by_def)
  have in_order: "v_Digest v \<in> set order" using o(2) assms(2) by simp
  have L: "namesLatest (rel (v_Digest v))"
    using r [OF in_order] names [OF in_order] assms(2,3)
    by (intro tags_in_order_latest) (auto intro!: image_eqI [of _ _ v])
  have notL: "\<not> namesLatest (rel d)" if d: "d \<in> set order" "d \<noteq> v_Digest v" for d
  proof
    assume "namesLatest (rel d)"
    then have "defaultRef \<in> set (tag_names (rel d))"
      by (auto simp: namesLatest_def tag_names_def intro!: image_eqI [of _ _ "hd (rel_Tags (rel d))"])
    then obtain u where u: "u \<in> set vs" "v_Digest u = d" "v_Tag u = defaultRef"
      using names [OF d(1)] by auto
    then have "u = v" using assms by (simp add: distinct_map inj_on_def)
    with u d show False by simp
  qed
  obtain as bs where split: "order = as @ v_Digest v # bs" using in_order by (meson split_list)
  have other: "\<not> namesLatest (rel d)" if "d \<in> set as \<union> set bs" for d
    using that notL o(1) unfolding split by auto
  have "\<exists>ys. sort_stable compareRelease (map rel order) = rel (v_Digest v) # ys"
  proof (rule sort_stable_least)
    show "map rel order = map rel as @ rel (v_Digest v) # map rel bs" by (simp add: split)
  qed (use L other in \<open>auto simp: compareRelease_def compareNamedLatest_def\<close>)
  then show ?thesis using o(3) r [OF in_order] L by auto
qed

definition sample_version :: "string \<Rightarrow> string \<Rightarrow> version" where
  "sample_version tag digest = \<lparr>v_Tag = tag, v_Digest = digest, v_Created = 0, v_Sizes = []\<rparr>"

theorem NewVersions_latest_first_witness:
  "\<exists>r rs. vs_Releases (NewVersions ''nginx'' [sample_version ''1.29'' ''a'', sample_version ''latest'' ''b'',
      sample_version ''1.31'' ''b'']) = r # rs \<and> rel_Digest r = ''b''"
  using NewVersions_latest_first [of "[sample_version ''1.29'' ''a'', sample_version ''latest'' ''b'',
      sample_version ''1.31'' ''b'']" "sample_version ''latest'' ''b''" "''nginx''"]
  by (auto simp: sample_version_def defaultRef_def)

text \<open>
  A plain version tag comes before its variants: 1.31 before 1.31-debug, although a Debian
  revision would outrank its absence.
\<close>

theorem compareTag_plain_before_variant:
  assumes "tagRank u = tagVersion" "CHR '':'' \<notin> set u" "CHR ''-'' \<notin> set u"
    and "variant_ok x" "x \<noteq> ''''" "hd x \<noteq> CHR ''~''" "CHR ''-'' \<notin> set x" "CHR '':'' \<notin> set x"
  shows "compareTag u (u @ ''-'' @ x) < 0"
proof -
  have colon: "index_byte u CHR '':'' = None" "index_byte (u @ ''-'' @ x) CHR '':'' = None"
    using assms by (simp_all add: index_byte_None_iff)
  have "last_index_byte (u @ CHR ''-'' # x) CHR ''-'' = Some (length u)"
    using assms(7) by (rule last_index_byte_append)
  then have split: "splitVersion u = (0, u, [])" "splitVersion (u @ ''-'' @ x) = (0, u, x)"
    using colon last_index_byte_None_iff [THEN iffD2, OF assms(3)] by (simp_all add: splitVersion_def)
  have same: "compareFragment u u = 0" using compareFragment_swap [of u u] by simp
  have "0 < (if isDigit (hd x) then 304 else rank (hd x))"
    using assms(6) byte_bounds [of "hd x"] by (auto simp: rank_def isLetter_def)
  then have "cmp_compare (nkey []) (nkey x) = -1"
    using nkey_hd [of x] assms(5) by (auto simp: cmp_compare_Cons)
  moreover have "comparable [] x"
    using assms(4) by (simp add: comparable_def variant_ok_def frag_tail_def at_digit_def [of "[]"])
  ultimately have neg: "compareFragment [] x < 0"
    using compareFragment_key [of "[]" x] by (simp add: sgn_if split: if_splits)
  have hd: "u \<noteq> ''''" "u \<noteq> defaultRef" "\<not> byte (hd u) < 48 \<and> \<not> 57 < byte (hd u)"
    using assms(1) by (auto simp: tagRank_def tagVersion_def tagName_def tagLatest_def split: if_splits)
  moreover have "u @ ''-'' @ x \<noteq> defaultRef"
  proof
    assume "u @ ''-'' @ x = defaultRef"
    then have "CHR ''-'' \<in> set defaultRef" by (metis UnCI list.set_intros(1) set_append append_Cons)
    then show False by (simp add: defaultRef_def)
  qed
  ultimately have "tagRank (u @ ''-'' @ x) = tagVersion" by (simp add: tagRank_def)
  then show ?thesis
    using assms(1) neg same split [simplified]
    by (simp add: compareTag_def compareVersionTag_def wrap64_id in_int64_def)
qed

theorem compareTag_plain_before_variant_witness:
  "compareTag ''1.31'' (''1.31'' @ ''-'' @ ''debug'') < 0"
  by (rule compareTag_plain_before_variant; code_simp)

end
