(* ===== verification/Directory_Handler.thy ===== *)
theory Directory_Handler
  imports Release_Versions History_Page Go_Url "HOL-Library.AList"
begin

text \<open>
  web/internal/directory/page.go and catalog.go: the handler of the directory pages. A request
  is its method, the unescaped segments of its path (what \<open>http.ServeMux\<close> matches and
  \<open>PathValue\<close> returns), its raw query and its If-None-Match header; a response is a status, its
  headers and a body. The embedded assets and the rendering of the templates (which are not Go)
  are parameters; \<open>Source\<close> is a record of functions, one per method of the interface, and the
  locale \<open>evidence_source\<close> the laws its provider keeps. The bodies that \<open>http.Redirect\<close> and the
  file server write_body are left out: a redirect has none here, a file is its name.

  The lemmas show that a malformed reference never reaches the source, what is cached for how
  long, that the links a page builds lead back to the handler they mean, and that no reader's
  input reaches a header unescaped.
\<close>

section \<open>Requests, responses, the environment\<close>

record request =
  Method :: string
  Segments :: "string list"
  RawQuery :: string
  IfNoneMatch :: string

datatype body = NoBody | Text string | File string

record response =
  StatusCode :: nat
  Header :: "(string \<times> string) list"
  Body :: body

definition fresh :: response where
  "fresh = \<lparr>StatusCode = 200, Header = [], Body = NoBody\<rparr>"

definition set_header :: "string \<Rightarrow> string \<Rightarrow> response \<Rightarrow> response" where
  "set_header k v w = w\<lparr>Header := AList.update k v (Header w)\<rparr>"

definition header_of :: "response \<Rightarrow> string \<Rightarrow> string option" where
  "header_of w k = map_of (Header w) k"

definition write_body :: "string \<Rightarrow> response \<Rightarrow> response" where
  "write_body s w = w\<lparr>Body := Text s\<rparr>"

definition write_status :: "nat \<Rightarrow> response \<Rightarrow> response" where
  "write_status n w = w\<lparr>StatusCode := n\<rparr>"

definition http_Error :: "string \<Rightarrow> nat \<Rightarrow> response \<Rightarrow> response" where
  "http_Error msg code w =
     write_body (msg @ newline)
       (write_status code
         (set_header ''X-Content-Type-Options'' ''nosniff''
           (set_header ''Content-Type'' ''text/plain; charset=utf-8'' w)))"

text \<open>\<open>path.Clean\<close> of a rooted path, as \<open>http.Redirect\<close> applies it before the query.\<close>

fun clean_segments :: "string list \<Rightarrow> string list \<Rightarrow> string list" where
  "clean_segments acc [] = rev acc"
| "clean_segments acc (s # ss) =
     (if s = '''' \<or> s = ''.'' then clean_segments acc ss
      else if s = ''..'' then clean_segments (tl acc) ss
      else clean_segments (s # acc) ss)"

definition clean_path :: "string \<Rightarrow> string" where
  "clean_path p =
     (let segs = clean_segments [] (split_byte p CHR ''/'')
      in ''/'' @ join ''/'' segs @ (if segs \<noteq> [] \<and> has_suffix p ''/'' then ''/'' else ''''))"

definition redirect_location :: "string \<Rightarrow> string" where
  "redirect_location target =
     (case cut_byte target CHR ''?'' of
        Some (p, q) \<Rightarrow> clean_path p @ ''?'' @ q
      | None \<Rightarrow> clean_path target)"

definition http_Redirect :: "string \<Rightarrow> nat \<Rightarrow> response \<Rightarrow> response" where
  "http_Redirect target code w = write_status code (set_header ''Location'' (redirect_location target) w)"

record source =
  src_SBOM :: "string \<Rightarrow> string \<Rightarrow> (string \<times> component list) result"
  src_Document :: "string \<Rightarrow> string \<Rightarrow> (string \<times> string) result"
  src_Scan :: "string \<Rightarrow> string \<Rightarrow> (string \<times> scan) result"
  src_ScanDocument :: "string \<Rightarrow> string \<Rightarrow> (string \<times> string) result"
  src_Versions :: "string \<Rightarrow> version list result"
  src_Tags :: "string \<Rightarrow> string list result"
  src_Moves :: "string \<Rightarrow> move list result"
  src_Scans :: "string \<Rightarrow> string \<Rightarrow> (string \<times> scan list) result"

section \<open>References\<close>

definition tag_char :: "char \<Rightarrow> bool" where
  "tag_char c \<longleftrightarrow> isLetter c \<or> isDigit c \<or> c = CHR ''.'' \<or> c = CHR ''_'' \<or> c = CHR ''-''"

definition tagPattern :: "string \<Rightarrow> bool" where
  "tagPattern s \<longleftrightarrow> s \<noteq> '''' \<and> (isLetter (hd s) \<or> isDigit (hd s) \<or> hd s = CHR ''_'') \<and>
     length s \<le> 128 \<and> list_all tag_char (tl s)"

definition hex_char :: "char \<Rightarrow> bool" where
  "hex_char c \<longleftrightarrow> isDigit c \<or> (97 \<le> byte c \<and> byte c \<le> 102)"

definition digestPattern :: "string \<Rightarrow> bool" where
  "digestPattern s \<longleftrightarrow>
     (case cut_prefix s ''sha256:'' of
        Some h \<Rightarrow> length h = 64 \<and> list_all hex_char h
      | None \<Rightarrow> False)"

definition isDigest :: "string \<Rightarrow> bool" where
  "isDigest ref \<longleftrightarrow> contains_str ref '':''"

definition validRef :: "string \<Rightarrow> bool" where
  "validRef ref \<longleftrightarrow> (if isDigest ref then digestPattern ref else tagPattern ref)"

section \<open>Names and addresses\<close>

definition viewSBOM :: string where "viewSBOM = ''sbom''"
definition viewVulnerabilities :: string where "viewVulnerabilities = ''vulnerabilities''"
definition viewHistory :: string where "viewHistory = ''history''"
definition viewVersions :: string where "viewVersions = ''versions''"
definition assetPrefix :: string where "assetPrefix = ''/directory/static/''"
definition indexURL :: string where "indexURL = ''/directory''"

definition archQuery :: "string \<Rightarrow> string" where
  "archQuery arch = (if arch = '''' then '''' else ''?arch='' @ QueryEscape arch)"

definition pullName :: "string \<Rightarrow> string \<Rightarrow> string \<Rightarrow> string" where
  "pullName mirror family ref =
     (if isDigest ref then mirror @ ''/'' @ family @ ''@'' @ ref else mirror @ ''/'' @ family @ '':'' @ ref)"

definition familyURL :: "string \<Rightarrow> string \<Rightarrow> string" where
  "familyURL family resource = ''/directory/image/'' @ PathEscape family @ ''/'' @ resource"

definition resourceURL :: "string \<Rightarrow> string \<Rightarrow> string \<Rightarrow> string" where
  "resourceURL family ref resource =
     ''/directory/image/'' @ PathEscape family @ ''/'' @ PathEscape ref @ ''/'' @ resource"

text \<open>\<open>strings.Map\<close> over runes: what is not a byte of a safe name becomes one hyphen per rune.\<close>

definition safe_name_char :: "char \<Rightarrow> bool" where
  "safe_name_char c \<longleftrightarrow> isLetter c \<or> isDigit c \<or> c = CHR ''.'' \<or> c = CHR ''_'' \<or> c = CHR ''-''"

definition nameForFile :: "string \<Rightarrow> string" where
  "nameForFile s =
     concat (map (\<lambda>r. case r of [c] \<Rightarrow> if safe_name_char c then [c] else ''-'' | _ \<Rightarrow> ''-'') (runes s))"

definition downloadName :: "string \<Rightarrow> string \<Rightarrow> string \<Rightarrow> string \<Rightarrow> string" where
  "downloadName family ref digest extension =
     nameForFile family @ (if isDigest ref then '''' else ''-'' @ nameForFile ref)
     @ ''-'' @ shortDigest digest @ extension"

section \<open>The catalogue\<close>

record family =
  fam_Name :: string
  fam_Summary :: string

definition families :: "family list" where
  "families = map (\<lambda>(n, s). \<lparr>fam_Name = n, fam_Summary = s\<rparr>)
     [(''bash'', ''A shell, for entrypoint scripts and build steps''),
      (''java'', ''Temurin JRE, one tag per LTS line, with the JDK on debug tags''),
      (''node'', ''Node.js, one tag per release line''),
      (''nginx'', ''nginx stable and mainline, serving a webroot as nonroot''),
      (''python'', ''Python 3.11 to 3.14, one tag per line, with every library it links as its own package''),
      (''static'', ''Certificates, time zones and a nonroot user: the base for Go, Rust and static binaries''),
      (''cc'', ''static plus glibc, libstdc++ and OpenSSL, for dynamically linked programs'')]"

record card =
  card_Family :: family
  card_URL :: string
  card_Logo :: string

record index_page =
  ix_Mirror :: string
  ix_Cards :: "card list"
  ix_Topbar :: topbar

definition logo :: "(string \<Rightarrow> string option) \<Rightarrow> string \<Rightarrow> string" where
  "logo assets family =
     (case assets (''static/logos/'' @ family @ ''.svg'') of
        Some svg \<Rightarrow> svg
      | None \<Rightarrow> (case assets ''static/logos/generic.svg'' of Some svg \<Rightarrow> svg | None \<Rightarrow> ''''))"

definition topbar_for :: "(string \<Rightarrow> string option) \<Rightarrow> string \<Rightarrow> string \<Rightarrow> string \<Rightarrow> topbar" where
  "topbar_for assets mirror view query =
     \<lparr>Mirror = mirror,
      Candidates = map (\<lambda>f. \<lparr>cand_Name = fam_Name f, cand_URL = familyURL (fam_Name f) view @ query,
                             cand_Logo = logo assets (fam_Name f)\<rparr>) families\<rparr>"

definition NewIndex :: "(string \<Rightarrow> string option) \<Rightarrow> string \<Rightarrow> index_page" where
  "NewIndex assets mirror =
     \<lparr>ix_Mirror = mirror,
      ix_Cards = map (\<lambda>f. \<lparr>card_Family = f, card_URL = familyURL (fam_Name f) ''versions'',
                           card_Logo = logo assets (fam_Name f)\<rparr>) families,
      ix_Topbar = no_topbar\<rparr>"

section \<open>Built assets\<close>

record content_addressed =
  ca_urls :: "(string \<times> string) list"
  ca_files :: "(string \<times> string) list"

definition path_Base :: "string \<Rightarrow> string" where
  "path_Base p = last (split_byte p CHR ''/'')"

definition path_Ext :: "string \<Rightarrow> string" where
  "path_Ext p = (case last_index_byte p CHR ''.'' of Some i \<Rightarrow> drop i p | None \<Rightarrow> '''')"

text \<open>The loop of \<open>hashed\<close> over the files and their contents; a missing file is a panic, \<open>None\<close>.\<close>

fun hashed_loop :: "(string \<Rightarrow> string option) \<Rightarrow> string list \<Rightarrow> content_addressed \<Rightarrow> content_addressed option" where
  "hashed_loop fsys [] built = Some built"
| "hashed_loop fsys (file # files) built =
     (case fsys file of
        None \<Rightarrow> None
      | Some content \<Rightarrow>
          let name = path_Base file; extension = path_Ext name;
              href = assetPrefix @ trim_suffix name extension @ ''.''
                     @ hex_encode (take 6 (sha256 content)) @ extension
          in hashed_loop fsys files
               (built\<lparr>ca_urls := AList.update name href (ca_urls built),
                      ca_files := AList.update href file (ca_files built)\<rparr>))"

definition hashed :: "(string \<Rightarrow> string option) \<Rightarrow> string list \<Rightarrow> content_addressed option" where
  "hashed fsys files = hashed_loop fsys files \<lparr>ca_urls = [], ca_files = []\<rparr>"

definition asset_url :: "content_addressed \<Rightarrow> string \<Rightarrow> string result" where
  "asset_url c name =
     (case map_of (ca_urls c) name of
        Some href \<Rightarrow> Inr href
      | None \<Rightarrow> Inl (''no built asset named '' @ name))"

section \<open>The handlers\<close>

datatype page_data =
    PIndex index_page
  | PVersions versions
  | PTable table
  | PReport report
  | PHistory history

record env =
  Src :: source
  MirrorName :: string
  Assets :: "string \<Rightarrow> string option"
  Built :: content_addressed
  Render :: "string \<Rightarrow> page_data \<Rightarrow> string option"

definition writePage :: "env \<Rightarrow> string \<Rightarrow> page_data \<Rightarrow> response \<Rightarrow> response" where
  "writePage e name data w =
     (case Render e name data of
        None \<Rightarrow> http_Error ''internal error'' 500 w
      | Some html \<Rightarrow> write_body html (set_header ''Content-Type'' ''text/html; charset=utf-8'' w))"

definition quoted :: "string \<Rightarrow> string" where
  "quoted s = CHR 0x22 # s @ [CHR 0x22]"

definition revalidated :: "request \<Rightarrow> string \<Rightarrow> string \<Rightarrow> response \<Rightarrow> bool \<times> response" where
  "revalidated r ref validator w =
     (let etag = quoted validator;
          w1 = set_header ''ETag'' etag w;
          w2 = set_header ''Cache-Control''
                 (if isDigest ref then ''public, max-age=86400'' else ''public, max-age=300'') w1
      in if contains_str (IfNoneMatch r) etag then (True, write_status 304 w2) else (False, w2))"

definition siblings :: "source \<Rightarrow> string \<Rightarrow> string \<Rightarrow> string \<Rightarrow> tag list" where
  "siblings src family view query =
     (case src_Tags src family of
        Inl _ \<Rightarrow> []
      | Inr tags \<Rightarrow>
          if length tags < 2 then []
          else map (\<lambda>t. \<lparr>tag_Name = t, tag_URL = resourceURL family t view @ query\<rparr>)
                 (sort_stable compareTag tags))"

definition links_for :: "source \<Rightarrow> string \<Rightarrow> string \<Rightarrow> string \<Rightarrow> string \<Rightarrow> string \<Rightarrow> links" where
  "links_for src family ref digest arch view =
     (let query = archQuery arch
      in \<lparr>Download = resourceURL family ref (view @ ''.json''),
          l_SBOM = resourceURL family ref viewSBOM @ query,
          l_Vulnerabilities = resourceURL family ref viewVulnerabilities @ query,
          l_History = resourceURL family ref viewHistory @ query,
          l_Versions = familyURL family viewVersions,
          Permalink = (if isDigest ref then '''' else resourceURL family digest view @ query),
          Showing = (if isDigest ref then shortDigest ref else ref),
          Siblings = siblings src family view query\<rparr>)"

definition bad_reference :: "string \<Rightarrow> response" where
  "bad_reference ref = http_Error (''not an image reference: '' @ ref) 400 fresh"

definition serveIndex :: "env \<Rightarrow> response" where
  "serveIndex e =
     (let w = set_header ''Cache-Control'' ''public, max-age=3600'' fresh;
          ix = NewIndex (Assets e) (MirrorName e)
      in writePage e ''index.html''
           (PIndex (ix\<lparr>ix_Topbar := topbar_for (Assets e) (MirrorName e) viewVersions ''''\<rparr>)) w)"

definition mappingDigest :: "release list \<Rightarrow> string" where
  "mappingDigest releases =
     hex_encode (sha256 (concat (map (\<lambda>r. concat (map (\<lambda>t.
       tag_Name t @ '' '' @ rel_Digest r @ newline) (rel_Tags r))) releases)))"

definition link_release :: "string \<Rightarrow> release \<Rightarrow> release" where
  "link_release family r =
     r\<lparr>rel_SBOM := resourceURL family (rel_Digest r) viewSBOM,
       rel_Tags := map (\<lambda>t. t\<lparr>tag_URL := resourceURL family (tag_Name t) viewSBOM\<rparr>) (rel_Tags r)\<rparr>"

definition serveVersions :: "env \<Rightarrow> request \<Rightarrow> string \<Rightarrow> response" where
  "serveVersions e r family =
     (case src_Versions (Src e) family of
        Inl _ \<Rightarrow> http_Error (''nothing published for '' @ MirrorName e @ ''/'' @ family) 404 fresh
      | Inr published \<Rightarrow>
          let v = NewVersions (MirrorName e @ ''/'' @ family) published;
              v = v\<lparr>vs_Logo := logo (Assets e) family,
                    vs_Topbar := topbar_for (Assets e) (MirrorName e) viewVersions '''',
                    vs_SBOM := resourceURL family defaultRef viewSBOM,
                    vs_Vulnerabilities := resourceURL family defaultRef viewVulnerabilities,
                    vs_History := resourceURL family defaultRef viewHistory,
                    vs_Releases := map (link_release family) (vs_Releases v)\<rparr>;
              etag = quoted (mappingDigest (vs_Releases v));
              w = set_header ''Cache-Control'' ''public, max-age=60'' (set_header ''ETag'' etag fresh)
          in if contains_str (IfNoneMatch r) etag then write_status 304 w
             else writePage e ''versions.html'' (PVersions v) w)"

definition serveSBOM :: "env \<Rightarrow> request \<Rightarrow> string \<Rightarrow> string \<Rightarrow> response" where
  "serveSBOM e r family ref =
     (if \<not> validRef ref then bad_reference ref
      else case src_SBOM (Src e) family ref of
        Inl _ \<Rightarrow> http_Error (''no SBOM published for '' @ pullName (MirrorName e) family ref) 404 fresh
      | Inr (digest, components) \<Rightarrow>
          let arch = query_get (RawQuery r) ''arch'';
              t = NewTable (pullName (MirrorName e) family ref) digest arch components;
              t = t\<lparr>t_Logo := logo (Assets e) family,
                    t_Topbar := topbar_for (Assets e) (MirrorName e) viewSBOM (archQuery arch),
                    t_Links := links_for (Src e) family ref digest arch viewSBOM\<rparr>;
              (fresh_copy, w) = revalidated r ref (digest @ ''-'' @ t_Arch t) fresh
          in if fresh_copy then w else writePage e ''sbom.html'' (PTable t) w)"

definition serveVulnerabilities :: "env \<Rightarrow> request \<Rightarrow> string \<Rightarrow> string \<Rightarrow> response" where
  "serveVulnerabilities e r family ref =
     (if \<not> validRef ref then bad_reference ref
      else case src_Scan (Src e) family ref of
        Inl _ \<Rightarrow> http_Error (''no vulnerability scan published for '' @ pullName (MirrorName e) family ref) 404 fresh
      | Inr (digest, scn) \<Rightarrow>
          let arch = query_get (RawQuery r) ''arch'';
              p = NewReport (pullName (MirrorName e) family ref) digest arch scn;
              p = p\<lparr>r_Logo := logo (Assets e) family,
                    r_Topbar := topbar_for (Assets e) (MirrorName e) viewVulnerabilities (archQuery arch),
                    r_Links := links_for (Src e) family ref digest arch viewVulnerabilities\<rparr>;
              (fresh_copy, w) = revalidated r ref (digest @ ''-'' @ r_Arch p @ ''-'' @ Fingerprint scn) fresh
          in if fresh_copy then w else writePage e ''vulnerabilities.html'' (PReport p) w)"

text \<open>The loop of \<open>tagEras\<close> over the moves of the tag.\<close>

definition era_of_move :: "source \<Rightarrow> string \<Rightarrow> string \<Rightarrow> scan list \<Rightarrow> move \<Rightarrow> era" where
  "era_of_move src family digest series m =
     \<lparr>era_Digest = mv_Digest m, era_From = mv_At m,
      era_Scans = (if mv_Digest m = digest then series
                   else case src_Scans src family (mv_Digest m) of
                     Inl _ \<Rightarrow> []
                   | Inr (_, scans) \<Rightarrow> scans)\<rparr>"

definition tagEras :: "source \<Rightarrow> string \<Rightarrow> string \<Rightarrow> string \<Rightarrow> scan list \<Rightarrow> era list \<times> bool" where
  "tagEras src family tag digest series =
     (case src_Moves src family of
        Inl _ \<Rightarrow> ([\<lparr>era_Digest = digest, era_From = 0, era_Scans = series\<rparr>], False)
      | Inr moves \<Rightarrow>
          let eras = map (era_of_move src family digest series) (filter (\<lambda>m. mv_Tag m = tag) moves)
          in (if eras = [] \<or> era_Digest (last eras) \<noteq> digest
              then eras @ [\<lparr>era_Digest = digest, era_From = 0, era_Scans = series\<rparr>] else eras,
              True))"

definition serveHistory :: "env \<Rightarrow> request \<Rightarrow> string \<Rightarrow> string \<Rightarrow> response" where
  "serveHistory e r family ref =
     (if \<not> validRef ref then bad_reference ref
      else case src_Scans (Src e) family ref of
        Inl _ \<Rightarrow> http_Error (''no vulnerability scan published for '' @ pullName (MirrorName e) family ref) 404 fresh
      | Inr (digest, series) \<Rightarrow>
          let (eras, ledger) =
                (if isDigest ref then ([\<lparr>era_Digest = digest, era_From = 0, era_Scans = series\<rparr>], True)
                 else tagEras (Src e) family ref digest series);
              arch = query_get (RawQuery r) ''arch'';
              h = NewHistory (pullName (MirrorName e) family ref) digest arch eras;
              h = h\<lparr>h_Tag := (if isDigest ref then '''' else ref),
                    h_Ledger := ledger,
                    h_Points := map (\<lambda>p. p\<lparr>pt_URL := resourceURL family (pt_Digest p) viewVulnerabilities
                                              @ archQuery arch\<rparr>) (h_Points h),
                    h_Logo := logo (Assets e) family,
                    h_Topbar := topbar_for (Assets e) (MirrorName e) viewHistory (archQuery arch),
                    h_Links := links_for (Src e) family ref digest arch viewHistory\<rparr>;
              (fresh_copy, w) = revalidated r ref (digest @ ''-'' @ h_Arch h @ ''-'' @ history_Fingerprint h) fresh
          in if fresh_copy then w else writePage e ''history.html'' (PHistory h) w)"

record attested =
  what :: string
  att_contentType :: string
  att_extension :: string

definition serveDocument :: "env \<Rightarrow> request \<Rightarrow> (string \<Rightarrow> string \<Rightarrow> (string \<times> string) result) \<Rightarrow>
    attested \<Rightarrow> string \<Rightarrow> string \<Rightarrow> response" where
  "serveDocument e r fetch kind family ref =
     (if \<not> validRef ref then bad_reference ref
      else case fetch family ref of
        Inl _ \<Rightarrow> http_Error (''no '' @ what kind @ '' published for '' @ pullName (MirrorName e) family ref) 404 fresh
      | Inr (digest, document) \<Rightarrow>
          let etag = quoted (digest @ ''-'' @ hex_encode (take 6 (sha256 document)));
              w = set_header ''Cache-Control''
                    (if isDigest ref then ''public, max-age=31536000, immutable'' else ''public, max-age=300'')
                    (set_header ''ETag'' etag fresh)
          in if contains_str (IfNoneMatch r) etag then write_status 304 w
             else write_body document
                    (set_header ''Content-Disposition''
                      (''attachment; filename='' @ quoted (downloadName family ref digest (att_extension kind)))
                      (set_header ''Content-Type'' (att_contentType kind) w)))"

definition sbom_document :: attested where
  "sbom_document = \<lparr>what = ''SBOM'', att_contentType = ''application/vnd.cyclonedx+json'',
     att_extension = ''.cdx.json''\<rparr>"

definition scan_document :: attested where
  "scan_document = \<lparr>what = ''vulnerability scan'', att_contentType = ''application/json'',
     att_extension = ''.vuln.json''\<rparr>"

definition contentType :: "string \<Rightarrow> response \<Rightarrow> response" where
  "contentType name w =
     (if has_suffix name ''.woff2'' then set_header ''Content-Type'' ''font/woff2'' w
      else if has_suffix name ''.mjs''
      then set_header ''Content-Type'' ''text/javascript; charset=utf-8'' w
      else w)"

definition serveStatic :: "env \<Rightarrow> string \<Rightarrow> response" where
  "serveStatic e path =
     (case map_of (ca_files (Built e)) path of
        Some file \<Rightarrow>
          (contentType file (set_header ''Cache-Control'' ''public, max-age=31536000, immutable'' fresh))
            \<lparr>Body := File file\<rparr>
      | None \<Rightarrow>
          (contentType path (set_header ''Cache-Control'' ''public, max-age=3600'' fresh))
            \<lparr>Body := File (trim_prefix path ''/directory'')\<rparr>)"

definition permanentRedirect :: "request \<Rightarrow> string \<Rightarrow> response" where
  "permanentRedirect r target =
     http_Redirect (if RawQuery r \<noteq> '''' then target @ ''?'' @ RawQuery r else target) 301
       (set_header ''Cache-Control'' ''public, max-age=300'' fresh)"

section \<open>Routing\<close>

datatype route =
    RStatic
  | RIndex
  | RRedirect string
  | RVersions string
  | RView string string string

definition resources :: "string list" where
  "resources = [viewSBOM, viewSBOM @ ''.json'', viewVulnerabilities, viewVulnerabilities @ ''.json'', viewHistory]"

text \<open>What the patterns of \<open>NewHandler\<close> match, on the segments of a path.\<close>

definition route_of :: "string list \<Rightarrow> route option" where
  "route_of segs =
     (case segs of
        d # rest \<Rightarrow>
          if d \<noteq> ''directory'' then None
          else (case rest of
              [] \<Rightarrow> Some RIndex
            | i # rest' \<Rightarrow>
                if i = '''' \<and> rest' = [] then Some (RRedirect indexURL)
                else if i = ''static'' then
                  (if rest' = [] then Some (RRedirect assetPrefix) else Some RStatic)
                else if i \<noteq> ''image'' then None
                else (case rest' of
                    [family] \<Rightarrow>
                      if family = '''' then None else Some (RRedirect (familyURL family viewVersions))
                  | [family, x] \<Rightarrow>
                      if family = '''' then None
                      else if x = '''' then Some (RRedirect (familyURL family viewVersions))
                      else if x = viewVersions then Some (RVersions family)
                      else if x \<in> set resources then Some (RRedirect (resourceURL family defaultRef x))
                      else None
                  | [family, ref, x] \<Rightarrow>
                      if family = '''' \<or> ref = '''' then None
                      else if x \<in> set resources then Some (RView x family ref) else None
                  | _ \<Rightarrow> None))
      | [] \<Rightarrow> None)"

definition serveView :: "env \<Rightarrow> request \<Rightarrow> string \<Rightarrow> string \<Rightarrow> string \<Rightarrow> response" where
  "serveView e r x family ref =
     (if x = viewSBOM then serveSBOM e r family ref
      else if x = viewSBOM @ ''.json'' then serveDocument e r (src_Document (Src e)) sbom_document family ref
      else if x = viewVulnerabilities then serveVulnerabilities e r family ref
      else if x = viewVulnerabilities @ ''.json''
      then serveDocument e r (src_ScanDocument (Src e)) scan_document family ref
      else serveHistory e r family ref)"

definition NewHandler :: "env \<Rightarrow> request \<Rightarrow> response" where
  "NewHandler e r =
     (case route_of (Segments r) of
        None \<Rightarrow> http_Error ''404 page not found'' 404 fresh
      | Some rt \<Rightarrow>
          if Method r \<noteq> ''GET'' \<and> Method r \<noteq> ''HEAD'' then
            http_Error ''Method Not Allowed'' 405 (set_header ''Allow'' ''GET, HEAD'' fresh)
          else (case rt of
              RStatic \<Rightarrow> serveStatic e (''/'' @ join ''/'' (Segments r))
            | RIndex \<Rightarrow> serveIndex e
            | RRedirect target \<Rightarrow> permanentRedirect r target
            | RVersions family \<Rightarrow> serveVersions e r family
            | RView x family ref \<Rightarrow> serveView e r x family ref))"

section \<open>Responses\<close>

lemma header_of_set [simp]:
  "header_of (set_header k v w) k' = (if k' = k then Some v else header_of w k')"
  by (simp add: header_of_def set_header_def update_conv')

lemma response_simps [simp]:
  "header_of (write_body s w) k = header_of w k" "header_of (write_status n w) k = header_of w k"
  "header_of fresh k = None"
  "StatusCode (set_header k v w) = StatusCode w" "StatusCode (write_body s w) = StatusCode w"
  "StatusCode (write_status n w) = n" "StatusCode fresh = 200"
  "Body (set_header k v w) = Body w" "Body (write_body s w) = Text s" "Body (write_status n w) = Body w"
  "Body fresh = NoBody"
  by (simp_all add: header_of_def set_header_def write_body_def write_status_def fresh_def)

lemma http_Error_simps [simp]:
  "StatusCode (http_Error msg code w) = code" "Body (http_Error msg code w) = Text (msg @ newline)"
  "k \<noteq> ''Content-Type'' \<Longrightarrow> k \<noteq> ''X-Content-Type-Options'' \<Longrightarrow>
    header_of (http_Error msg code w) k = header_of w k"
  by (simp_all add: http_Error_def)

lemma bad_reference_simps [simp]:
  "StatusCode (bad_reference ref) = 400"
  "k \<noteq> ''Content-Type'' \<Longrightarrow> k \<noteq> ''X-Content-Type-Options'' \<Longrightarrow> header_of (bad_reference ref) k = None"
  by (simp_all add: bad_reference_def)

section \<open>What a view answers\<close>

text \<open>
  The shape every successful answer has: a validator and a policy, then either nothing (the
  reader's copy is good), or a body.
\<close>

definition answered :: "request \<Rightarrow> string \<Rightarrow> string \<Rightarrow> response \<Rightarrow> bool" where
  "answered r ref policy w \<longleftrightarrow>
     (\<exists>etag. header_of w ''ETag'' = Some etag \<and>
        header_of w ''Cache-Control'' = Some (if isDigest ref then policy else ''public, max-age=300'') \<and>
        (if contains_str (IfNoneMatch r) etag then StatusCode w = 304 \<and> Body w = NoBody
         else StatusCode w = 200 \<or> StatusCode w = 500))"

definition day_policy :: string where "day_policy = ''public, max-age=86400''"
definition immutable_policy :: string where "immutable_policy = ''public, max-age=31536000, immutable''"

lemma writePage_simps [simp]:
  "k \<noteq> ''Content-Type'' \<Longrightarrow> k \<noteq> ''X-Content-Type-Options'' \<Longrightarrow>
    header_of (writePage e n d w) k = header_of w k"
  "StatusCode w = 200 \<Longrightarrow> StatusCode (writePage e n d w) = (if Render e n d = None then 500 else 200)"
  by (simp_all add: writePage_def split: option.split)

lemma answered_page:
  "answered r ref day_policy
     (case revalidated r ref v fresh of (b, w) \<Rightarrow> if b then w else writePage e n d w)"
proof (cases "contains_str (IfNoneMatch r) (quoted v)")
  case True
  then show ?thesis by (simp add: revalidated_def answered_def day_policy_def Let_def)
next
  case False
  then show ?thesis by (simp add: revalidated_def answered_def day_policy_def Let_def)
qed

lemma answered_document:
  "answered r ref immutable_policy
     (let etag = quoted v;
          w = set_header ''Cache-Control''
                (if isDigest ref then ''public, max-age=31536000, immutable'' else ''public, max-age=300'')
                (set_header ''ETag'' etag fresh)
      in if contains_str (IfNoneMatch r) etag then write_status 304 w
         else write_body document (set_header ''Content-Disposition'' cd (set_header ''Content-Type'' ct w)))"
proof (cases "contains_str (IfNoneMatch r) (quoted v)")
  case True
  then show ?thesis by (simp add: answered_def immutable_policy_def Let_def)
next
  case False
  then show ?thesis by (simp add: answered_def immutable_policy_def Let_def)
qed

text \<open>The digest a view reads from the source, and the policy of its answer.\<close>

definition view_digest :: "source \<Rightarrow> string \<Rightarrow> string \<Rightarrow> string \<Rightarrow> string option" where
  "view_digest src x family ref =
     (if x = viewSBOM then (case src_SBOM src family ref of Inl _ \<Rightarrow> None | Inr (d, _) \<Rightarrow> Some d)
      else if x = viewSBOM @ ''.json''
      then (case src_Document src family ref of Inl _ \<Rightarrow> None | Inr (d, _) \<Rightarrow> Some d)
      else if x = viewVulnerabilities
      then (case src_Scan src family ref of Inl _ \<Rightarrow> None | Inr (d, _) \<Rightarrow> Some d)
      else if x = viewVulnerabilities @ ''.json''
      then (case src_ScanDocument src family ref of Inl _ \<Rightarrow> None | Inr (d, _) \<Rightarrow> Some d)
      else (case src_Scans src family ref of Inl _ \<Rightarrow> None | Inr (d, _) \<Rightarrow> Some d))"

definition view_policy :: "string \<Rightarrow> string" where
  "view_policy x = (if has_suffix x ''.json'' then immutable_policy else day_policy)"

definition not_found :: "response \<Rightarrow> bool" where
  "not_found w \<longleftrightarrow> StatusCode w = 404 \<and> header_of w ''Cache-Control'' = None \<and> header_of w ''ETag'' = None"

lemma not_found_Error: "not_found (http_Error msg 404 fresh)"
  by (simp add: not_found_def)

lemma serveSBOM_answer:
  "validRef ref \<Longrightarrow> (case src_SBOM (Src e) family ref of
      Inl _ \<Rightarrow> not_found (serveSBOM e r family ref)
    | Inr _ \<Rightarrow> answered r ref day_policy (serveSBOM e r family ref))"
  by (cases "src_SBOM (Src e) family ref")
    (simp_all add: serveSBOM_def not_found_Error answered_page Let_def split: prod.split)

lemma serveVulnerabilities_answer:
  "validRef ref \<Longrightarrow> (case src_Scan (Src e) family ref of
      Inl _ \<Rightarrow> not_found (serveVulnerabilities e r family ref)
    | Inr _ \<Rightarrow> answered r ref day_policy (serveVulnerabilities e r family ref))"
  by (cases "src_Scan (Src e) family ref")
    (simp_all add: serveVulnerabilities_def not_found_Error answered_page Let_def split: prod.split)

lemma serveHistory_answer:
  "validRef ref \<Longrightarrow> (case src_Scans (Src e) family ref of
      Inl _ \<Rightarrow> not_found (serveHistory e r family ref)
    | Inr _ \<Rightarrow> answered r ref day_policy (serveHistory e r family ref))"
  by (cases "src_Scans (Src e) family ref")
    (simp_all add: serveHistory_def not_found_Error answered_page Let_def split: prod.split)

lemma serveDocument_answer:
  assumes "validRef ref"
  shows "case fetch family ref of
      Inl _ \<Rightarrow> not_found (serveDocument e r fetch kind family ref)
    | Inr _ \<Rightarrow> answered r ref immutable_policy (serveDocument e r fetch kind family ref)"
proof (cases "fetch family ref")
  case (Inl err)
  then show ?thesis using assms by (simp add: serveDocument_def not_found_Error)
next
  case (Inr p)
  obtain d doc where p: "p = (d, doc)" by force
  show ?thesis
    unfolding serveDocument_def Inr p
    by (simp only: assms sum.case prod.case not_True_eq_False if_False answered_document)
qed

lemma resources_simps:
  "x \<in> set resources \<longleftrightarrow> x = ''sbom'' \<or> x = ''sbom.json'' \<or> x = ''vulnerabilities'' \<or>
     x = ''vulnerabilities.json'' \<or> x = ''history''"
  by (auto simp: resources_def viewSBOM_def viewVulnerabilities_def viewHistory_def)

lemmas view_names = viewSBOM_def viewVulnerabilities_def viewHistory_def viewVersions_def

text \<open>What each of the five views runs, reads and promises.\<close>

lemma serveView_simps:
  "serveView e r ''sbom'' family ref = serveSBOM e r family ref"
  "serveView e r ''sbom.json'' family ref = serveDocument e r (src_Document (Src e)) sbom_document family ref"
  "serveView e r ''vulnerabilities'' family ref = serveVulnerabilities e r family ref"
  "serveView e r ''vulnerabilities.json'' family ref = serveDocument e r (src_ScanDocument (Src e)) scan_document family ref"
  "serveView e r ''history'' family ref = serveHistory e r family ref"
  by (simp_all add: serveView_def view_names)

definition first_digest :: "(string \<times> 'a) result \<Rightarrow> string option" where
  "first_digest res = (case res of Inl _ \<Rightarrow> None | Inr (d, _) \<Rightarrow> Some d)"

lemma first_digest_case:
  "(case res of Inl _ \<Rightarrow> A | Inr _ \<Rightarrow> B) \<Longrightarrow> (case first_digest res of None \<Rightarrow> A | Some _ \<Rightarrow> B)"
  by (auto simp: first_digest_def split: sum.splits)

lemma view_digest_simps:
  "view_digest src ''sbom'' family ref = first_digest (src_SBOM src family ref)"
  "view_digest src ''sbom.json'' family ref = first_digest (src_Document src family ref)"
  "view_digest src ''vulnerabilities'' family ref = first_digest (src_Scan src family ref)"
  "view_digest src ''vulnerabilities.json'' family ref = first_digest (src_ScanDocument src family ref)"
  "view_digest src ''history'' family ref = first_digest (src_Scans src family ref)"
  by (simp_all add: view_digest_def first_digest_def view_names)

lemma view_policy_simps:
  "view_policy ''sbom'' = day_policy"
  "view_policy ''sbom.json'' = immutable_policy"
  "view_policy ''vulnerabilities'' = day_policy"
  "view_policy ''vulnerabilities.json'' = immutable_policy"
  "view_policy ''history'' = day_policy"
  by (simp_all add: view_policy_def has_suffix_def)

text \<open>All five views at once.\<close>

lemma serveView_answer:
  assumes "x \<in> set resources" "validRef ref"
  shows "case view_digest (Src e) x family ref of
      None \<Rightarrow> not_found (serveView e r x family ref)
    | Some d \<Rightarrow> answered r ref (view_policy x) (serveView e r x family ref)"
proof -
  consider "x = ''sbom''" | "x = ''sbom.json''" | "x = ''vulnerabilities''" | "x = ''vulnerabilities.json''"
    | "x = ''history''" using assms(1) unfolding resources_simps by metis
  then show ?thesis
  proof cases
    case 1
    show ?thesis unfolding 1 serveView_simps view_digest_simps view_policy_simps
      by (rule first_digest_case, rule serveSBOM_answer [OF assms(2)])
  next
    case 2
    show ?thesis unfolding 2 serveView_simps view_digest_simps view_policy_simps
      by (rule first_digest_case, rule serveDocument_answer [OF assms(2), where fetch = "src_Document (Src e)"])
  next
    case 3
    show ?thesis unfolding 3 serveView_simps view_digest_simps view_policy_simps
      by (rule first_digest_case, rule serveVulnerabilities_answer [OF assms(2)])
  next
    case 4
    show ?thesis unfolding 4 serveView_simps view_digest_simps view_policy_simps
      by (rule first_digest_case, rule serveDocument_answer [OF assms(2), where fetch = "src_ScanDocument (Src e)"])
  next
    case 5
    show ?thesis unfolding 5 serveView_simps view_digest_simps view_policy_simps
      by (rule first_digest_case, rule serveHistory_answer [OF assms(2)])
  qed
qed

lemma serveView_bad:
  "x \<in> set resources \<Longrightarrow> \<not> validRef ref \<Longrightarrow> serveView e r x family ref = bad_reference ref"
  by (auto simp: resources_simps serveView_def serveSBOM_def serveDocument_def serveVulnerabilities_def
      serveHistory_def)

section \<open>Addresses\<close>

definition url_segments :: "string \<Rightarrow> string option list" where
  "url_segments url = map PathUnescape (split_byte (tl url) CHR ''/'')"

lemma unescape_literal: "CHR ''%'' \<notin> set s \<Longrightarrow> PathUnescape s = Some s"
  by (induction s) (auto simp: PathUnescape_def)

lemma resource_plain:
  "x \<in> set resources \<Longrightarrow> CHR ''%'' \<notin> set x \<and> CHR ''/'' \<notin> set x"
  by (auto simp: resources_simps)

lemma split_resourceURL:
  "CHR ''/'' \<notin> set x \<Longrightarrow> split_byte (tl (resourceURL family ref x)) CHR ''/''
    = [''directory'', ''image'', PathEscape family, PathEscape ref, x]"
proof -
  assume x: "CHR ''/'' \<notin> set x"
  have "tl (resourceURL family ref x)
      = ''directory'' @ CHR ''/'' # ''image'' @ CHR ''/'' # PathEscape family @ CHR ''/'' # PathEscape ref @ CHR ''/'' # x"
    by (simp add: resourceURL_def)
  then show ?thesis
    using x PathEscape_no_slash split_byte_no_sep [of "CHR ''/''" x]
    by (simp only: split_byte_append) (simp add: split_byte_append)
qed

lemma split_familyURL:
  "CHR ''/'' \<notin> set x \<Longrightarrow> split_byte (tl (familyURL family x)) CHR ''/''
    = [''directory'', ''image'', PathEscape family, x]"
proof -
  assume x: "CHR ''/'' \<notin> set x"
  have "tl (familyURL family x)
      = ''directory'' @ CHR ''/'' # ''image'' @ CHR ''/'' # PathEscape family @ CHR ''/'' # x"
    by (simp add: familyURL_def)
  then show ?thesis
    using x PathEscape_no_slash split_byte_no_sep [of "CHR ''/''" x]
    by (simp only: split_byte_append) (simp add: split_byte_append)
qed

lemma route_of_resource:
  assumes "x \<in> set resources" "family \<noteq> ''''" "ref \<noteq> ''''"
  shows "route_of [''directory'', ''image'', family, ref, x] = Some (RView x family ref)"
  using assms by (simp add: route_of_def)

lemma route_of_versions:
  "family \<noteq> '''' \<Longrightarrow> route_of [''directory'', ''image'', family, ''versions''] = Some (RVersions family)"
  by (simp add: route_of_def viewVersions_def)

text \<open>Every redirect of the routing table names one of these targets.\<close>

lemma route_of_redirect:
  assumes "route_of segs = Some (RRedirect target)"
  shows "target = indexURL \<or> target = assetPrefix \<or>
    (\<exists>family. family \<noteq> '''' \<and> (target = familyURL family viewVersions \<or>
       (\<exists>x \<in> set resources. target = resourceURL family defaultRef x)))"
  using assms by (auto simp: route_of_def split: list.splits if_splits)

text \<open>The address of a view, split and unescaped, routes to it.\<close>

lemma routes_back:
  assumes "x \<in> set resources" "family \<noteq> ''''" "validRef ref"
  shows "map_option route_of (those (url_segments (resourceURL family ref x)))
    = Some (Some (RView x family ref))"
proof -
  have "ref \<noteq> ''''" using assms(3) by (auto simp: validRef_def tagPattern_def isDigest_def contains_str_def)
  moreover have "CHR ''/'' \<notin> set x" "CHR ''%'' \<notin> set x" using resource_plain [OF assms(1)] by auto
  moreover have "PathUnescape ''directory'' = Some ''directory''" "PathUnescape ''image'' = Some ''image''"
    by (simp_all add: unescape_literal)
  ultimately show ?thesis
    using assms route_of_resource [of x family ref]
    by (simp add: url_segments_def split_resourceURL PathUnescape_PathEscape unescape_literal)
qed

section \<open>Safe names\<close>

lemma nameForFile_safe: "list_all safe_name_char (nameForFile s)"
  by (auto simp: nameForFile_def list_all_iff safe_name_char_def split: list.splits)

lemma shortDigest_safe: "digestPattern d \<Longrightarrow> list_all safe_name_char (shortDigest d)"
proof -
  assume "digestPattern d"
  then obtain h where d: "d = ''sha256:'' @ h" "list_all hex_char h"
    by (auto simp: digestPattern_def cut_prefix_Some_iff split: option.splits)
  have "cut_byte d CHR '':'' = Some (''sha256'', h)"
    unfolding d(1) using cut_byte_append [of "CHR '':''" "''sha256''" h] by simp
  then have "shortDigest d = take 12 h" by (simp add: shortDigest_def)
  moreover have "safe_name_char c" if "hex_char c" for c
    using that by (auto simp: hex_char_def safe_name_char_def isLetter_def)
  ultimately show ?thesis
    using d(2) by (auto simp: list_all_iff dest: in_set_takeD)
qed

lemma downloadName_safe:
  assumes "digestPattern digest" "list_all safe_name_char extension"
  shows "list_all safe_name_char (downloadName family ref digest extension)"
  using nameForFile_safe shortDigest_safe [OF assms(1)] assms(2)
  by (simp add: downloadName_def safe_name_char_def [of "CHR ''-''"])

section \<open>The interface to the source of evidence\<close>

text \<open>
  What the pages rely on a \<open>Source\<close> for: a digest it returns is one, and a reference that is a
  digest resolves to itself.
\<close>

locale evidence_source =
  fixes src :: source
  assumes digests: "validRef ref \<Longrightarrow> view_digest src x family ref = Some d \<Longrightarrow> digestPattern d"
    and by_digest: "view_digest src x family ref = Some d \<Longrightarrow> isDigest ref \<Longrightarrow> d = ref"
begin

lemma permalink_valid:
  assumes "validRef ref" "view_digest src x family ref = Some d"
  shows "validRef d \<and> isDigest d"
proof -
  have p: "digestPattern d" using digests [OF assms] .
  then obtain h where "d = ''sha256:'' @ h"
    by (auto simp: digestPattern_def cut_prefix_Some_iff split: option.splits)
  then have "isDigest d"
    by (simp add: isDigest_def contains_str_def has_prefix_def)
  with p show ?thesis by (simp add: validRef_def)
qed

text \<open>The permanent address of a page leads to the build it shows.\<close>

lemma permalink_routes:
  assumes "validRef ref" "view_digest src x family ref = Some d" "y \<in> set resources" "family \<noteq> ''''"
  shows "map_option route_of (those (url_segments (resourceURL family d y))) = Some (Some (RView y family d))"
  using routes_back [OF assms(3,4)] permalink_valid [OF assms(1,2)] by blast

text \<open>What a permanent address shows, if anything, is that build again, and the link of that page is itself.\<close>

lemma permalink_fixed:
  assumes "validRef ref" "view_digest src x family ref = Some d" "view_digest src y family d = Some d'"
  shows "d' = d"
  using by_digest [OF assms(3)] permalink_valid [OF assms(1,2)] by simp

text \<open>What is downloaded is named in safe characters, whatever the reader asked for.\<close>

lemma document_name_safe:
  assumes "validRef ref" "src_Document src family ref = Inr (d, doc)"
  shows "list_all safe_name_char (downloadName family ref d ''.cdx.json'')"
proof -
  have "view_digest src ''sbom.json'' family ref = Some d"
    unfolding view_digest_simps by (simp add: first_digest_def assms)
  from digests [OF assms(1) this] show ?thesis
    by (intro downloadName_safe) (auto simp: safe_name_char_def isLetter_def byte_def)
qed

end

section \<open>What the handler promises\<close>

text \<open>
  A reference that could name nothing never costs a lookup: on any page of one build the
  answer to it is the same 400 whatever the source is.
\<close>

theorem NewHandler_bad_reference:
  assumes "route_of (Segments r) = Some (RView x family ref)" "\<not> validRef ref"
    "Method r = ''GET''"
  shows "NewHandler e r = NewHandler (e\<lparr>Src := src\<rparr>) r \<and> StatusCode (NewHandler e r) = 400"
proof -
  have "x \<in> set resources" using assms(1) by (auto simp: route_of_def split: list.splits if_splits)
  then have "NewHandler e r = bad_reference ref" for e
    using assms by (simp add: NewHandler_def serveView_bad)
  then show ?thesis by simp
qed

text \<open>
  C9: what is cached and for how long. The answer to a page of one build is 400 for a malformed
  reference, 404 without validator or policy when the source has nothing (never an empty page),
  and otherwise carries a validator; it is a 304 without a body exactly when the reader sent
  that validator; and only a reference that is a digest is cached longer than five minutes.
\<close>

theorem NewHandler_caching:
  assumes "route_of (Segments r) = Some (RView x family ref)" "Method r = ''GET''" "validRef ref"
  shows "case view_digest (Src e) x family ref of
      None \<Rightarrow> not_found (NewHandler e r)
    | Some d \<Rightarrow> (\<exists>etag. header_of (NewHandler e r) ''ETag'' = Some etag \<and>
        (StatusCode (NewHandler e r) = 304 \<longleftrightarrow> contains_str (IfNoneMatch r) etag) \<and>
        (StatusCode (NewHandler e r) = 304 \<longrightarrow> Body (NewHandler e r) = NoBody) \<and>
        header_of (NewHandler e r) ''Cache-Control''
          = Some (if isDigest ref then view_policy x else ''public, max-age=300''))"
proof -
  have x: "x \<in> set resources" using assms(1) by (auto simp: route_of_def split: list.splits if_splits)
  have H: "NewHandler e r = serveView e r x family ref" using assms by (simp add: NewHandler_def)
  show ?thesis
    using serveView_answer [OF x assms(3), of e r family] unfolding H
    by (auto simp: answered_def split: option.splits if_splits)
qed

text \<open>
  The address of a view leads back to it: split at its slashes and unescaped, the URL the
  pages link to routes to that view of that family and reference, whatever bytes the family
  has in it.
\<close>

theorem resourceURL_routes_back:
  assumes "x \<in> set resources" "family \<noteq> ''''" "validRef ref"
  shows "map_option route_of (those (url_segments (resourceURL family ref x)))
    = Some (Some (RView x family ref))"
  by (rule routes_back [OF assms])

text \<open>
  A redirect ends after one hop: the target of every redirect of the routing table is
  itself served and not redirected again.
\<close>

theorem redirect_one_hop:
  assumes "route_of segs = Some (RRedirect target)"
  shows "case map_option route_of (those (url_segments target)) of
     Some (Some (RRedirect _)) \<Rightarrow> False | Some (Some _) \<Rightarrow> True | _ \<Rightarrow> False"
proof -
  have names: "PathUnescape ''directory'' = Some ''directory''" "PathUnescape ''image'' = Some ''image''"
    "PathUnescape ''versions'' = Some ''versions''" "PathUnescape ''static'' = Some ''static''"
    "PathUnescape '''' = Some ''''" "PathUnescape defaultRef = Some defaultRef"
    by (simp_all add: unescape_literal defaultRef_def)
  from route_of_redirect [OF assms] consider (index) "target = indexURL" | (assets) "target = assetPrefix"
    | (versions) family where "family \<noteq> ''''" "target = familyURL family viewVersions"
    | (view) family x where "family \<noteq> ''''" "x \<in> set resources" "target = resourceURL family defaultRef x"
    by blast
  then show ?thesis
  proof cases
    case index
    then show ?thesis using names
      by (simp add: indexURL_def url_segments_def split_byte_no_sep route_of_def)
  next
    case assets
    have "split_byte (tl assetPrefix) CHR ''/'' = [''directory'', ''static'', '''']"
      by (simp add: assetPrefix_def)
    then show ?thesis using names assets by (simp add: url_segments_def route_of_def)
  next
    case versions
    have "split_byte (tl target) CHR ''/'' = [''directory'', ''image'', PathEscape family, ''versions'']"
      unfolding versions(2) viewVersions_def by (rule split_familyURL) simp
    then show ?thesis
      using names versions(1) route_of_versions by (simp add: url_segments_def PathUnescape_PathEscape)
  next
    case view
    have x: "CHR ''/'' \<notin> set x" "CHR ''%'' \<notin> set x" using resource_plain [OF view(2)] by auto
    have "defaultRef \<noteq> ''''" by (simp add: defaultRef_def)
    then show ?thesis
      using x names view route_of_resource [OF view(2,1), of defaultRef]
      by (simp add: url_segments_def split_resourceURL PathUnescape_PathEscape unescape_literal)
  qed
qed

text \<open>
  No reader's bytes reach the Content-Disposition header unescaped: when the source's
  digests are digests, the file name it carries consists of letters, digits, dots, hyphens
  and underscores.
\<close>

theorem serveDocument_name_safe:
  assumes "validRef ref" "fetch family ref = Inr (digest, document)" "digestPattern digest"
    and "list_all safe_name_char (att_extension kind)"
    and "header_of (serveDocument e r fetch kind family ref) ''Content-Disposition'' = Some v"
  shows "\<exists>name. v = ''attachment; filename='' @ quoted name \<and> list_all safe_name_char name"
  using assms downloadName_safe [OF assms(3,4), of family ref]
  by (auto simp: serveDocument_def Let_def split: if_splits)

text \<open>Concrete inputs.\<close>

definition sample_digest :: string where
  "sample_digest = ''sha256:'' @ replicate 64 (CHR ''a'')"

definition sample_source :: source where
  "sample_source = \<lparr>src_SBOM = (\<lambda>f r. Inr (sample_digest, [])),
     src_Document = (\<lambda>f r. Inr (sample_digest, ''{}'')), src_Scan = (\<lambda>f r. Inl ''none''),
     src_ScanDocument = (\<lambda>f r. Inl ''none''), src_Versions = (\<lambda>f. Inr []), src_Tags = (\<lambda>f. Inr []),
     src_Moves = (\<lambda>f. Inr []), src_Scans = (\<lambda>f r. Inl ''none'')\<rparr>"

definition sample_env :: env where
  "sample_env = \<lparr>Src = sample_source, MirrorName = ''distroless.io'', Assets = (\<lambda>_. None),
     Built = \<lparr>ca_urls = [], ca_files = []\<rparr>, Render = (\<lambda>_ _. None)\<rparr>"

definition sample_request :: "string list \<Rightarrow> request" where
  "sample_request segs = \<lparr>Method = ''GET'', Segments = segs, RawQuery = '''', IfNoneMatch = ''''\<rparr>"

theorem NewHandler_bad_reference_witness:
  "StatusCode (NewHandler sample_env
     (sample_request [''directory'', ''image'', ''java'', ''not/a/tag'', ''sbom''])) = 400"
  by (rule NewHandler_bad_reference [where x = "''sbom''" and family = "''java''"
      and ref = "''not/a/tag''", THEN conjunct2]) code_simp+

theorem NewHandler_caching_witness:
  "not_found (NewHandler sample_env
     (sample_request [''directory'', ''image'', ''java'', ''latest'', ''vulnerabilities'']))"
  using NewHandler_caching [of "sample_request [''directory'', ''image'', ''java'', ''latest'', ''vulnerabilities'']"
      "''vulnerabilities''" "''java''" "''latest''" sample_env]
  by (simp add: view_digest_simps first_digest_def sample_env_def sample_source_def sample_request_def
      route_of_def resources_simps validRef_def isDigest_def contains_str_def has_prefix_def tagPattern_def
      tag_char_def isLetter_def byte_def)

theorem resourceURL_routes_back_witness:
  "map_option route_of (those (url_segments (resourceURL ''a/b c'' ''latest'' ''sbom'')))
    = Some (Some (RView ''sbom'' ''a/b c'' ''latest''))"
  by (rule resourceURL_routes_back; code_simp)

theorem redirect_one_hop_witness:
  "case map_option route_of (those (url_segments (familyURL ''java'' ''versions''))) of
     Some (Some (RRedirect _)) \<Rightarrow> False | Some (Some _) \<Rightarrow> True | _ \<Rightarrow> False"
  by (rule redirect_one_hop [of "[''directory'', ''image'', ''java'']"]) code_simp

theorem serveDocument_name_safe_witness:
  "\<exists>name. header_of (serveDocument sample_env (sample_request []) (\<lambda>f r. Inr (sample_digest, ''{}''))
      sbom_document ''a/b'' ''latest'') ''Content-Disposition''
    = Some (''attachment; filename='' @ quoted name) \<and> list_all safe_name_char name"
proof -
  let ?fetch = "\<lambda>f r. Inr (sample_digest, ''{}'') :: (string \<times> string) result"
  have 1: "validRef ''latest''" "digestPattern sample_digest" "list_all safe_name_char (att_extension sbom_document)"
    by code_simp+
  obtain v where v: "header_of (serveDocument sample_env (sample_request []) ?fetch
      sbom_document ''a/b'' ''latest'') ''Content-Disposition'' = Some v"
    by (simp add: serveDocument_def 1 Let_def sample_request_def contains_str_def quoted_def)
  from serveDocument_name_safe [OF 1(1) refl 1(2,3) v] v show ?thesis by auto
qed

text \<open>
  A page that fails to render is answered 500 with the policy of the page it should have been,
  so a shared cache may keep the failure for a day.
\<close>

theorem render_failure_cacheable:
  "let w = NewHandler sample_env (sample_request [''directory'', ''image'', ''java'', sample_digest, ''sbom''])
   in StatusCode w = 500 \<and> header_of w ''Cache-Control'' = Some ''public, max-age=86400''"
  by code_simp

end
