(* ===== verification/Go_Runs.thy ===== *)
theory Go_Runs
  imports Main
begin

text \<open>
  What the concurrent parts of the programs have in common: goroutines as a step relation on the
  state they share, with a measure that every step lowers and no state, short of the end, in which all
  of them wait. Each such part is an interpretation.
\<close>

locale terminating_runs =
  fixes step :: "'s \<Rightarrow> 's \<Rightarrow> bool" and inv :: "'s \<Rightarrow> bool" and finished :: "'s \<Rightarrow> bool" and steps_left :: "'s \<Rightarrow> nat"
  assumes inv_step: "inv s \<Longrightarrow> step s s' \<Longrightarrow> inv s'"
    and progress: "inv s \<Longrightarrow> step s s' \<Longrightarrow> steps_left s' < steps_left s"
    and no_deadlock: "inv s \<Longrightarrow> \<not> finished s \<Longrightarrow> \<exists>s'. step s s'"
begin

text \<open>Every interleaving keeps the invariant and is no longer than the measure of its start.\<close>

lemma run:
  assumes "inv s" "(step ^^ n) s t"
  shows "inv t \<and> n + steps_left t \<le> steps_left s"
  using assms(2)
proof (induction n arbitrary: t)
  case 0
  then show ?case using assms(1) by simp
next
  case (Suc n)
  then obtain u where u: "(step ^^ n) s u" "step u t" by auto
  then have "inv u" "n + steps_left u \<le> steps_left s" using Suc.IH by simp_all
  then show ?case using inv_step [OF _ u(2)] progress [OF _ u(2)] by force
qed

text \<open>Every run can be completed: whatever was scheduled so far, nothing waits forever.\<close>

lemma completes:
  assumes "inv s"
  shows "\<exists>n t. (step ^^ n) s t \<and> finished t"
  using assms
proof (induction "steps_left s" arbitrary: s rule: less_induct)
  case less
  show ?case
  proof (cases "finished s")
    case True
    then show ?thesis by (intro exI [of _ 0] exI [of _ s]) simp
  next
    case False
    then obtain u where u: "step s u" using no_deadlock [OF less.prems] by blast
    from less.hyps [OF progress [OF less.prems u] inv_step [OF less.prems u]] obtain n t where
      "(step ^^ n) u t" "finished t" by blast
    then show ?thesis using u relpowp_Suc_I2 by metis
  qed
qed

end

end
