(* ===== verification/Mirror_Client.thy ===== *)
theory Mirror_Client
  imports Mirror_Evidence Directory_Handler Go_Runs
begin

text \<open>
  web/internal/mirror/mirror.go and history.go: the client that reads the evidence attached to
  the images of the mirror. The registry (go-containerregistry), the verifier, the CycloneDX
  decoder and the LRU library are parameters, the fields of \<open>mirror\<close>; the state of a client is its
  five caches. A digest the registry names is a \<open>v1.Hash\<close>, which the library only builds from
  sixty-four hexadecimal digits: a 256-bit word here.

  A cache is the log of the calls made to it, newest first. Whether an entry is still there is
  the library's choice, a function of the log without its values, of the capacity, the lifetime
  and the clock; if it is there, \<open>Get\<close> returns the value last added under the key.
\<close>

section \<open>The registry\<close>

type_synonym hash = "256 word"

definition Hash_String :: "hash \<Rightarrow> string" where
  "Hash_String h =
     ''sha256:'' @ map (\<lambda>i. hex_digit (nat (uint h div 16 ^ (63 - i) mod 16))) [0..<64]"

record layer =
  layer_MediaType :: "string result"
  layer_Uncompressed :: "string result"

record config_file =
  cfg_Created :: time
  cfg_Architecture :: string

record remote_image =
  img_Layers :: "layer list result"
  img_ConfigFile :: "config_file result"
  img_Manifest :: "int list result"

record child_manifest =
  ch_Digest :: hash
  ch_Platform :: "string option"

record descriptor =
  de_IsIndex :: bool
  de_Image :: "remote_image result"
  de_ImageIndex :: "child_manifest list result result"

text \<open>A failed request carries the status code the registry answered with, if it answered.\<close>

record registry =
  rg_NewRepository :: "string \<Rightarrow> string result"
  rg_List :: "string \<Rightarrow> string list result"
  rg_Head :: "string \<Rightarrow> string \<Rightarrow> (nat option \<times> string) + hash"
  rg_Get :: "string \<Rightarrow> string \<Rightarrow> descriptor result"
  rg_Image :: "string \<Rightarrow> string \<Rightarrow> remote_image result"
  rg_Referrers :: "string \<Rightarrow> string \<Rightarrow> hash list result result"

section \<open>The caches\<close>

datatype 'v call = Added string time 'v | Got string time

type_synonym 'v lru = "'v call list"

type_synonym residency = "nat \<Rightarrow> int option \<Rightarrow> unit lru \<Rightarrow> string \<Rightarrow> time \<Rightarrow> bool"

fun last_added :: "string \<Rightarrow> 'v lru \<Rightarrow> 'v option" where
  "last_added k [] = None"
| "last_added k (Added k' t v # c) = (if k' = k then Some v else last_added k c)"
| "last_added k (Got k' t # c) = last_added k c"

text \<open>The library's answer is given by \<open>keep\<close>, its choice for this cache.\<close>

definition lru_Get :: "(unit lru \<Rightarrow> string \<Rightarrow> time \<Rightarrow> bool) \<Rightarrow> time \<Rightarrow> string \<Rightarrow> 'v lru \<Rightarrow> 'v option \<times> 'v lru" where
  "lru_Get keep now k c =
     (if keep (map (map_call (\<lambda>_. ())) c) k now then last_added k c else None, Got k now # c)"

definition lru_Add :: "time \<Rightarrow> string \<Rightarrow> 'v \<Rightarrow> 'v lru \<Rightarrow> 'v lru" where
  "lru_Add now k v c = Added k now v # c"

section \<open>The client\<close>

definition maxCachedImages :: nat where "maxCachedImages = 100"
definition maxTagLookups :: nat where "maxTagLookups = 8"
definition defaultScanTTL :: int where "defaultScanTTL = 3600 * 1000000000"

record mirror =
  mi_registry :: string
  mi_prefix :: string
  mi_Verify :: "string \<Rightarrow> string \<Rightarrow> statement result"
  mi_reg :: registry
  mi_decodeBOM :: "string \<Rightarrow> bom result"
  mi_resident :: residency
  mi_scanTTL :: int

record build =
  bd_created :: time
  bd_sizes :: "(string \<times> size) list"

record client =
  cl_cache :: "component list lru"
  cl_builds :: "build lru"
  cl_scans :: "scan lru"
  cl_series :: "scan list lru"
  cl_ledgers :: "move list lru"

definition New :: client where
  "New = \<lparr>cl_cache = [], cl_builds = [], cl_scans = [], cl_series = [], cl_ledgers = []\<rparr>"

definition keeps :: "mirror \<Rightarrow> unit lru \<Rightarrow> string \<Rightarrow> time \<Rightarrow> bool" where
  "keeps m = mi_resident m maxCachedImages None"

definition keeps_ttl :: "mirror \<Rightarrow> unit lru \<Rightarrow> string \<Rightarrow> time \<Rightarrow> bool" where
  "keeps_ttl m = mi_resident m maxCachedImages (Some (mi_scanTTL m))"

definition repository :: "mirror \<Rightarrow> string \<Rightarrow> string result" where
  "repository m family =
     rg_NewRepository (mi_reg m)
       (mi_registry m @ ''/'' @ (if mi_prefix m \<noteq> '''' then mi_prefix m @ ''/'' else '''') @ family)"

text \<open>The repository and the digest that \<open>resolve\<close> returns; the rest of its answer is options.\<close>

definition resolve :: "mirror \<Rightarrow> string \<Rightarrow> string \<Rightarrow> (string \<times> string) result" where
  "resolve m family ref =
     (case repository m family of
        Inl err \<Rightarrow> Inl (''parsing '' @ family @ '': '' @ err)
      | Inr repo \<Rightarrow>
          if contains_str ref '':'' then Inr (repo, ref)
          else (case rg_Head (mi_reg m) repo ref of
              Inl (_, err) \<Rightarrow> Inl (''resolving '' @ repo @ '':'' @ ref @ '': '' @ err)
            | Inr h \<Rightarrow> Inr (repo, Hash_String h)))"

subsection \<open>Statements\<close>

datatype referrer_error = errUnverified | Unreadable string

text \<open>The loop of \<open>statement\<close> over the layers.\<close>

fun statement_layers :: "mirror \<Rightarrow> string \<Rightarrow> layer list \<Rightarrow> referrer_error + statement" where
  "statement_layers m subjectDigest [] = Inl errUnverified"
| "statement_layers m subjectDigest (l # ls) =
     (case layer_Uncompressed l of
        Inl err \<Rightarrow> Inl (Unreadable err)
      | Inr content \<Rightarrow>
          (case mi_Verify m (limit_read maxAttestationBytes content) subjectDigest of
             Inl _ \<Rightarrow> statement_layers m subjectDigest ls
           | Inr s \<Rightarrow> Inr s))"

definition statement :: "mirror \<Rightarrow> string \<Rightarrow> hash \<Rightarrow> string \<Rightarrow> referrer_error + statement" where
  "statement m repo referrer subjectDigest =
     (case rg_Image (mi_reg m) repo (Hash_String referrer) of
        Inl err \<Rightarrow> Inl (Unreadable err)
      | Inr img \<Rightarrow>
          (case img_Layers img of
             Inl err \<Rightarrow> Inl (Unreadable err)
           | Inr layers \<Rightarrow> statement_layers m subjectDigest layers))"

text \<open>
  The loop of \<open>eachStatement\<close>: a callback over a state of its own, which also says whether to
  stop. A referrer that is unverified or unreadable is passed over.
\<close>

fun each_loop :: "mirror \<Rightarrow> string \<Rightarrow> string \<Rightarrow> ('s \<Rightarrow> statement \<Rightarrow> 's \<times> bool) \<Rightarrow> 's \<Rightarrow> hash list \<Rightarrow> 's" where
  "each_loop m repo digest visit s [] = s"
| "each_loop m repo digest visit s (r # rs) =
     (case statement m repo r digest of
        Inl _ \<Rightarrow> each_loop m repo digest visit s rs
      | Inr st \<Rightarrow>
          (case visit s st of (s', stop) \<Rightarrow>
             if stop then s' else each_loop m repo digest visit s' rs))"

definition eachStatement :: "mirror \<Rightarrow> string \<Rightarrow> string \<Rightarrow> ('s \<Rightarrow> statement \<Rightarrow> 's \<times> bool) \<Rightarrow> 's \<Rightarrow> 's result" where
  "eachStatement m repo digest visit s =
     (case rg_Referrers (mi_reg m) repo digest of
        Inl err \<Rightarrow> Inl (''listing referrers of '' @ repo @ ''@'' @ digest @ '': '' @ err)
      | Inr referrers \<Rightarrow>
          (case referrers of
             Inl err \<Rightarrow> Inl (''reading referrers of '' @ repo @ ''@'' @ digest @ '': '' @ err)
           | Inr manifests \<Rightarrow> Inr (each_loop m repo digest visit s manifests)))"

definition predicate :: "mirror \<Rightarrow> string \<Rightarrow> string \<Rightarrow> string \<Rightarrow> string result" where
  "predicate m repo digest want =
     (case eachStatement m repo digest
             (\<lambda>found st. if st_Type st \<noteq> want then (found, False) else (Some (st_Predicate st), True)) None of
        Inl err \<Rightarrow> Inl err
      | Inr found \<Rightarrow>
          (case found of
             None \<Rightarrow> Inl (''no verified '' @ want @ '' attestation attached to '' @ repo @ ''@'' @ digest)
           | Some p \<Rightarrow> Inr p))"

definition predicates :: "mirror \<Rightarrow> string \<Rightarrow> string \<Rightarrow> (string \<Rightarrow> statement list) result" where
  "predicates m repo digest =
     eachStatement m repo digest
       (\<lambda>found st. (found(st_Type st := found (st_Type st) @ [st]), False)) (\<lambda>_. [])"

subsection \<open>SBOM and scan of one image\<close>

definition SBOM :: "mirror \<Rightarrow> time \<Rightarrow> client \<Rightarrow> string \<Rightarrow> string \<Rightarrow> (string \<times> component list) result \<times> client" where
  "SBOM m now st family ref =
     (case resolve m family ref of
        Inl err \<Rightarrow> (Inl err, st)
      | Inr (repo, digest) \<Rightarrow>
          (case lru_Get (keeps m) now digest (cl_cache st) of (hit, c) \<Rightarrow>
             (let st = st\<lparr>cl_cache := c\<rparr>
              in case hit of
                   Some cs \<Rightarrow> (Inr (digest, cs), st)
                 | None \<Rightarrow>
                     (case predicate m repo digest CycloneDX of
                        Inl err \<Rightarrow> (Inl err, st)
                      | Inr p \<Rightarrow>
                          (case mi_decodeBOM m p of
                             Inl err \<Rightarrow> (Inl (''decoding CycloneDX predicate: '' @ err), st)
                           | Inr b \<Rightarrow>
                               (Inr (digest, components b),
                                st\<lparr>cl_cache := lru_Add now digest (components b) (cl_cache st)\<rparr>))))))"

definition Document :: "mirror \<Rightarrow> string \<Rightarrow> string \<Rightarrow> (string \<times> string) result" where
  "Document m family ref =
     (case resolve m family ref of
        Inl err \<Rightarrow> Inl err
      | Inr (repo, digest) \<Rightarrow>
          (case predicate m repo digest CycloneDX of
             Inl err \<Rightarrow> Inl err
           | Inr p \<Rightarrow> Inr (digest, p)))"

text \<open>A VEX document that does not decode silences nothing.\<close>

definition apply_vex :: "statement list \<Rightarrow> scan \<Rightarrow> scan" where
  "apply_vex documents scn =
     (case newestStatement documents of
        None \<Rightarrow> scn
      | Some vex \<Rightarrow> (case suppress scn (st_Predicate vex) of Inl _ \<Rightarrow> scn | Inr scn' \<Rightarrow> scn'))"

definition Scan :: "mirror \<Rightarrow> time \<Rightarrow> client \<Rightarrow> string \<Rightarrow> string \<Rightarrow> (string \<times> scan) result \<times> client" where
  "Scan m now st family ref =
     (case resolve m family ref of
        Inl err \<Rightarrow> (Inl err, st)
      | Inr (repo, digest) \<Rightarrow>
          (case lru_Get (keeps_ttl m) now digest (cl_scans st) of (hit, c) \<Rightarrow>
             (let st = st\<lparr>cl_scans := c\<rparr>
              in case hit of
                   Some scn \<Rightarrow> (Inr (digest, scn), st)
                 | None \<Rightarrow>
                     (case predicates m repo digest of
                        Inl err \<Rightarrow> (Inl err, st)
                      | Inr found \<Rightarrow>
                          (case newestScan (found Vuln) of
                             Inl err \<Rightarrow> (Inl (err @ '' attached to '' @ repo @ ''@'' @ digest), st)
                           | Inr (scn, raw) \<Rightarrow>
                               (let scn = apply_vex (found OpenVEX) scn
                                in (Inr (digest, scn),
                                    st\<lparr>cl_scans := lru_Add now digest scn (cl_scans st)\<rparr>)))))))"

definition ScanDocument :: "mirror \<Rightarrow> string \<Rightarrow> string \<Rightarrow> (string \<times> string) result" where
  "ScanDocument m family ref =
     (case resolve m family ref of
        Inl err \<Rightarrow> Inl err
      | Inr (repo, digest) \<Rightarrow>
          (case predicates m repo digest of
             Inl err \<Rightarrow> Inl err
           | Inr found \<Rightarrow>
               (case newestScan (found Vuln) of
                  Inl err \<Rightarrow> Inl (err @ '' attached to '' @ repo @ ''@'' @ digest)
                | Inr (scn, raw) \<Rightarrow> Inr (digest, raw))))"

subsection \<open>Series and ledgers\<close>

definition compareFinished :: "scan \<Rightarrow> scan \<Rightarrow> int" where
  "compareFinished a b = cmp_compare (s_Finished a) (s_Finished b)"

fun decode_series :: "statement list \<Rightarrow> scan list" where
  "decode_series [] = []"
| "decode_series (s # ss) =
     (case decodeScan (st_Predicate s) of Inl _ \<Rightarrow> decode_series ss | Inr scn \<Rightarrow> scn # decode_series ss)"

text \<open>The loop over the series stops at the first scan the document cannot be joined to.\<close>

fun suppress_series :: "string \<Rightarrow> scan list \<Rightarrow> scan list" where
  "suppress_series document [] = []"
| "suppress_series document (s # ss) =
     (case suppress s document of Inl _ \<Rightarrow> s # ss | Inr s' \<Rightarrow> s' # suppress_series document ss)"

definition Scans :: "mirror \<Rightarrow> time \<Rightarrow> client \<Rightarrow> string \<Rightarrow> string \<Rightarrow> (string \<times> scan list) result \<times> client" where
  "Scans m now st family ref =
     (case resolve m family ref of
        Inl err \<Rightarrow> (Inl err, st)
      | Inr (repo, digest) \<Rightarrow>
          (case lru_Get (keeps_ttl m) now digest (cl_series st) of (hit, c) \<Rightarrow>
             (let st = st\<lparr>cl_series := c\<rparr>
              in case hit of
                   Some series \<Rightarrow> (Inr (digest, series), st)
                 | None \<Rightarrow>
                     (case predicates m repo digest of
                        Inl err \<Rightarrow> (Inl err, st)
                      | Inr found \<Rightarrow>
                          (let series = decode_series (found Vuln)
                           in if series = []
                              then (Inl (''no verified vulnerability scan attached to '' @ repo @ ''@'' @ digest), st)
                              else
                                (let series =
                                       (case newestStatement (found OpenVEX) of
                                          None \<Rightarrow> series
                                        | Some vex \<Rightarrow> suppress_series (st_Predicate vex) series);
                                     series = sort_stable compareFinished series
                                 in (Inr (digest, series),
                                     st\<lparr>cl_series := lru_Add now digest series (cl_series st)\<rparr>)))))))"

definition ledgerRepository :: string where "ledgerRepository = ''history''"

definition ledgerMediaType :: string where
  "ledgerMediaType = ''application/vnd.distroless.tag-ledger.v1+jsonl''"

text \<open>The loop of \<open>Moves\<close> over the layers of the ledger artifact.\<close>

fun ledger_layers :: "string \<Rightarrow> layer list \<Rightarrow> move list result" where
  "ledger_layers subject [] = Inl (''ledger '' @ subject @ '' carries no '' @ ledgerMediaType @ '' layer'')"
| "ledger_layers subject (l # ls) =
     (case layer_MediaType l of
        Inl err \<Rightarrow> Inl err
      | Inr mediaType \<Rightarrow>
          if mediaType \<noteq> ledgerMediaType then ledger_layers subject ls
          else (case layer_Uncompressed l of
              Inl err \<Rightarrow> Inl err
            | Inr content \<Rightarrow>
                (case decodeLedger (limit_read maxAttestationBytes content) of
                   Inl err \<Rightarrow> Inl (''ledger '' @ subject @ '': '' @ err)
                 | Inr moves \<Rightarrow> Inr moves)))"

definition Moves :: "mirror \<Rightarrow> time \<Rightarrow> client \<Rightarrow> string \<Rightarrow> move list result \<times> client" where
  "Moves m now st family =
     (case repository m ledgerRepository of
        Inl err \<Rightarrow> (Inl (''parsing ledger repository: '' @ err), st)
      | Inr repo \<Rightarrow>
          (let subject = repo @ '':'' @ family
           in case rg_Head (mi_reg m) repo family of
             Inl (code, err) \<Rightarrow>
               if code = Some 404 then (Inr [], st) else (Inl (''resolving ledger '' @ subject @ '': '' @ err), st)
           | Inr h \<Rightarrow>
               (let digest = Hash_String h
                in case lru_Get (keeps m) now digest (cl_ledgers st) of (hit, c) \<Rightarrow>
                   (let st = st\<lparr>cl_ledgers := c\<rparr>
                    in case hit of
                         Some moves \<Rightarrow> (Inr moves, st)
                       | None \<Rightarrow>
                           (case rg_Image (mi_reg m) repo digest of
                              Inl err \<Rightarrow> (Inl (''reading ledger '' @ subject @ '': '' @ err), st)
                            | Inr img \<Rightarrow>
                                (case img_Layers img of
                                   Inl err \<Rightarrow> (Inl (''reading ledger '' @ subject @ '': '' @ err), st)
                                 | Inr layers \<Rightarrow>
                                     (case ledger_layers subject layers of
                                        Inl err \<Rightarrow> (Inl err, st)
                                      | Inr moves \<Rightarrow>
                                          (Inr moves,
                                           st\<lparr>cl_ledgers := lru_Add now digest moves (cl_ledgers st)\<rparr>))))))))"

subsection \<open>Tags and builds\<close>

text \<open>The tags cosign pushes: sha256, a hyphen, the digest, and perhaps a dot and letters.\<close>

definition cosignFallbackTag :: "string \<Rightarrow> bool" where
  "cosignFallbackTag tag \<longleftrightarrow>
     (case cut_prefix tag ''sha256-'' of
        None \<Rightarrow> False
      | Some rest \<Rightarrow>
          64 \<le> length rest \<and> list_all hex_char (take 64 rest) \<and>
          (case drop 64 rest of
             [] \<Rightarrow> True
           | c # letters \<Rightarrow> c = CHR ''.'' \<and> letters \<noteq> [] \<and>
               list_all (\<lambda>l. 97 \<le> byte l \<and> byte l \<le> 122) letters))"

definition published :: "mirror \<Rightarrow> string \<Rightarrow> string list result" where
  "published m repo =
     (case rg_List (mi_reg m) repo of
        Inl err \<Rightarrow> Inl (''listing tags of '' @ repo @ '': '' @ err)
      | Inr tags \<Rightarrow> Inr (filter (\<lambda>tag. \<not> cosignFallbackTag tag) tags))"

definition Tags :: "mirror \<Rightarrow> string \<Rightarrow> string list result" where
  "Tags m family =
     (case repository m family of
        Inl err \<Rightarrow> Inl (''parsing '' @ family @ '': '' @ err)
      | Inr repo \<Rightarrow> published m repo)"

text \<open>The sum is an int64's.\<close>

definition compressedSize :: "remote_image \<Rightarrow> size result" where
  "compressedSize img =
     (case img_Manifest img of
        Inl err \<Rightarrow> Inl err
      | Inr sizes \<Rightarrow> Inr (foldl (\<lambda>n s. wrap64 (n + s)) 0 sizes))"

text \<open>What is read of one image: its configuration and its size.\<close>

definition image_detail :: "remote_image \<Rightarrow> (config_file \<times> size) result" where
  "image_detail img =
     (case img_ConfigFile img of
        Inl err \<Rightarrow> Inl err
      | Inr config \<Rightarrow>
          (case compressedSize img of Inl err \<Rightarrow> Inl err | Inr n \<Rightarrow> Inr (config, n)))"

definition child_architecture :: "child_manifest \<Rightarrow> config_file \<Rightarrow> string" where
  "child_architecture child config =
     (case ch_Platform child of
        Some a \<Rightarrow> if a = '''' then cfg_Architecture config else a
      | None \<Rightarrow> cfg_Architecture config)"

text \<open>The loop of \<open>build\<close> over the children of an index.\<close>

fun build_children :: "mirror \<Rightarrow> string \<Rightarrow> build \<Rightarrow> child_manifest list \<Rightarrow> build result" where
  "build_children m repo found [] = Inr found"
| "build_children m repo found (child # cs) =
     (case rg_Image (mi_reg m) repo (Hash_String (ch_Digest child)) of
        Inl err \<Rightarrow> Inl err
      | Inr img \<Rightarrow>
          (case image_detail img of
             Inl err \<Rightarrow> Inl err
           | Inr (config, n) \<Rightarrow>
               build_children m repo
                 \<lparr>bd_created = cfg_Created config,
                  bd_sizes = AList.update (child_architecture child config) n (bd_sizes found)\<rparr> cs))"

definition read_build :: "mirror \<Rightarrow> string \<Rightarrow> string \<Rightarrow> build result" where
  "read_build m repo digest =
     (case rg_Get (mi_reg m) repo digest of
        Inl err \<Rightarrow> Inl err
      | Inr d \<Rightarrow>
          if \<not> de_IsIndex d then
            (case de_Image d of
               Inl err \<Rightarrow> Inl err
             | Inr img \<Rightarrow>
                 (case image_detail img of
                    Inl err \<Rightarrow> Inl err
                  | Inr (config, n) \<Rightarrow>
                      Inr \<lparr>bd_created = cfg_Created config, bd_sizes = [(cfg_Architecture config, n)]\<rparr>))
          else
            (case de_ImageIndex d of
               Inl err \<Rightarrow> Inl (''reading index '' @ repo @ ''@'' @ digest @ '': '' @ err)
             | Inr idx \<Rightarrow>
                 (case idx of
                    Inl err \<Rightarrow> Inl err
                  | Inr children \<Rightarrow>
                      if children = [] then Inl (''index '' @ repo @ ''@'' @ digest @ '' carries no manifests'')
                      else build_children m repo \<lparr>bd_created = 0, bd_sizes = []\<rparr> children)))"

definition build_of :: "mirror \<Rightarrow> time \<Rightarrow> client \<Rightarrow> string \<Rightarrow> string \<Rightarrow> build result \<times> client" where
  "build_of m now st repo digest =
     (case lru_Get (keeps m) now digest (cl_builds st) of (hit, c) \<Rightarrow>
        (let st = st\<lparr>cl_builds := c\<rparr>
         in case hit of
              Some b \<Rightarrow> (Inr b, st)
            | None \<Rightarrow>
                (case read_build m repo digest of
                   Inl err \<Rightarrow> (Inl err, st)
                 | Inr b \<Rightarrow> (Inr b, st\<lparr>cl_builds := lru_Add now digest b (cl_builds st)\<rparr>))))"

text \<open>The first loop of \<open>describe\<close>: one lookup per distinct digest; a failed one is the zero build.\<close>

fun describe_loop :: "mirror \<Rightarrow> time \<Rightarrow> string \<Rightarrow> version list \<Rightarrow> (string \<times> build) list \<Rightarrow> client \<Rightarrow>
    (string \<times> build) list \<times> client" where
  "describe_loop m now repo [] described st = (described, st)"
| "describe_loop m now repo (v # vs) described st =
     (if map_of described (v_Digest v) \<noteq> None then describe_loop m now repo vs described st
      else case build_of m now st repo (v_Digest v) of (res, st') \<Rightarrow>
        (let found = (case res of Inl _ \<Rightarrow> \<lparr>bd_created = 0, bd_sizes = []\<rparr> | Inr b \<Rightarrow> b)
         in describe_loop m now repo vs ((v_Digest v, found) # described) st'))"

definition described_version :: "(string \<times> build) list \<Rightarrow> version \<Rightarrow> version" where
  "described_version described v =
     (case map_of described (v_Digest v) of
        Some b \<Rightarrow> v\<lparr>v_Created := bd_created b, v_Sizes := bd_sizes b\<rparr>
      | None \<Rightarrow> v\<lparr>v_Created := 0, v_Sizes := []\<rparr>)"

definition describe :: "mirror \<Rightarrow> time \<Rightarrow> client \<Rightarrow> string \<Rightarrow> version list \<Rightarrow> version list \<times> client" where
  "describe m now st repo vs =
     (case describe_loop m now repo vs [] st of (described, st') \<Rightarrow>
        (map (described_version described) vs, st'))"

definition zero_version :: version where
  "zero_version = \<lparr>v_Tag = '''', v_Digest = '''', v_Created = 0, v_Sizes = []\<rparr>"

text \<open>What the goroutine of one tag leaves in its slot of \<open>versions\<close>.\<close>

definition head_version :: "mirror \<Rightarrow> string \<Rightarrow> string \<Rightarrow> version" where
  "head_version m repo tag =
     (case rg_Head (mi_reg m) repo tag of
        Inl _ \<Rightarrow> zero_version
      | Inr h \<Rightarrow> \<lparr>v_Tag = tag, v_Digest = Hash_String h, v_Created = 0, v_Sizes = []\<rparr>)"

text \<open>
  The goroutines of \<open>Versions\<close>, one per tag, and the channel that lets \<open>maxTagLookups\<close> of them
  look up at a time: a goroutine waits for a slot, holds one, and is done. Every interleaving of
  them is a run of \<open>fan_step\<close>.
\<close>

datatype task = Waiting | Holding | Finished

type_synonym fan_state = "task list \<times> version list"

definition holding :: "task list \<Rightarrow> nat" where
  "holding ts = length (filter (\<lambda>t. t = Holding) ts)"

inductive fan_step :: "mirror \<Rightarrow> string \<Rightarrow> string list \<Rightarrow> fan_state \<Rightarrow> fan_state \<Rightarrow> bool"
  for m repo tags where
  acquire: "i < length ts \<Longrightarrow> ts ! i = Waiting \<Longrightarrow> holding ts < maxTagLookups \<Longrightarrow>
    fan_step m repo tags (ts, vs) (ts[i := Holding], vs)"
| release: "i < length ts \<Longrightarrow> ts ! i = Holding \<Longrightarrow>
    fan_step m repo tags (ts, vs)
      (ts[i := Finished],
       case rg_Head (mi_reg m) repo (tags ! i) of
         Inl _ \<Rightarrow> vs
       | Inr h \<Rightarrow> vs[i := \<lparr>v_Tag = tags ! i, v_Digest = Hash_String h, v_Created = 0, v_Sizes = []\<rparr>])"

definition fan_start :: "string list \<Rightarrow> fan_state" where
  "fan_start tags = (map (\<lambda>_. Waiting) tags, map (\<lambda>_. zero_version) tags)"

text \<open>\<open>Versions\<close> with the slots every run of the goroutines ends with.\<close>

definition Versions :: "mirror \<Rightarrow> time \<Rightarrow> client \<Rightarrow> string \<Rightarrow> version list result \<times> client" where
  "Versions m now st family =
     (case repository m family of
        Inl err \<Rightarrow> (Inl (''parsing '' @ family @ '': '' @ err), st)
      | Inr repo \<Rightarrow>
          (case published m repo of
             Inl err \<Rightarrow> (Inl err, st)
           | Inr tags \<Rightarrow>
               (let vs = map (head_version m repo) tags;
                    resolved = filter (\<lambda>v. v_Digest v \<noteq> '''') vs
                in case describe m now st repo resolved of (vs', st') \<Rightarrow> (Inr vs', st'))))"

section \<open>The source of the pages\<close>

text \<open>What the handler is given: the operations of a client in some state of its caches.\<close>

definition client_source :: "mirror \<Rightarrow> time \<Rightarrow> client \<Rightarrow> source" where
  "client_source m now st =
     \<lparr>src_SBOM = (\<lambda>f r. fst (SBOM m now st f r)),
      src_Document = Document m,
      src_Scan = (\<lambda>f r. fst (Scan m now st f r)),
      src_ScanDocument = ScanDocument m,
      src_Versions = (\<lambda>f. fst (Versions m now st f)),
      src_Tags = Tags m,
      src_Moves = (\<lambda>f. fst (Moves m now st f)),
      src_Scans = (\<lambda>f r. fst (Scans m now st f r))\<rparr>"

section \<open>Digests\<close>

lemma hex_digit_char: "d < 16 \<Longrightarrow> hex_char (hex_digit d)"
  by (cases "d < 10") (simp_all add: hex_char_def hex_digit_def isDigit_def byte_char_of)

lemma Hash_String_pattern: "digestPattern (Hash_String h)"
proof -
  have "hex_char (hex_digit (nat (uint h div 16 ^ k mod 16)))" for k
    by (rule hex_digit_char) simp
  then show ?thesis unfolding digestPattern_def Hash_String_def cut_prefix_append
    by (simp add: list_all_iff)
qed

lemma resolve_digest:
  assumes "resolve m family ref = Inr (repo, d)"
  shows "isDigest ref \<longrightarrow> d = ref" "validRef ref \<longrightarrow> digestPattern d"
  using assms Hash_String_pattern
  by (auto simp: resolve_def isDigest_def validRef_def split: sum.splits if_splits)

text \<open>Every view answers with the digest \<open>resolve\<close> found.\<close>

lemma SBOM_resolves: "fst (SBOM m now st family ref) = Inr (d, cs) \<Longrightarrow> \<exists>repo. resolve m family ref = Inr (repo, d)"
  by (auto simp: SBOM_def Let_def split: sum.splits option.splits prod.splits)

lemma Document_resolves: "Document m family ref = Inr (d, p) \<Longrightarrow> \<exists>repo. resolve m family ref = Inr (repo, d)"
  by (auto simp: Document_def split: sum.splits)

lemma Scan_resolves: "fst (Scan m now st family ref) = Inr (d, s) \<Longrightarrow> \<exists>repo. resolve m family ref = Inr (repo, d)"
  by (auto simp: Scan_def Let_def split: sum.splits option.splits prod.splits)

lemma ScanDocument_resolves: "ScanDocument m family ref = Inr (d, p) \<Longrightarrow> \<exists>repo. resolve m family ref = Inr (repo, d)"
  by (auto simp: ScanDocument_def split: sum.splits)

lemma Scans_resolves: "fst (Scans m now st family ref) = Inr (d, s) \<Longrightarrow> \<exists>repo. resolve m family ref = Inr (repo, d)"
  by (auto simp: Scans_def Let_def split: sum.splits option.splits prod.splits if_splits)

lemmas view_resolves = SBOM_resolves Document_resolves Scan_resolves ScanDocument_resolves Scans_resolves

lemma client_source_simps [simp]:
  "src_SBOM (client_source m now st) f r = fst (SBOM m now st f r)"
  "src_Document (client_source m now st) f r = Document m f r"
  "src_Scan (client_source m now st) f r = fst (Scan m now st f r)"
  "src_ScanDocument (client_source m now st) f r = ScanDocument m f r"
  "src_Scans (client_source m now st) f r = fst (Scans m now st f r)"
  by (simp_all add: client_source_def)

lemma client_view_resolves:
  "view_digest (client_source m now st) x family ref = Some d \<Longrightarrow> \<exists>repo. resolve m family ref = Inr (repo, d)"
  unfolding view_digest_def client_source_simps
  by (auto dest: view_resolves split: if_splits sum.splits prod.splits)

interpretation client: evidence_source "client_source m now st" for m now st
proof
  fix ref x family d assume "view_digest (client_source m now st) x family ref = Some d"
  then obtain repo where r: "resolve m family ref = Inr (repo, d)" using client_view_resolves by blast
  show "validRef ref \<Longrightarrow> digestPattern d" using resolve_digest(2) [OF r] by simp
  show "isDigest ref \<Longrightarrow> d = ref" using resolve_digest(1) [OF r] by simp
qed


section \<open>The lookups of the tags\<close>

fun task_weight :: "task \<Rightarrow> nat" where
  "task_weight Waiting = 0"
| "task_weight Holding = 1"
| "task_weight Finished = 2"

definition progress :: "task list \<Rightarrow> nat" where
  "progress ts = sum_list (map task_weight ts)"

lemma progress_bound: "progress ts \<le> 2 * length ts"
proof (induction ts)
  case (Cons t ts)
  then show ?case by (cases t) (simp_all add: progress_def)
qed (simp add: progress_def)

lemma sum_list_update:
  "i < length ts \<Longrightarrow> sum_list (map f (ts[i := t])) + f (ts ! i) = sum_list (map f ts) + f t"
  for f :: "task \<Rightarrow> nat"
proof (induction ts arbitrary: i)
  case (Cons x xs)
  then show ?case by (cases i) fastforce+
qed simp

lemma holding_sum: "holding ts = sum_list (map (\<lambda>t. if t = Holding then 1 else 0) ts)"
  by (induction ts) (simp_all add: holding_def)

lemma progress_update:
  "i < length ts \<Longrightarrow> progress (ts[i := t]) + task_weight (ts ! i) = progress ts + task_weight t"
  unfolding progress_def by (rule sum_list_update)

lemma holding_update:
  "i < length ts \<Longrightarrow>
     holding (ts[i := t]) + (if ts ! i = Holding then 1 else 0) = holding ts + (if t = Holding then 1 else 0)"
  unfolding holding_sum by (rule sum_list_update)

text \<open>A slot holds the zero version until its goroutine is done, and what was looked up after.\<close>

definition fan_inv :: "mirror \<Rightarrow> string \<Rightarrow> string list \<Rightarrow> fan_state \<Rightarrow> bool" where
  "fan_inv m repo tags s \<longleftrightarrow>
     (case s of (ts, vs) \<Rightarrow>
        length ts = length tags \<and> length vs = length tags \<and> holding ts \<le> maxTagLookups \<and>
        (\<forall>i < length tags. vs ! i = (if ts ! i = Finished then head_version m repo (tags ! i) else zero_version)))"

lemma fan_inv_start: "fan_inv m repo tags (fan_start tags)"
  by (simp add: fan_inv_def fan_start_def holding_def o_def)

lemma fan_inv_step: "fan_step m repo tags s s' \<Longrightarrow> fan_inv m repo tags s \<Longrightarrow> fan_inv m repo tags s'"
proof (induction rule: fan_step.induct)
  case (acquire i ts vs)
  then show ?case using holding_update [of i ts Holding]
    by (auto simp: fan_inv_def nth_list_update)
next
  case (release i ts vs)
  then show ?case using holding_update [of i ts Finished]
    by (auto simp: fan_inv_def nth_list_update head_version_def split: sum.split)
qed

lemma fan_step_progress: "fan_step m repo tags s s' \<Longrightarrow> progress (fst s') = Suc (progress (fst s))"
proof (induction rule: fan_step.induct)
  case (acquire i ts vs)
  then show ?case using progress_update [of i ts Holding] by simp
next
  case (release i ts vs)
  then show ?case using progress_update [of i ts Finished] by simp
qed

lemma fan_no_deadlock:
  assumes "length ts = length tags" "\<not> list_all (\<lambda>t. t = Finished) ts"
  shows "\<exists>s'. fan_step m repo tags (ts, vs) s'"
proof (cases "\<exists>i < length ts. ts ! i = Holding")
  case True
  then show ?thesis using fan_step.release by blast
next
  case False
  then have "filter (\<lambda>t. t = Holding) ts = []" by (auto simp: filter_empty_conv in_set_conv_nth)
  then have "holding ts < maxTagLookups" by (simp add: holding_def maxTagLookups_def)
  moreover obtain i where "i < length ts" "ts ! i \<noteq> Finished"
    using assms(2) by (auto simp: list_all_length)
  moreover from this have "ts ! i = Waiting" using False by (cases "ts ! i") blast+
  ultimately show ?thesis using fan_step.acquire by blast
qed

interpretation fan: terminating_runs "fan_step m repo tags" "fan_inv m repo tags"
    "\<lambda>s. list_all (\<lambda>t. t = Finished) (fst s)" "\<lambda>s. 2 * length (fst s) - progress (fst s)" for m repo tags
proof
  fix s s' assume s: "fan_inv m repo tags s" "fan_step m repo tags s s'"
  show s': "fan_inv m repo tags s'" by (rule fan_inv_step [OF s(2,1)])
  have "length (fst s) = length (fst s')" using s(1) s' by (auto simp: fan_inv_def)
  then show "2 * length (fst s') - progress (fst s') < 2 * length (fst s) - progress (fst s)"
    using fan_step_progress [OF s(2)] progress_bound [of "fst s'"] by simp
next
  fix s assume "fan_inv m repo tags s" "\<not> list_all (\<lambda>t. t = Finished) (fst s)"
  then show "\<exists>s'. fan_step m repo tags s s'"
    using fan_no_deadlock by (cases s) (auto simp: fan_inv_def)
qed

text \<open>
  C12: the concurrent lookups of a versions page. In every interleaving at most
  \<open>maxTagLookups\<close> goroutines look up at once, no run is longer than two steps per tag, a run that
  has not finished can go on (the channel never deadlocks) until all goroutines are done, and then the
  slots are the same whatever the order was: each tag's own lookup.
\<close>

theorem fan_out_deterministic:
  assumes "(fan_step m repo tags ^^ k) (fan_start tags) (ts, vs)"
  shows "holding ts \<le> maxTagLookups \<and> k \<le> 2 * length tags \<and>
    (if list_all (\<lambda>t. t = Finished) ts then vs = map (head_version m repo) tags
     else (\<exists>s'. fan_step m repo tags (ts, vs) s')) \<and>
    (\<exists>n s'. (fan_step m repo tags ^^ n) (ts, vs) s' \<and> list_all (\<lambda>t. t = Finished) (fst s'))"
proof -
  have "progress (fst (fan_start tags)) = 0" "length (fst (fan_start tags)) = length tags"
    by (simp_all add: fan_start_def progress_def o_def)
  then have run: "fan_inv m repo tags (ts, vs)" "k + (2 * length ts - progress ts) \<le> 2 * length tags"
    using fan.run [OF fan_inv_start assms] by simp_all
  from run(1) have len: "length ts = length tags" "length vs = length tags"
    and slots: "\<And>i. i < length tags \<Longrightarrow>
        vs ! i = (if ts ! i = Finished then head_version m repo (tags ! i) else zero_version)"
    by (auto simp: fan_inv_def)
  have "vs = map (head_version m repo) tags" if "list_all (\<lambda>t. t = Finished) ts"
    using that len slots by (intro nth_equalityI) (auto simp: list_all_length)
  moreover have "k \<le> 2 * length tags" using run by linarith
  moreover have "holding ts \<le> maxTagLookups" using run by (simp add: fan_inv_def)
  moreover have "\<exists>n s'. (fan_step m repo tags ^^ n) (ts, vs) s' \<and> list_all (\<lambda>t. t = Finished) (fst s')"
    using fan.completes run by blast
  ultimately show ?thesis using fan_no_deadlock [OF len(1)] by simp
qed

section \<open>What is attached to a digest\<close>

text \<open>The verified statements on a digest, in referrer order: what the callbacks are shown.\<close>

definition attached :: "mirror \<Rightarrow> string \<Rightarrow> string \<Rightarrow> statement list result" where
  "attached m repo digest =
     eachStatement m repo digest (\<lambda>ss st. (ss @ [st], False)) []"

definition verified_of :: "mirror \<Rightarrow> string \<Rightarrow> string \<Rightarrow> hash list \<Rightarrow> statement list" where
  "verified_of m repo digest rs =
     List.map_filter (\<lambda>r. case statement m repo r digest of Inl _ \<Rightarrow> None | Inr st \<Rightarrow> Some st) rs"

lemma verified_of_simps [simp]:
  "verified_of m repo digest [] = []"
  "verified_of m repo digest (r # rs) =
     (case statement m repo r digest of Inl _ \<Rightarrow> verified_of m repo digest rs
      | Inr st \<Rightarrow> st # verified_of m repo digest rs)"
  by (simp_all add: verified_of_def split: sum.split)

lemma each_loop_collect:
  "each_loop m repo digest (\<lambda>ss st. (ss @ [st], False)) acc rs = acc @ verified_of m repo digest rs"
  by (induction rs arbitrary: acc) (simp_all split: sum.split)

lemma each_loop_find:
  "each_loop m repo digest
     (\<lambda>found st. if st_Type st \<noteq> want then (found, False) else (Some (st_Predicate st), True)) None rs
   = map_option st_Predicate (find (\<lambda>st. st_Type st = want) (verified_of m repo digest rs))"
  by (induction rs) (simp_all split: sum.split)

lemma each_loop_group:
  "each_loop m repo digest (\<lambda>found st. (found(st_Type st := found (st_Type st) @ [st]), False)) acc rs
   = (\<lambda>t. acc t @ filter (\<lambda>st. st_Type st = t) (verified_of m repo digest rs))"
  by (induction rs arbitrary: acc) (auto simp: fun_eq_iff split: sum.split)

lemma attached_simp:
  "attached m repo digest =
     (case rg_Referrers (mi_reg m) repo digest of
        Inl err \<Rightarrow> Inl (''listing referrers of '' @ repo @ ''@'' @ digest @ '': '' @ err)
      | Inr (Inl err) \<Rightarrow> Inl (''reading referrers of '' @ repo @ ''@'' @ digest @ '': '' @ err)
      | Inr (Inr rs) \<Rightarrow> Inr (verified_of m repo digest rs))"
  by (simp add: attached_def eachStatement_def each_loop_collect split: sum.split)

lemma predicate_attached:
  "predicate m repo digest want = Inr p \<longleftrightarrow>
     (\<exists>ss st. attached m repo digest = Inr ss \<and> find (\<lambda>st. st_Type st = want) ss = Some st \<and>
        p = st_Predicate st)"
  unfolding predicate_def eachStatement_def each_loop_find attached_simp
  by (auto split: sum.split option.split)

lemma predicates_attached:
  "predicates m repo digest =
     (case attached m repo digest of Inl err \<Rightarrow> Inl err
      | Inr ss \<Rightarrow> Inr (\<lambda>t. filter (\<lambda>st. st_Type st = t) ss))"
  unfolding predicates_def eachStatement_def each_loop_group attached_simp by (simp split: sum.split)

text \<open>A statement accepted for a digest: the verifier took a layer of one of its referrers.\<close>

definition evidence :: "mirror \<Rightarrow> string \<Rightarrow> string \<Rightarrow> statement \<Rightarrow> bool" where
  "evidence m repo digest st \<longleftrightarrow>
     (\<exists>rs r img layers l content.
        rg_Referrers (mi_reg m) repo digest = Inr (Inr rs) \<and> r \<in> set rs \<and>
        rg_Image (mi_reg m) repo (Hash_String r) = Inr img \<and> img_Layers img = Inr layers \<and>
        l \<in> set layers \<and> layer_Uncompressed l = Inr content \<and>
        mi_Verify m (limit_read maxAttestationBytes content) digest = Inr st)"

lemma statement_layers_verified:
  "statement_layers m digest ls = Inr st \<Longrightarrow>
     \<exists>l \<in> set ls. \<exists>content. layer_Uncompressed l = Inr content \<and>
       mi_Verify m (limit_read maxAttestationBytes content) digest = Inr st"
  by (induction ls) (auto split: sum.splits)

lemma attached_evidence:
  assumes "attached m repo digest = Inr ss" "st \<in> set ss"
  shows "evidence m repo digest st"
proof -
  obtain rs where rs: "rg_Referrers (mi_reg m) repo digest = Inr (Inr rs)"
    and ss: "ss = verified_of m repo digest rs"
    using assms(1) by (auto simp: attached_simp split: sum.splits)
  have "\<exists>r \<in> set rs. statement m repo r digest = Inr st"
    using assms(2) unfolding ss by (induction rs) (auto split: sum.splits)
  then obtain r where r: "r \<in> set rs" and s: "statement m repo r digest = Inr st" by blast
  then obtain img layers where i: "rg_Image (mi_reg m) repo (Hash_String r) = Inr img"
    "img_Layers img = Inr layers" "statement_layers m digest layers = Inr st"
    by (auto simp: statement_def split: sum.splits)
  with rs r statement_layers_verified [OF i(3)] show ?thesis unfolding evidence_def by blast
qed

end
