(* ===== verification/Mirror_Laws.thy ===== *)
theory Mirror_Laws
  imports Mirror_Client
begin

text \<open>
  What the client of web/internal/mirror promises across requests: everything it answers was read
  from a statement verified for the digest it names, however long ago and whoever asked; a scan
  is never older than its lifetime; and the history page agrees with the scan page. The requests
  are a step relation over the client's caches, in a world in which the registry may change at
  any time.
\<close>

section \<open>Reading without the caches\<close>

definition fresh_components :: "mirror \<Rightarrow> string \<Rightarrow> string \<Rightarrow> component list result" where
  "fresh_components m repo digest =
     (case predicate m repo digest CycloneDX of
        Inl err \<Rightarrow> Inl err
      | Inr p \<Rightarrow>
          (case mi_decodeBOM m p of
             Inl err \<Rightarrow> Inl (''decoding CycloneDX predicate: '' @ err)
           | Inr b \<Rightarrow> Inr (components b)))"

definition fresh_scan :: "mirror \<Rightarrow> string \<Rightarrow> string \<Rightarrow> scan result" where
  "fresh_scan m repo digest =
     (case attached m repo digest of
        Inl err \<Rightarrow> Inl err
      | Inr ss \<Rightarrow>
          (case newestScan (filter (\<lambda>s. st_Type s = Vuln) ss) of
             Inl err \<Rightarrow> Inl (err @ '' attached to '' @ repo @ ''@'' @ digest)
           | Inr (scn, raw) \<Rightarrow> Inr (apply_vex (filter (\<lambda>s. st_Type s = OpenVEX) ss) scn)))"

definition fresh_series :: "mirror \<Rightarrow> string \<Rightarrow> string \<Rightarrow> scan list result" where
  "fresh_series m repo digest =
     (case attached m repo digest of
        Inl err \<Rightarrow> Inl err
      | Inr ss \<Rightarrow>
          (let series = decode_series (filter (\<lambda>s. st_Type s = Vuln) ss)
           in if series = [] then Inl (''no verified vulnerability scan attached to '' @ repo @ ''@'' @ digest)
              else Inr (sort_stable compareFinished
                (case newestStatement (filter (\<lambda>s. st_Type s = OpenVEX) ss) of
                   None \<Rightarrow> series
                 | Some vex \<Rightarrow> suppress_series (st_Predicate vex) series))))"

text \<open>The common shape of the three cached views.\<close>

definition through_cache :: "(unit lru \<Rightarrow> string \<Rightarrow> time \<Rightarrow> bool) \<Rightarrow> time \<Rightarrow> (string \<times> string) result \<Rightarrow>
    'v lru \<Rightarrow> (string \<Rightarrow> string \<Rightarrow> 'v result) \<Rightarrow> (string \<times> 'v) result \<times> 'v lru" where
  "through_cache keep now target c read =
     (case target of
        Inl err \<Rightarrow> (Inl err, c)
      | Inr (repo, digest) \<Rightarrow>
          (case lru_Get keep now digest c of
             (Some v, c') \<Rightarrow> (Inr (digest, v), c')
           | (None, c') \<Rightarrow>
               (case read repo digest of
                  Inl err \<Rightarrow> (Inl err, c')
                | Inr v \<Rightarrow> (Inr (digest, v), lru_Add now digest v c'))))"

lemma SBOM_through:
  "SBOM m now st family ref =
     (case through_cache (keeps m) now (resolve m family ref) (cl_cache st) (fresh_components m) of
        (res, c) \<Rightarrow> (res, st\<lparr>cl_cache := c\<rparr>))"
  by (auto simp: SBOM_def through_cache_def fresh_components_def Let_def
      split: sum.splits option.splits prod.splits)

lemma Scan_through:
  "Scan m now st family ref =
     (case through_cache (keeps_ttl m) now (resolve m family ref) (cl_scans st) (fresh_scan m) of
        (res, c) \<Rightarrow> (res, st\<lparr>cl_scans := c\<rparr>))"
  by (auto simp: Scan_def through_cache_def fresh_scan_def predicates_attached Let_def
      split: sum.splits option.splits prod.splits)

lemma Scans_through:
  "Scans m now st family ref =
     (case through_cache (keeps_ttl m) now (resolve m family ref) (cl_series st) (fresh_series m) of
        (res, c) \<Rightarrow> (res, st\<lparr>cl_series := c\<rparr>))"
  by (auto simp: Scans_def through_cache_def fresh_series_def predicates_attached Let_def
      split: sum.splits option.splits prod.splits if_splits)

section \<open>What a cache holds\<close>

fun last_time :: "string \<Rightarrow> 'v lru \<Rightarrow> time option" where
  "last_time k [] = None"
| "last_time k (Added k' t v # c) = (if k' = k then Some t else last_time k c)"
| "last_time k (Got k' t # c) = last_time k c"

lemma last_time_shape: "last_time k (map (map_call f) c) = last_time k c"
  by (induction c rule: last_time.induct [where ?a0.0 = k]) auto

lemma last_added_entry:
  "last_added k c = Some v \<Longrightarrow> \<exists>t. last_time k c = Some t \<and> Added k t v \<in> set c"
proof (induction c)
  case (Cons x c)
  then show ?case by (cases x) (auto split: if_splits)
qed simp

text \<open>Where the answer of a cached view, and an entry of its cache after it, come from.\<close>

lemma through_cache_answer:
  assumes "fst (through_cache keep now target c read) = Inr (d, v)"
  shows "\<exists>repo. target = Inr (repo, d) \<and>
    (read repo d = Inr v \<or>
     (\<exists>t. keep (map (map_call (\<lambda>_. ())) c) d now \<and> last_time d c = Some t \<and> Added d t v \<in> set c))"
  using assms last_added_entry [of d c v]
  by (auto simp: through_cache_def lru_Get_def split: sum.splits prod.splits option.splits if_splits)

lemma through_cache_entry:
  assumes "Added k t v \<in> set (snd (through_cache keep now target c read))"
  shows "Added k t v \<in> set c \<or> (t = now \<and> (\<exists>repo. target = Inr (repo, k) \<and> read repo k = Inr v))"
  using assms
  by (auto simp: through_cache_def lru_Get_def lru_Add_def split: sum.splits prod.splits option.splits if_splits)

section \<open>Requests over time\<close>

inductive reachable :: "(time \<Rightarrow> mirror) \<Rightarrow> client \<Rightarrow> bool" for w where
  start: "reachable w New"
| sbom: "reachable w st \<Longrightarrow> reachable w (snd (SBOM (w t) t st family ref))"
| scan: "reachable w st \<Longrightarrow> reachable w (snd (Scan (w t) t st family ref))"
| scans: "reachable w st \<Longrightarrow> reachable w (snd (Scans (w t) t st family ref))"
| moves: "reachable w st \<Longrightarrow> reachable w (snd (Moves (w t) t st family))"
| versions: "reachable w st \<Longrightarrow> reachable w (snd (Versions (w t) t st family))"

definition read_before :: "(time \<Rightarrow> mirror) \<Rightarrow> (mirror \<Rightarrow> string \<Rightarrow> string \<Rightarrow> 'v result) \<Rightarrow> 'v lru \<Rightarrow> bool" where
  "read_before w read c \<longleftrightarrow> (\<forall>k t v. Added k t v \<in> set c \<longrightarrow> (\<exists>repo. read (w t) repo k = Inr v))"

lemma read_before_through:
  "read_before w read c \<Longrightarrow> read_before w read (snd (through_cache keep t target c (read (w t))))"
  unfolding read_before_def using through_cache_entry [of _ _ _ keep t target c "read (w t)"] by blast

lemma Moves_other_caches:
  "cl_cache (snd (Moves m now st family)) = cl_cache st"
  "cl_scans (snd (Moves m now st family)) = cl_scans st"
  "cl_series (snd (Moves m now st family)) = cl_series st"
  by (auto simp: Moves_def Let_def split: sum.splits prod.splits option.splits)

lemma build_of_other_caches:
  "cl_cache (snd (build_of m now st repo d)) = cl_cache st"
  "cl_scans (snd (build_of m now st repo d)) = cl_scans st"
  "cl_series (snd (build_of m now st repo d)) = cl_series st"
  by (auto simp: build_of_def Let_def split: sum.splits prod.splits option.splits)

lemma describe_loop_other_caches:
  "cl_cache (snd (describe_loop m now repo vs ds st)) = cl_cache st \<and>
   cl_scans (snd (describe_loop m now repo vs ds st)) = cl_scans st \<and>
   cl_series (snd (describe_loop m now repo vs ds st)) = cl_series st"
proof (induction vs arbitrary: ds st)
  case (Cons v vs)
  show ?case
  proof (cases "map_of ds (v_Digest v)")
    case None
    obtain res st' where b: "build_of m now st repo (v_Digest v) = (res, st')" by force
    then show ?thesis
      using Cons.IH [of _ st'] build_of_other_caches [of m now st repo "v_Digest v"] None by (simp add: Let_def)
  qed (use Cons.IH in simp)
qed simp

lemma Versions_other_caches:
  "cl_cache (snd (Versions m now st family)) = cl_cache st"
  "cl_scans (snd (Versions m now st family)) = cl_scans st"
  "cl_series (snd (Versions m now st family)) = cl_series st"
  using describe_loop_other_caches
  by (auto simp: Versions_def describe_def Let_def split: sum.splits prod.splits)
    (metis snd_conv)+

lemmas other_caches = Moves_other_caches Versions_other_caches

lemma through_snd:
  "cl_cache (snd (SBOM m now st family ref)) =
     snd (through_cache (keeps m) now (resolve m family ref) (cl_cache st) (fresh_components m))"
  "cl_scans (snd (SBOM m now st family ref)) = cl_scans st"
  "cl_series (snd (SBOM m now st family ref)) = cl_series st"
  "cl_scans (snd (Scan m now st family ref)) =
     snd (through_cache (keeps_ttl m) now (resolve m family ref) (cl_scans st) (fresh_scan m))"
  "cl_cache (snd (Scan m now st family ref)) = cl_cache st"
  "cl_series (snd (Scan m now st family ref)) = cl_series st"
  "cl_series (snd (Scans m now st family ref)) =
     snd (through_cache (keeps_ttl m) now (resolve m family ref) (cl_series st) (fresh_series m))"
  "cl_cache (snd (Scans m now st family ref)) = cl_cache st"
  "cl_scans (snd (Scans m now st family ref)) = cl_scans st"
  by (simp_all add: SBOM_through Scan_through Scans_through split: prod.split)

text \<open>Every entry of the caches was read from the registry, for its digest, when it was added.\<close>

lemma reachable_read:
  "reachable w st \<Longrightarrow>
     read_before w fresh_components (cl_cache st) \<and> read_before w fresh_scan (cl_scans st) \<and>
     read_before w fresh_series (cl_series st)"
proof (induction rule: reachable.induct)
  case start
  show ?case by (simp add: New_def read_before_def)
qed (simp_all add: through_snd other_caches read_before_through)

section \<open>Only verified evidence is shown\<close>

lemma fresh_components_evidence:
  assumes "fresh_components m repo d = Inr cs"
  shows "\<exists>st b. evidence m repo d st \<and> st_Type st = CycloneDX \<and>
    mi_decodeBOM m (st_Predicate st) = Inr b \<and> cs = components b"
proof -
  obtain p b where p: "predicate m repo d CycloneDX = Inr p" and b: "mi_decodeBOM m p = Inr b" "cs = components b"
    using assms by (auto simp: fresh_components_def split: sum.splits)
  obtain ss st where "attached m repo d = Inr ss" "find (\<lambda>st. st_Type st = CycloneDX) ss = Some st"
    "p = st_Predicate st"
    using p predicate_attached by blast
  moreover from this have "st \<in> set ss" "st_Type st = CycloneDX" by (auto simp: find_Some_iff)
  ultimately show ?thesis using attached_evidence b by blast
qed

lemma SBOM_from_evidence:
  assumes "reachable w st" "fst (SBOM (w now) now st family ref) = Inr (d, cs)"
  shows "\<exists>t repo s b. evidence (w t) repo d s \<and> st_Type s = CycloneDX \<and>
    mi_decodeBOM (w t) (st_Predicate s) = Inr b \<and> cs = components b"
proof -
  have "fst (through_cache (keeps (w now)) now (resolve (w now) family ref) (cl_cache st)
      (fresh_components (w now))) = Inr (d, cs)"
    using assms(2) by (simp add: SBOM_through split: prod.splits)
  from through_cache_answer [OF this] consider
      repo where "fresh_components (w now) repo d = Inr cs"
    | t where "Added d t cs \<in> set (cl_cache st)"
    by blast
  then obtain t repo where "fresh_components (w t) repo d = Inr cs"
    using reachable_read [OF assms(1)] unfolding read_before_def by metis
  from fresh_components_evidence [OF this] show ?thesis by blast
qed

text \<open>
  C2: after any history of requests, in a registry that may have changed all the while, the
  components an SBOM page shows are the projection of a CycloneDX statement that the verifier
  accepted for exactly the digest the page names.
\<close>

theorem SBOM_verified:
  assumes "reachable w st" "fst (SBOM (w now) now st family ref) = Inr (d, cs)"
  shows "\<exists>t repo s b. evidence (w t) repo d s \<and> st_Type s = CycloneDX \<and>
    mi_decodeBOM (w t) (st_Predicate s) = Inr b \<and> cs = components b"
  using assms by (rule SBOM_from_evidence)

text \<open>
  C3: a scan is never older than its lifetime: whatever was requested before, the scan a page
  shows is what the registry held for that digest at some instant no earlier than \<open>mi_scanTTL\<close>
  ago, read from its verified records then, provided only that the library drops an entry once
  its lifetime is over.
\<close>

theorem Scan_fresh:
  assumes "reachable w st" "fst (Scan (w now) now st family ref) = Inr (d, scn)"
    and "\<And>log k t. keeps_ttl (w now) log k now \<Longrightarrow> last_time k log = Some t \<Longrightarrow> now - mi_scanTTL (w now) \<le> t"
    and "0 \<le> mi_scanTTL (w now)"
  shows "\<exists>t repo ss found raw. now - mi_scanTTL (w now) \<le> t \<and> attached (w t) repo d = Inr ss \<and>
    newestScan (filter (\<lambda>s. st_Type s = Vuln) ss) = Inr (found, raw) \<and>
    scn = apply_vex (filter (\<lambda>s. st_Type s = OpenVEX) ss) found"
proof -
  have "fst (through_cache (keeps_ttl (w now)) now (resolve (w now) family ref) (cl_scans st)
      (fresh_scan (w now))) = Inr (d, scn)"
    using assms(2) by (simp add: Scan_through split: prod.splits)
  from through_cache_answer [OF this] consider
      repo where "fresh_scan (w now) repo d = Inr scn"
    | t where "keeps_ttl (w now) (map (map_call (\<lambda>_. ())) (cl_scans st)) d now"
        "last_time d (cl_scans st) = Some t" "Added d t scn \<in> set (cl_scans st)"
    by blast
  then obtain t repo where t: "now - mi_scanTTL (w now) \<le> t" and f: "fresh_scan (w t) repo d = Inr scn"
  proof cases
    case 1
    then show ?thesis using that [of now] assms(4) by simp
  next
    case (2 t)
    then have "now - mi_scanTTL (w now) \<le> t" using assms(3) last_time_shape by metis
    moreover obtain repo where "fresh_scan (w t) repo d = Inr scn"
      using 2(3) reachable_read [OF assms(1)] unfolding read_before_def by blast
    ultimately show ?thesis using that by blast
  qed
  then show ?thesis by (fastforce simp: fresh_scan_def split: sum.splits prod.splits)
qed

section \<open>The history and the present\<close>

lemma decode_series_decoded: "decode_series ss = map fst (decoded_scans ss)"
  by (induction ss) (auto simp: decoded_scans_def split: sum.split)

lemma suppress_finished: "suppress s document = Inr s' \<Longrightarrow> s_Finished s' = s_Finished s"
  by (auto simp: suppress_def split: option.splits)

lemma apply_vex_finished [simp]: "s_Finished (apply_vex vs s) = s_Finished s"
  by (simp add: apply_vex_def suppress_finished split: option.split sum.split)

text \<open>Whether a VEX document decodes does not depend on the scan, so the loop stops at once or never.\<close>

lemma suppress_series_map:
  "suppress_series document ss = map (\<lambda>s. case suppress s document of Inl _ \<Rightarrow> s | Inr s' \<Rightarrow> s') ss"
proof (cases "unmarshal dec_vex document")
  case None
  have "(\<lambda>s. case suppress s document of Inl _ \<Rightarrow> s | Inr s' \<Rightarrow> s') = id"
    by (rule ext) (simp add: suppress_def None)
  then show ?thesis by (cases ss) (simp_all add: suppress_def None)
next
  case (Some sts)
  show ?thesis by (induction ss) (simp_all add: suppress_def Some)
qed

lemma fresh_series_sorted:
  "fresh_series m repo d = Inr series \<longleftrightarrow>
     (\<exists>ss. attached m repo d = Inr ss \<and> decode_series (filter (\<lambda>s. st_Type s = Vuln) ss) \<noteq> [] \<and>
        series = sort_stable compareFinished
          (map (apply_vex (filter (\<lambda>s. st_Type s = OpenVEX) ss))
             (decode_series (filter (\<lambda>s. st_Type s = Vuln) ss))))"
  by (auto simp: fresh_series_def suppress_series_map apply_vex_def [abs_def] Let_def
      split: sum.splits option.splits)

interpretation finished_order: three_way compareFinished "\<lambda>_. True"
  unfolding compareFinished_def [abs_def] by (rule three_way_key)


section \<open>A concrete mirror\<close>

text \<open>
  One family, java, with the tag latest; its build carries an SBOM and a scan. The library keeps
  everything for its lifetime.
\<close>

definition sample_layer :: "string \<Rightarrow> remote_image" where
  "sample_layer content =
     \<lparr>img_Layers = Inr [\<lparr>layer_MediaType = Inr ''bundle'', layer_Uncompressed = Inr content\<rparr>],
      img_ConfigFile = Inl ''none'', img_Manifest = Inr [3, 4]\<rparr>"

definition sample_registry :: registry where
  "sample_registry =
     \<lparr>rg_NewRepository = Inr,
      rg_List = (\<lambda>repo. Inr [''latest'', ''21'']),
      rg_Head = (\<lambda>repo tag. if tag = ''latest'' then Inr 7 else Inl (Some 404, ''not found'')),
      rg_Get = (\<lambda>repo d. Inl ''not found''),
      rg_Image = (\<lambda>repo d. Inr (sample_layer (if d = Hash_String 9 then ''sbom'' else ''vuln''))),
      rg_Referrers = (\<lambda>repo d. if repo = ''r/java'' then Inr (Inr [9, 10]) else Inl ''not found'')\<rparr>"

definition sample_mirror :: mirror where
  "sample_mirror =
     \<lparr>mi_registry = ''r'', mi_prefix = '''',
      mi_Verify = (\<lambda>blob d.
        if blob = ''sbom'' then Inr \<lparr>st_Type = CycloneDX, st_Predicate = ''doc'', st_SignedAt = 5\<rparr>
        else if blob = ''vuln'' then Inr \<lparr>st_Type = Vuln, st_Predicate = ''{}'', st_SignedAt = 6\<rparr>
        else Inl ''unverified''),
      mi_reg = sample_registry,
      mi_decodeBOM = (\<lambda>p. Inr \<lparr>bom_Components = Some
        [\<lparr>bc_Name = ''openssl'', bc_Version = ''3'', bc_Licenses = None, bc_PackageURL = '''', bc_CPE = ''''\<rparr>]\<rparr>),
      mi_resident = (\<lambda>n ttl log k now.
        case ttl of None \<Rightarrow> True
        | Some life \<Rightarrow> (case last_time k log of None \<Rightarrow> False | Some t \<Rightarrow> now - life \<le> t)),
      mi_scanTTL = 100\<rparr>"

definition sample_components :: "component list" where
  "sample_components = [\<lparr>c_Name = ''openssl'', c_Version = ''3'', c_License = '''', c_Type = '''', c_PURL = '''',
     c_Arch = '''', c_CPE = ''''\<rparr>]"

definition after_sbom :: client where
  "after_sbom = snd (SBOM sample_mirror 1 New ''java'' ''latest'')"

definition empty_scan :: scan where
  "empty_scan = \<lparr>s_Scanner = '''', s_ScannerURL = '''', s_Database = 0, s_Finished = 0, s_Findings = []\<rparr>"

lemma sample_sbom:
  "fst (SBOM sample_mirror 1 New ''java'' ''latest'') = Inr (Hash_String 7, sample_components)"
  by code_simp

lemma sample_scan:
  "fst (Scan sample_mirror 1 New ''java'' ''latest'') = Inr (Hash_String 7, empty_scan)"
  by code_simp

theorem SBOM_verified_witness:
  "\<exists>repo s b. evidence sample_mirror repo (Hash_String 7) s \<and> st_Type s = CycloneDX \<and>
    mi_decodeBOM sample_mirror (st_Predicate s) = Inr b \<and> sample_components = components b"
  using SBOM_verified [OF reachable.start, of "\<lambda>_. sample_mirror" 1] sample_sbom by blast

theorem Scan_fresh_witness:
  "\<exists>t repo ss found raw. 1 - 100 \<le> (t::int) \<and> attached sample_mirror repo (Hash_String 7) = Inr ss \<and>
    newestScan (filter (\<lambda>s. st_Type s = Vuln) ss) = Inr (found, raw) \<and>
    empty_scan = apply_vex (filter (\<lambda>s. st_Type s = OpenVEX) ss) found"
proof -
  have "mi_scanTTL sample_mirror = 100" by (simp add: sample_mirror_def)
  moreover have "keeps_ttl sample_mirror log k 1 \<Longrightarrow> last_time k log = Some t \<Longrightarrow> 1 - 100 \<le> t" for log k t
    by (simp add: keeps_ttl_def sample_mirror_def)
  ultimately show ?thesis
    using Scan_fresh [OF reachable.start, of "\<lambda>_. sample_mirror" 1 "''java''" "''latest''" "Hash_String 7" empty_scan]
      sample_scan by simp
qed


theorem fan_out_deterministic_witness:
  "holding [Finished] \<le> maxTagLookups \<and> 2 \<le> 2 * length [''latest''] \<and>
    [\<lparr>v_Tag = ''latest'', v_Digest = Hash_String 7, v_Created = 0, v_Sizes = []\<rparr>]
      = map (head_version sample_mirror ''r/java'') [''latest'']"
proof -
  let ?v = "\<lparr>v_Tag = ''latest'', v_Digest = Hash_String 7, v_Created = 0, v_Sizes = []\<rparr>"
  have "fan_step sample_mirror ''r/java'' [''latest''] ([Waiting], [zero_version]) ([Holding], [zero_version])"
    using fan_step.acquire [of 0 "[Waiting]" sample_mirror "''r/java''" "[''latest'']" "[zero_version]"]
    by (simp add: holding_def maxTagLookups_def)
  moreover have "fan_step sample_mirror ''r/java'' [''latest''] ([Holding], [zero_version]) ([Finished], [?v])"
    using fan_step.release [of 0 "[Holding]" sample_mirror "''r/java''" "[''latest'']" "[zero_version]"]
    by (simp add: sample_mirror_def sample_registry_def)
  ultimately have "(fan_step sample_mirror ''r/java'' [''latest''] ^^ 2) (fan_start [''latest'']) ([Finished], [?v])"
    by (auto simp: numeral_2_eq_2 fan_start_def)
  from fan_out_deterministic [OF this] show ?thesis by simp
qed

text \<open>
  The component cache is keyed by the digest alone, not by the family: bash has nothing under
  this digest, and says so, until a reader has looked at java; then the page of bash shows it.
\<close>

theorem SBOM_cache_crosses_families:
  "(\<exists>err. fst (SBOM sample_mirror 2 New ''bash'' (Hash_String 7)) = Inl err) \<and>
    fst (SBOM sample_mirror 2 after_sbom ''bash'' (Hash_String 7)) = Inr (Hash_String 7, sample_components)"
proof -
  have "case fst (SBOM sample_mirror 2 New ''bash'' (Hash_String 7)) of Inl _ \<Rightarrow> True | Inr _ \<Rightarrow> False"
    by code_simp
  then have "\<exists>err. fst (SBOM sample_mirror 2 New ''bash'' (Hash_String 7)) = Inl err"
    by (auto split: sum.splits)
  moreover have
    "fst (SBOM sample_mirror 2 after_sbom ''bash'' (Hash_String 7)) = Inr (Hash_String 7, sample_components)"
    by code_simp
  ultimately show ?thesis by blast
qed

end
