(* ===== verification/Go_Worklist.thy ===== *)
theory Go_Worklist
  imports Go_Prelude
begin

text \<open>
  Searches with a visited set, as the code writes them by hand: a queue that appends what a node
  leads to, or a recursion that follows it first (a stack). Only the nodes of a finite list lead
  anywhere, which is why the loops end. Both find exactly what is reachable.
\<close>

section \<open>The loop\<close>

lemma unseen_decreases:
  "x \<in> set nodes \<Longrightarrow> x \<notin> set seen \<Longrightarrow> card (set nodes - insert x (set seen)) < card (set nodes - set seen)"
  by (rule psubset_card_mono) auto

lemma unseen_outside: "x \<notin> set nodes \<Longrightarrow> set nodes - insert x (set seen) = set nodes - set seen"
  by auto

text \<open>The result is what was visited, latest first.\<close>

function explore :: "bool \<Rightarrow> 'a list \<Rightarrow> ('a \<Rightarrow> 'a list) \<Rightarrow> 'a list \<Rightarrow> 'a list \<Rightarrow> 'a list" where
  "explore queue nodes succ seen [] = seen"
| "explore queue nodes succ seen (x # work) =
     (if x \<in> set seen then explore queue nodes succ seen work
      else if x \<in> set nodes
      then explore queue nodes succ (x # seen) (if queue then work @ succ x else succ x @ work)
      else explore queue nodes succ (x # seen) work)"
  by pat_completeness auto

termination
  by (relation "measures [\<lambda>(queue, nodes, succ, seen, work). card (set nodes - set seen),
      \<lambda>(queue, nodes, succ, seen, work). length work]")
    (auto simp: unseen_decreases unseen_outside simp del: card_Diff_insert)

section \<open>What it finds\<close>

definition edges :: "'a list \<Rightarrow> ('a \<Rightarrow> 'a list) \<Rightarrow> ('a \<times> 'a) set" where
  "edges nodes succ = {(x, y). x \<in> set nodes \<and> y \<in> set (succ x)}"

definition reach :: "'a list \<Rightarrow> ('a \<Rightarrow> 'a list) \<Rightarrow> 'a set \<Rightarrow> 'a set" where
  "reach nodes succ roots = (edges nodes succ)\<^sup>* `` roots"

lemma reach_closed: "edges nodes succ `` A \<subseteq> A \<Longrightarrow> reach nodes succ A = A"
  unfolding reach_def by (rule Image_closed_trancl)

lemma reach_mono: "A \<subseteq> B \<Longrightarrow> reach nodes succ A \<subseteq> reach nodes succ B"
  by (auto simp: reach_def)

lemma reach_roots: "A \<subseteq> reach nodes succ A"
  by (auto simp: reach_def)

lemma reach_Un: "reach nodes succ (A \<union> B) = reach nodes succ A \<union> reach nodes succ B"
  by (auto simp: reach_def)

lemma reach_cong:
  "set nodes = set nodes' \<Longrightarrow> (\<And>x. x \<in> set nodes \<Longrightarrow> set (succ x) = set (succ' x)) \<Longrightarrow>
     reach nodes succ A = reach nodes' succ' A"
  by (simp add: reach_def edges_def cong: conj_cong)

text \<open>A step keeps the invariant: what the visited nodes lead to is visited or waiting.\<close>

definition frontier :: "'a list \<Rightarrow> ('a \<Rightarrow> 'a list) \<Rightarrow> 'a list \<Rightarrow> 'a list \<Rightarrow> bool" where
  "frontier nodes succ seen work \<longleftrightarrow> edges nodes succ `` set seen \<subseteq> set seen \<union> set work"

lemma frontier_step:
  assumes "frontier nodes succ seen (x # work)"
  shows "x \<in> set seen \<Longrightarrow> frontier nodes succ seen work"
    and "x \<in> set nodes \<Longrightarrow> set work' = set work \<union> set (succ x) \<Longrightarrow> frontier nodes succ (x # seen) work'"
    and "x \<notin> set nodes \<Longrightarrow> frontier nodes succ (x # seen) work"
  using assms by (auto simp: frontier_def edges_def)

lemma explore_closed:
  "frontier nodes succ seen work \<Longrightarrow> edges nodes succ `` set (explore queue nodes succ seen work)
     \<subseteq> set (explore queue nodes succ seen work)"
proof (induction queue nodes succ seen work rule: explore.induct)
  case (2 queue nodes succ seen x work)
  note step = frontier_step [OF 2(4)]
  show ?case
  proof (cases "x \<in> set seen")
    case False
    then show ?thesis
    proof (cases "x \<in> set nodes")
      case True
      let ?work = "if queue then work @ succ x else succ x @ work"
      have "frontier nodes succ (x # seen) ?work" by (rule step(2)) (use True in auto)
      from 2(2) [OF False True this] show ?thesis using False True by simp
    qed (use 2(3) step(3) in simp)
  qed (use 2(1) step(1) in simp)
qed (simp add: frontier_def)

lemma explore_contains: "set seen \<union> set work \<subseteq> set (explore queue nodes succ seen work)"
  by (induction queue nodes succ seen work rule: explore.induct) (auto split: if_splits)

lemma explore_sound:
  "set (explore queue nodes succ seen work) \<subseteq> set seen \<union> reach nodes succ (set work)"
proof (induction queue nodes succ seen work rule: explore.induct)
  case (2 queue nodes succ seen x work)
  have work: "reach nodes succ (set work) \<subseteq> reach nodes succ (set (x # work))" by (rule reach_mono) auto
  have x: "x \<in> reach nodes succ (set (x # work))" using reach_roots by fastforce
  show ?case
  proof (cases "x \<in> set seen")
    case True
    then show ?thesis using 2(1) work by auto
  next
    case False
    show ?thesis
    proof (cases "x \<in> set nodes")
      case True
      have "set (succ x) \<subseteq> reach nodes succ {x}"
        using True by (auto simp: reach_def edges_def)
      then have "reach nodes succ (set (succ x)) \<subseteq> reach nodes succ {x}"
        by (auto simp: reach_def intro: rtrancl_trans)
      also have "\<dots> \<subseteq> reach nodes succ (set (x # work))" by (rule reach_mono) auto
      finally have "reach nodes succ (set (if queue then work @ succ x else succ x @ work))
          \<subseteq> reach nodes succ (set (x # work))"
        using work by (auto simp: reach_Un)
      then show ?thesis using 2(2) [OF False True] False True x by auto
    next
      case outside: False
      then show ?thesis using 2(3) [OF False] False work x by auto
    qed
  qed
qed simp

text \<open>What was visited in this search, and not before it, leads to visited nodes only.\<close>

lemma explore_new_closed:
  "edges nodes succ `` (set (explore queue nodes succ seen work) - set seen)
     \<subseteq> set (explore queue nodes succ seen work)"
proof (induction queue nodes succ seen work rule: explore.induct)
  case (2 queue nodes succ seen x work)
  show ?case
  proof (cases "x \<in> set seen")
    case True
    then show ?thesis using 2(1) by simp
  next
    case new: False
    show ?thesis
    proof (cases "x \<in> set nodes")
      case True
      let ?work = "if queue then work @ succ x else succ x @ work"
      let ?r = "explore queue nodes succ (x # seen) ?work"
      have "edges nodes succ `` {x} \<subseteq> set ?work" by (auto simp: edges_def)
      then have "edges nodes succ `` {x} \<subseteq> set ?r"
        using explore_contains [of "x # seen" ?work queue nodes succ] by blast
      moreover have "edges nodes succ `` (set ?r - set (x # seen)) \<subseteq> set ?r" by (rule 2(2) [OF new True])
      moreover have "edges nodes succ `` (set ?r - set seen)
          \<subseteq> edges nodes succ `` {x} \<union> edges nodes succ `` (set ?r - set (x # seen))"
        by (simp only: list.set) blast
      ultimately have "edges nodes succ `` (set ?r - set seen) \<subseteq> set ?r" by blast
      then show ?thesis using new True by simp
    next
      case False
      then have "edges nodes succ `` {x} = {}" by (auto simp: edges_def)
      then show ?thesis using 2(3) [OF new False] new False by auto
    qed
  qed
qed simp

text \<open>The main fact, for any order of the search.\<close>

theorem explore_reach:
  assumes "frontier nodes succ seen work"
  shows "set (explore queue nodes succ seen work) = reach nodes succ (set seen \<union> set work)"
proof
  show "set (explore queue nodes succ seen work) \<subseteq> reach nodes succ (set seen \<union> set work)"
    using explore_sound [of queue nodes succ seen work] reach_roots [of "set seen" nodes succ]
    by (auto simp: reach_Un)
  have "reach nodes succ (set seen \<union> set work)
      \<subseteq> reach nodes succ (set (explore queue nodes succ seen work))"
    by (rule reach_mono [OF explore_contains])
  also have "\<dots> = set (explore queue nodes succ seen work)"
    by (rule reach_closed [OF explore_closed [OF assms]])
  finally show "reach nodes succ (set seen \<union> set work) \<subseteq> set (explore queue nodes succ seen work)" .
qed

corollary explore_from: "set (explore queue nodes succ [] work) = reach nodes succ (set work)"
  using explore_reach [of nodes succ "[]" work] by (simp add: frontier_def)

lemma explore_distinct: "distinct seen \<Longrightarrow> distinct (explore queue nodes succ seen work)"
  by (induction queue nodes succ seen work rule: explore.induct) auto

end
