(* ===== verification/Rpm_Keyring.thy ===== *)
theory Rpm_Keyring
  imports Go_Prelude
begin

text \<open>
  The keyring reader both RPM tools share, \<open>rpm/keyring/keyring.go\<close>: a file of several armored
  public key blocks, each parsed on its own so that one bad block does not hide the others.
  Parsing a block (OpenPGP) is the parameter \<open>readArmored\<close>.
\<close>

section \<open>Blocks\<close>

definition beginMarker :: string where "beginMarker = ''-----BEGIN PGP PUBLIC KEY BLOCK-----''"
definition endMarker :: string where "endMarker = ''-----END PGP PUBLIC KEY BLOCK-----''"

text \<open>The blocks of a keyring; \<open>None\<close> when one has no end. The fuel is the length of the rest.\<close>

fun armor_blocks :: "nat \<Rightarrow> string \<Rightarrow> string list option" where
  "armor_blocks fuel rest =
     (case index_str rest beginMarker of
        None \<Rightarrow> Some []
      | Some b \<Rightarrow>
          (case index_str (drop b rest) endMarker of
             None \<Rightarrow> None
           | Some e \<Rightarrow>
               (case fuel of
                  0 \<Rightarrow> Some []
                | Suc n \<Rightarrow>
                    map_option (Cons (take (e + length endMarker) (drop b rest)))
                      (armor_blocks n (drop (e + length endMarker) (drop b rest))))))"

declare armor_blocks.simps [simp del]

section \<open>Keys\<close>

definition readable_keys :: "(string \<Rightarrow> 'k list result) \<Rightarrow> string list \<Rightarrow> 'k list" where
  "readable_keys readArmored chunks =
     concat (map (\<lambda>c. case readArmored c of Inl _ \<Rightarrow> [] | Inr ks \<Rightarrow> ks) chunks)"

definition ReadMultiBlock :: "(string \<Rightarrow> 'k list result) \<Rightarrow> string \<Rightarrow> string result \<Rightarrow> 'k list result" where
  "ReadMultiBlock readArmored path content =
     (case content of
        Inl err \<Rightarrow> Inl err
      | Inr data \<Rightarrow>
          (case armor_blocks (length data) data of
             None \<Rightarrow> Inl (''unterminated armor block in '' @ path)
           | Some chunks \<Rightarrow>
               if readable_keys readArmored chunks = [] then
                 (case find (\<lambda>c. case readArmored c of Inl _ \<Rightarrow> True | Inr _ \<Rightarrow> False) chunks of
                    Some c \<Rightarrow> Inl (''no usable PGP public keys in '' @ path)
                  | None \<Rightarrow> Inl (''no PGP public key blocks found in '' @ path))
               else Inr (readable_keys readArmored chunks)))"

section \<open>Reading a keyring back\<close>

text \<open>A keyring file: blocks with text around them.\<close>

definition armored :: "string \<Rightarrow> string" where
  "armored body = beginMarker @ CHR 0x0A # body @ endMarker"

fun keyring_file :: "(string \<times> string) list \<Rightarrow> string \<Rightarrow> string" where
  "keyring_file [] tail = tail"
| "keyring_file ((gap, body) # parts) tail = gap @ armored body @ keyring_file parts tail"

definition no_dash :: "string \<Rightarrow> bool" where
  "no_dash s \<longleftrightarrow> CHR ''-'' \<notin> set s"

lemma index_str_first:
  "(\<And>i. i < length a \<Longrightarrow> \<not> has_prefix (drop i a @ p @ r) p) \<Longrightarrow> index_str (a @ p @ r) p = Some (length a)"
proof (induction a)
  case Nil
  then show ?case by (cases p; cases r) (simp_all add: has_prefix_def)
next
  case (Cons x a)
  have "\<not> has_prefix (x # a @ p @ r) p" using Cons.prems [of 0] by simp
  moreover have "index_str (a @ p @ r) p = Some (length a)"
    using Cons.prems [of "Suc _"] by (intro Cons.IH) simp
  ultimately show ?case by simp
qed

lemma index_str_absent:
  "CHR ''-'' \<notin> set s \<Longrightarrow> p \<noteq> [] \<Longrightarrow> hd p = CHR ''-'' \<Longrightarrow> index_str s p = None"
  by (induction s) (auto simp: has_prefix_def take_Cons' neq_Nil_conv)

lemma marker_heads: "beginMarker = CHR ''-'' # tl beginMarker" "endMarker = CHR ''-'' # tl endMarker"
  by (simp_all add: beginMarker_def endMarker_def)

lemma markers:
  "length beginMarker = 36" "length endMarker = 34" "CHR 0x0A \<notin> set endMarker"
  by (simp_all add: beginMarker_def endMarker_def)

lemma not_prefix_dash: "x \<noteq> CHR ''-'' \<Longrightarrow> p = CHR ''-'' # q \<Longrightarrow> \<not> has_prefix (x # s) p"
  by (auto simp: has_prefix_def)

lemma not_prefix_drop:
  assumes "no_dash a" "i < length a" "p = CHR ''-'' # q"
  shows "\<not> has_prefix (drop i a @ s) p"
proof -
  have "drop i a = a ! i # drop (Suc i) a" using assms(2) by (rule Cons_nth_drop_Suc [symmetric])
  moreover have "a ! i \<noteq> CHR ''-''" using assms(1,2) unfolding no_dash_def by (metis nth_mem)
  ultimately show ?thesis using not_prefix_dash [OF _ assms(3)] by simp
qed

lemma has_prefix_break: "has_prefix (u @ c # s) p \<Longrightarrow> c \<notin> set p \<Longrightarrow> length p \<le> length u"
proof (rule ccontr)
  assume p: "has_prefix (u @ c # s) p" "c \<notin> set p" "\<not> length p \<le> length u"
  then obtain r where "u @ c # s = p @ r" by (auto simp: has_prefix_iff)
  then have "(u @ c # s) ! length u = (p @ r) ! length u" by simp
  with p(3) have "p ! length u = c" by (simp add: nth_append)
  with p(2,3) show False using nth_mem [of "length u" p] by simp
qed

lemma end_not_in_begin: "i < 36 \<Longrightarrow> \<not> has_prefix (drop i beginMarker @ CHR 0x0A # s) endMarker"
proof
  assume i: "i < 36" and p: "has_prefix (drop i beginMarker @ CHR 0x0A # s) endMarker"
  have "i \<le> 2" using has_prefix_break [OF p markers(3)] i by (simp add: markers)
  then consider "i = 0" | "i = 1" | "i = 2" by linarith
  then show False using p by cases (simp_all add: has_prefix_def beginMarker_def endMarker_def)
qed

lemma end_after_body:
  assumes "no_dash body"
  shows "index_str (beginMarker @ CHR 0x0A # body @ endMarker @ r) endMarker = Some (37 + length body)"
proof -
  have "index_str ((beginMarker @ CHR 0x0A # body) @ endMarker @ r) endMarker
      = Some (length (beginMarker @ CHR 0x0A # body))"
  proof (rule index_str_first)
    fix i assume i: "i < length (beginMarker @ CHR 0x0A # body)"
    show "\<not> has_prefix (drop i (beginMarker @ CHR 0x0A # body) @ endMarker @ r) endMarker"
    proof (cases "i < 36")
      case True
      then show ?thesis using end_not_in_begin [OF True, of "body @ endMarker @ r"] by (simp add: markers)
    next
      case False
      have "no_dash (CHR 0x0A # body)" using assms by (simp add: no_dash_def)
      from not_prefix_drop [OF this _ marker_heads(2), of "i - 36" "endMarker @ r"] False i
      show ?thesis by (simp add: markers)
    qed
  qed
  then show ?thesis by (simp add: markers)
qed

lemma armor_blocks_file:
  assumes "list_all (\<lambda>(gap, body). no_dash gap \<and> no_dash body) parts" "no_dash tail" "length parts \<le> fuel"
  shows "armor_blocks fuel (keyring_file parts tail) = Some (map (\<lambda>(gap, body). armored body) parts)"
  using assms
proof (induction parts arbitrary: fuel)
  case Nil
  then show ?case
    using index_str_absent [of tail beginMarker]
    by (subst armor_blocks.simps) (simp add: no_dash_def beginMarker_def)
next
  case (Cons part parts)
  obtain gap body where part: "part = (gap, body)" by force
  obtain n where n: "fuel = Suc n" "length parts \<le> n" using Cons.prems(3) by (cases fuel) auto
  let ?r = "keyring_file parts tail"
  have gap: "no_dash gap" and body: "no_dash body" using Cons.prems(1) by (simp_all add: part)
  have "index_str (gap @ beginMarker @ CHR 0x0A # body @ endMarker @ ?r) beginMarker = Some (length gap)"
    by (rule index_str_first) (rule not_prefix_drop [OF gap _ marker_heads(1)])
  then have b: "index_str (gap @ armored body @ ?r) beginMarker = Some (length gap)"
    by (simp add: armored_def)
  have e: "index_str (armored body @ ?r) endMarker = Some (37 + length body)"
    using end_after_body [OF body, of ?r] by (simp add: armored_def)
  have l: "37 + length body + length endMarker = length (armored body)"
    by (simp add: armored_def markers)
  have "armor_blocks n ?r = Some (map (\<lambda>(gap, body). armored body) parts)"
    using Cons.prems n(2) by (intro Cons.IH) simp_all
  then show ?case
    by (subst armor_blocks.simps) (simp add: part n(1) b e l)
qed

lemma keyring_file_length: "length parts \<le> length (keyring_file parts tail)"
  by (induction parts tail rule: keyring_file.induct) (simp_all add: armored_def)



end
