(* ===== verification/Rpm_Pin.thy ===== *)
theory Rpm_Pin
  imports Go_Sort Go_Json Go_Crypto Go_Worklist Rpm_Keyring "HOL-Library.AList"
begin

text \<open>
  bazel/modules/rules_rpm/rpm/tools/pin/main.go: the lockfile of a closed
  list of RPM packages, resolved against a live repository. The network, gzip, the XML decoder,
  OpenPGP's signature check and the version comparison of go-rpmutils are the fields of \<open>rpm_world\<close>; what is
  modelled is the trust chain from signature to package, the choice of versions, the closure over
  requirements and the file written. Warnings on standard error are left out.

  The candidates are a Go map: here an association list, whose order stands for the order a run
  happens to iterate in. The lemmas show that the choice of a provider does not depend on it, that the closure
  is the reachable set, and that nothing is locked that was not vouched for.
\<close>

section \<open>The repository\<close>

record repomd_data =
  rd_Type :: string
  rd_Checksum :: string
  rd_Href :: string

record repomd =
  rm_Revision :: string
  rm_Data :: "repomd_data list"

record primary_version =
  pv_Epoch :: string
  pv_Ver :: string
  pv_Rel :: string

record primary_package =
  pp_Name :: string
  pp_Arch :: string
  pp_Version :: primary_version
  pp_Checksum :: string
  pp_Size :: int
  pp_Href :: string
  pp_License :: string
  pp_SourceRpm :: string
  pp_Provides :: "string list"
  pp_Requires :: "string list"

text \<open>One GET: it fails, or is answered with a status and a body that may fail to arrive.\<close>

datatype http_outcome = TransportError string | Answered nat "string result"

datatype http_error = StatusError nat | OtherError string

record 'k rpm_world =
  rw_Get :: "string \<Rightarrow> nat \<Rightarrow> http_outcome"
  rw_Gunzip :: "string \<Rightarrow> string result"
  rw_Repomd :: "string \<Rightarrow> repomd result"
  rw_Primary :: "string \<Rightarrow> primary_package list result"
  rw_CheckSignature :: "'k \<Rightarrow> string \<Rightarrow> string \<Rightarrow> string option"
  rw_Vercmp :: "string \<Rightarrow> string \<Rightarrow> int"

section \<open>Fetching\<close>

definition httpGetMaxAttempts :: nat where
  "httpGetMaxAttempts = 3"

text \<open>The result of one attempt, and whether another may help.\<close>

definition httpGetOnce :: "http_outcome \<Rightarrow> (http_error + string) \<times> bool" where
  "httpGetOnce res =
     (case res of
        TransportError err \<Rightarrow> (Inl (OtherError err), True)
      | Answered status body \<Rightarrow>
          if 500 \<le> status \<and> status < 600 then (Inl (StatusError status), True)
          else if status \<noteq> 200 then (Inl (StatusError status), False)
          else (case body of Inl err \<Rightarrow> (Inl (OtherError err), True) | Inr b \<Rightarrow> (Inr b, False)))"

text \<open>The loop from attempt \<open>k\<close>, with \<open>n\<close> attempts after it.\<close>

fun get_attempts :: "(nat \<Rightarrow> http_outcome) \<Rightarrow> nat \<Rightarrow> nat \<Rightarrow> http_error + string" where
  "get_attempts answer k 0 = fst (httpGetOnce (answer k))"
| "get_attempts answer k (Suc n) =
     (case httpGetOnce (answer k) of
        (Inr body, _) \<Rightarrow> Inr body
      | (Inl err, retryable) \<Rightarrow> if \<not> retryable then Inl err else get_attempts answer (Suc k) n)"

definition httpGet :: "'k rpm_world \<Rightarrow> string \<Rightarrow> http_error + string" where
  "httpGet w url = get_attempts (rw_Get w url) 1 (httpGetMaxAttempts - 1)"

section \<open>Versions\<close>

definition splitEVR :: "string \<Rightarrow> string \<times> string \<times> string" where
  "splitEVR evr =
     (let (epoch, vr) = (case cut_byte evr CHR '':'' of Some (e, r) \<Rightarrow> (e, r) | None \<Rightarrow> (''0'', evr))
      in case last_index_byte vr CHR ''-'' of
           Some i \<Rightarrow> (epoch, take i vr, drop (Suc i) vr)
         | None \<Rightarrow> (epoch, vr, ''''))"

definition formatEVR :: "primary_version \<Rightarrow> string" where
  "formatEVR v =
     (if pv_Epoch v \<noteq> '''' \<and> pv_Epoch v \<noteq> ''0''
      then pv_Epoch v @ '':'' @ pv_Ver v @ ''-'' @ pv_Rel v
      else pv_Ver v @ ''-'' @ pv_Rel v)"

definition compareEVR :: "(string \<Rightarrow> string \<Rightarrow> int) \<Rightarrow> string \<Rightarrow> string \<Rightarrow> int" where
  "compareEVR vercmp a b =
     (let (ea, va, ra) = splitEVR a; (eb, vb, rb) = splitEVR b
      in if vercmp ea eb \<noteq> 0 then vercmp ea eb
         else if vercmp va vb \<noteq> 0 then vercmp va vb
         else vercmp ra rb)"

section \<open>Candidates\<close>

type_synonym pkg_key = "string \<times> string"

record candidate =
  cd_evr :: string
  cd_sha256 :: string
  cd_path :: string
  cd_size :: int
  cd_upstream :: string
  cd_license :: string
  cd_requires :: "string list"
  cd_provides :: "string list"

definition candidate_of :: "string \<Rightarrow> primary_package \<Rightarrow> candidate" where
  "candidate_of arch p =
     \<lparr>cd_evr = formatEVR (pp_Version p), cd_sha256 = pp_Checksum p, cd_path = arch @ ''/'' @ pp_Href p,
      cd_size = pp_Size p, cd_upstream = pp_SourceRpm p, cd_license = pp_License p,
      cd_requires = pp_Requires p, cd_provides = pp_Provides p\<rparr>"

record pin_state =
  ps_candidates :: "(pkg_key \<times> candidate) list"
  ps_bestEVR :: "(pkg_key \<times> string) list"
  ps_revision :: string
  ps_sha :: string

text \<open>One round of the loop over the packages of the primary of architecture number \<open>i\<close>.\<close>

definition index_package :: "(string \<Rightarrow> string \<Rightarrow> int) \<Rightarrow> nat \<Rightarrow> string \<Rightarrow> primary_package \<Rightarrow> pin_state \<Rightarrow> pin_state" where
  "index_package vercmp i arch p st =
     (if pp_Arch p \<noteq> arch \<and> pp_Arch p \<noteq> ''noarch'' then st
      else if pp_Arch p = ''noarch'' \<and> 0 < i then st
      else
        (let key = (pp_Name p, pp_Arch p); evr = formatEVR (pp_Version p)
         in if (case map_of (ps_bestEVR st) key of Some cur \<Rightarrow> compareEVR vercmp evr cur \<le> 0 | None \<Rightarrow> False)
            then st
            else st\<lparr>ps_bestEVR := AList.update key evr (ps_bestEVR st),
                    ps_candidates := AList.update key (candidate_of arch p) (ps_candidates st)\<rparr>))"

datatype sig_policy = Required | Optional

definition parseRepomdSigPolicy :: "string \<Rightarrow> sig_policy result" where
  "parseRepomdSigPolicy s =
     (if s = ''required'' then Inr Required else if s = ''optional'' then Inr Optional
      else Inl (''--repomd-signature: unknown value '' @ s))"

text \<open>The signature of one repomd.xml: nothing, or the error. \<open>None\<close> as trust root checks nothing.\<close>

definition check_repomd :: "'k rpm_world \<Rightarrow> 'k option \<Rightarrow> sig_policy \<Rightarrow> string \<Rightarrow> string \<Rightarrow> string \<Rightarrow> string option" where
  "check_repomd w trustRoot policy arch url content =
     (case trustRoot of
        None \<Rightarrow> None
      | Some keys \<Rightarrow>
          (case httpGet w (url @ ''.asc'') of
             Inl err \<Rightarrow>
               if policy = Optional \<and> err = StatusError 404 then None
               else Some (''fetch repomd.xml.asc '' @ arch)
           | Inr sig \<Rightarrow>
               (case rw_CheckSignature w keys content sig of
                  None \<Rightarrow> None
                | Some err \<Rightarrow> Some (''verify repomd.xml.asc '' @ arch @ '': '' @ err))))"

definition primary_entry :: "repomd \<Rightarrow> (string \<times> string)" where
  "primary_entry rm =
     (case find (\<lambda>d. rd_Type d = ''primary'') (rm_Data rm) of
        Some d \<Rightarrow> (rd_Href d, rd_Checksum d)
      | None \<Rightarrow> ('''', ''''))"

text \<open>The packages of one architecture, with the revision and the digest of its repomd.xml.\<close>

definition read_arch :: "'k rpm_world \<Rightarrow> 'k option \<Rightarrow> sig_policy \<Rightarrow> string \<Rightarrow> string \<Rightarrow>
    (string \<times> string \<times> primary_package list) result" where
  "read_arch w trustRoot policy repoURL arch =
     (let url = repoURL @ ''/'' @ arch @ ''/repodata/repomd.xml''
      in case httpGet w url of
           Inl _ \<Rightarrow> Inl (''fetch repomd '' @ arch)
         | Inr content \<Rightarrow>
             (case check_repomd w trustRoot policy arch url content of
                Some err \<Rightarrow> Inl err
              | None \<Rightarrow>
                  (case rw_Repomd w content of
                     Inl err \<Rightarrow> Inl (''parse repomd '' @ arch @ '': '' @ err)
                   | Inr rm \<Rightarrow>
                       (let (href, sha) = primary_entry rm
                        in if href = '''' then Inl (''repomd '' @ arch @ '' missing primary data entry'')
                           else (case httpGet w (repoURL @ ''/'' @ arch @ ''/'' @ href) of
                               Inl _ \<Rightarrow> Inl (''fetch primary '' @ arch)
                             | Inr gz \<Rightarrow>
                                 if hex_encode (sha256 gz) \<noteq> sha
                                 then Inl (''primary.xml.gz sha mismatch for '' @ arch)
                                 else (case rw_Gunzip w gz of
                                     Inl err \<Rightarrow> Inl (''gunzip '' @ arch @ '': '' @ err)
                                   | Inr xml \<Rightarrow>
                                       (case rw_Primary w xml of
                                          Inl err \<Rightarrow> Inl (''parse primary '' @ arch @ '': '' @ err)
                                        | Inr pkgs \<Rightarrow>
                                            Inr (rm_Revision rm, hex_encode (sha256 content), pkgs))))))))"

text \<open>The loop over the declared architectures, from number \<open>i\<close>.\<close>

fun read_arches :: "'k rpm_world \<Rightarrow> 'k option \<Rightarrow> sig_policy \<Rightarrow> string \<Rightarrow> nat \<Rightarrow> string list \<Rightarrow> pin_state \<Rightarrow>
    pin_state result" where
  "read_arches w trustRoot policy repoURL i [] st = Inr st"
| "read_arches w trustRoot policy repoURL i (arch # arches) st =
     (case read_arch w trustRoot policy repoURL arch of
        Inl err \<Rightarrow> Inl err
      | Inr (revision, sha, pkgs) \<Rightarrow>
          (let st = (if i = 0 then st\<lparr>ps_revision := revision, ps_sha := sha\<rparr> else st)
           in read_arches w trustRoot policy repoURL (Suc i) arches
                (foldl (\<lambda>s p. index_package (rw_Vercmp w) i arch p s) st pkgs)))"

section \<open>The closure\<close>

type_synonym provides = "string \<Rightarrow> pkg_key list"

definition add_provider :: "string \<Rightarrow> pkg_key \<Rightarrow> provides \<Rightarrow> provides" where
  "add_provider cap key ix = ix(cap := ix cap @ [key])"

definition providesIndex :: "(pkg_key \<times> candidate) list \<Rightarrow> provides" where
  "providesIndex candidates =
     foldl (\<lambda>ix (key, c). foldl (\<lambda>ix p. add_provider p key ix) (add_provider (fst key) key ix) (cd_provides c))
       (\<lambda>_. []) candidates"

definition skipRequire :: "string \<Rightarrow> bool" where
  "skipRequire name \<longleftrightarrow>
     has_prefix name ''rpmlib('' \<or> has_prefix name ''config('' \<or> has_prefix name ''solvable:'' \<or>
     has_prefix name ''/'' \<or> has_prefix name ''(''"

definition provider_less :: "string \<Rightarrow> pkg_key \<Rightarrow> pkg_key \<Rightarrow> bool" where
  "provider_less targetArch a b = (if fst a \<noteq> fst b then fst a < fst b else snd a = targetArch)"

definition pickProvider :: "pkg_key list \<Rightarrow> string \<Rightarrow> pkg_key option" where
  "pickProvider providers targetArch =
     (let compatible = filter (\<lambda>p. snd p = targetArch \<or> snd p = ''noarch'') providers
      in if compatible = [] then None else Some (hd (sort_less (provider_less targetArch) compatible)))"

text \<open>What one candidate adds to the worklist; a requirement nobody provides is skipped.\<close>

definition requirements :: "(pkg_key \<times> candidate) list \<Rightarrow> provides \<Rightarrow> string \<Rightarrow> pkg_key \<Rightarrow> pkg_key list" where
  "requirements candidates ix arch cur =
     (case map_of candidates cur of
        None \<Rightarrow> []
      | Some c \<Rightarrow>
          List.map_filter (\<lambda>req. if skipRequire req then None else pickProvider (ix req) arch) (cd_requires c))"

definition root_of :: "(pkg_key \<times> candidate) list \<Rightarrow> string \<Rightarrow> string \<Rightarrow> pkg_key result" where
  "root_of candidates arch name =
     (if map_of candidates (name, arch) \<noteq> None then Inr (name, arch)
      else if map_of candidates (name, ''noarch'') \<noteq> None then Inr (name, ''noarch'')
      else Inl (''declared package '' @ name @ '' not found in repo for arch '' @ arch))"

fun roots_of :: "(pkg_key \<times> candidate) list \<Rightarrow> string \<Rightarrow> string list \<Rightarrow> pkg_key list result" where
  "roots_of candidates arch [] = Inr []"
| "roots_of candidates arch (name # names) =
     (case root_of candidates arch name of
        Inl err \<Rightarrow> Inl err
      | Inr key \<Rightarrow>
          (case roots_of candidates arch names of Inl err \<Rightarrow> Inl err | Inr keys \<Rightarrow> Inr (key # keys)))"

text \<open>The keys marked in the map \<open>closure\<close>, shared by the rounds of all architectures.\<close>

fun close_arches :: "(pkg_key \<times> candidate) list \<Rightarrow> provides \<Rightarrow> string list \<Rightarrow> string list \<Rightarrow> pkg_key list \<Rightarrow>
    pkg_key list result" where
  "close_arches candidates ix [] pkgs closure = Inr closure"
| "close_arches candidates ix (arch # arches) pkgs closure =
     (case roots_of candidates arch pkgs of
        Inl err \<Rightarrow> Inl err
      | Inr worklist \<Rightarrow>
          close_arches candidates ix arches pkgs
            (explore True (map fst candidates) (requirements candidates ix arch) closure worklist))"

definition closeDeps :: "(pkg_key \<times> candidate) list \<Rightarrow> provides \<Rightarrow> string list \<Rightarrow> string list \<Rightarrow>
    pkg_key list result" where
  "closeDeps candidates ix declaredArches declaredPkgs =
     close_arches candidates ix declaredArches declaredPkgs []"

section \<open>The lockfile\<close>

record lock_entry =
  le_Version :: string
  le_Sha256 :: string
  le_Path :: string
  le_Size :: int
  le_License :: string
  le_Upstream :: string

definition lock_entry_of :: "candidate \<Rightarrow> lock_entry" where
  "lock_entry_of c =
     \<lparr>le_Version = cd_evr c, le_Sha256 = cd_sha256 c, le_Path = cd_path c, le_Size = cd_size c,
      le_License = cd_license c, le_Upstream = cd_upstream c\<rparr>"

type_synonym locked = "(string \<times> (string \<times> lock_entry) list) list"

record pin_lockfile =
  lf_SchemaVersion :: int
  lf_URL :: string
  lf_Revision :: string
  lf_RepomdSha256 :: string
  lf_Packages :: locked

definition lock_package :: "(pkg_key \<times> candidate) list \<Rightarrow> pkg_key \<Rightarrow> locked \<Rightarrow> locked" where
  "lock_package candidates key out =
     (case map_of candidates key of
        None \<Rightarrow> out
      | Some c \<Rightarrow>
          (let arches = (case map_of out (fst key) of None \<Rightarrow> [] | Some a \<Rightarrow> a)
           in AList.update (fst key) (AList.update (snd key) (lock_entry_of c) arches) out))"

definition lock_packages :: "(pkg_key \<times> candidate) list \<Rightarrow> pkg_key list \<Rightarrow> locked" where
  "lock_packages candidates closure = foldl (\<lambda>out key. lock_package candidates key out) [] closure"

definition missing_of :: "locked \<Rightarrow> string list \<Rightarrow> string \<Rightarrow> string list" where
  "missing_of best declaredArches name =
     (case map_of best name of
        None \<Rightarrow> [name]
      | Some entries \<Rightarrow>
          if entries = [] then [name]
          else if map_of entries ''noarch'' \<noteq> None then []
          else map (\<lambda>arch. name @ '' [missing '' @ arch @ '']'')
                 (filter (\<lambda>arch. map_of entries arch = None) declaredArches))"

definition validate :: "locked \<Rightarrow> string list \<Rightarrow> string list \<Rightarrow> string option" where
  "validate best declaredArches declaredPkgs =
     (let missing = concat (map (missing_of best declaredArches) declaredPkgs)
      in if missing = [] then None
         else Some (''closed manifest unresolved: '' @ join '', '' (sort_strings missing)))"

definition pin_resolve :: "'k rpm_world \<Rightarrow> string \<Rightarrow> string list \<Rightarrow> string list \<Rightarrow> 'k option \<Rightarrow> sig_policy \<Rightarrow>
    pin_lockfile result" where
  "pin_resolve w repo declaredArches declaredPkgs trustRoot policy =
     (let repoURL = trim_right repo ''/''
      in case read_arches w trustRoot policy repoURL 0 declaredArches
               \<lparr>ps_candidates = [], ps_bestEVR = [], ps_revision = '''', ps_sha = ''''\<rparr> of
           Inl err \<Rightarrow> Inl err
         | Inr st \<Rightarrow>
             (case closeDeps (ps_candidates st) (providesIndex (ps_candidates st)) declaredArches declaredPkgs of
                Inl err \<Rightarrow> Inl err
              | Inr closure \<Rightarrow>
                  (let out = lock_packages (ps_candidates st) closure
                   in case validate out declaredArches declaredPkgs of
                        Some err \<Rightarrow> Inl err
                      | None \<Rightarrow>
                          Inr \<lparr>lf_SchemaVersion = 1, lf_URL = repoURL, lf_Revision = ps_revision st,
                               lf_RepomdSha256 = ps_sha st, lf_Packages = out\<rparr>)))"

definition splitCSV :: "string \<Rightarrow> string list" where
  "splitCSV s = filter (\<lambda>p. p \<noteq> '''') (map trim_space (split_byte s CHR '',''))"

definition stripLabelPrefix :: "string \<Rightarrow> string" where
  "stripLabelPrefix label =
     (let s = trim_prefix (trim_prefix label ''@@'') ''//''
      in case cut_byte s CHR '':'' of
           Some (pkg, name) \<Rightarrow> if pkg = '''' then name else pkg @ ''/'' @ name
         | None \<Rightarrow> s)"

text \<open>What is written: the maps in the order of their keys, optional members left out when empty.\<close>

definition by_key :: "(string \<times> 'a) list \<Rightarrow> (string \<times> 'a) list" where
  "by_key kvs = sort_stable (\<lambda>a b. cmp_compare (fst a) (fst b)) kvs"

definition lock_entry_json :: "lock_entry \<Rightarrow> json" where
  "lock_entry_json e =
     JObject ([(''version'', JString (le_Version e)), (''sha256'', JString (le_Sha256 e)),
               (''path'', JString (le_Path e)), (''size'', JNumber (itoa_int (le_Size e)))]
              @ (if le_License e = '''' then [] else [(''license'', JString (le_License e))])
              @ (if le_Upstream e = '''' then [] else [(''upstream'', JString (le_Upstream e))]))"

definition lockfile_json :: "pin_lockfile \<Rightarrow> json" where
  "lockfile_json l =
     JObject [(''schema_version'', JNumber (itoa_int (lf_SchemaVersion l))),
              (''repo'', JObject [(''url'', JString (lf_URL l)), (''revision'', JString (lf_Revision l)),
                                (''repomd_sha256'', JString (lf_RepomdSha256 l))]),
              (''packages'', JObject (map (\<lambda>(name, arches).
                 (name, JObject (map (\<lambda>(arch, e). (arch, lock_entry_json e)) (by_key arches))))
                 (by_key (lf_Packages l))))]"

definition writeLockfile :: "pin_lockfile \<Rightarrow> string" where
  "writeLockfile l = marshal_indent 0 (lockfile_json l) @ [CHR 0x0A]"

section \<open>The command\<close>

record pin_flags =
  pf_repoURL :: string
  pf_gpgKey :: string
  pf_packages :: string
  pf_architectures :: string
  pf_lockOut :: string
  pf_sigPolicy :: string

text \<open>The exit code, and the file written with its content.\<close>

definition pin_main :: "'e list rpm_world \<Rightarrow> (string \<Rightarrow> 'e list result) \<Rightarrow> (string \<Rightarrow> string result) \<Rightarrow>
    (string \<Rightarrow> string option) \<Rightarrow> pin_flags \<Rightarrow> nat \<times> (string \<times> string) option" where
  "pin_main w readArmored readFile writeFile flags =
     (if pf_repoURL flags = '''' \<or> pf_packages flags = '''' \<or> pf_architectures flags = '''' \<or>
         pf_lockOut flags = '''' then (2, None)
      else
        (case parseRepomdSigPolicy (pf_sigPolicy flags) of
           Inl _ \<Rightarrow> (2, None)
         | Inr policy \<Rightarrow>
             (let arches = splitCSV (pf_architectures flags); pkgs = splitCSV (pf_packages flags)
              in if arches = [] \<or> pkgs = [] then (2, None)
                 else
                   (case (if pf_gpgKey flags \<noteq> ''''
                          then map_sum id Some
                            (ReadMultiBlock readArmored (pf_gpgKey flags) (readFile (pf_gpgKey flags)))
                          else Inr None) of
                      Inl _ \<Rightarrow> (1, None)
                    | Inr trustRoot \<Rightarrow>
                        (case pin_resolve w (pf_repoURL flags) arches pkgs trustRoot policy of
                           Inl _ \<Rightarrow> (1, None)
                         | Inr lock \<Rightarrow>
                             (let path = stripLabelPrefix (pf_lockOut flags)
                              in case writeFile path of
                                   Some _ \<Rightarrow> (1, None)
                                 | None \<Rightarrow> (0, Some (path, writeLockfile lock))))))))"

section \<open>Versions\<close>

lemma last_index_byte_mid: "c \<notin> set b \<Longrightarrow> last_index_byte (a @ c # b) c = Some (length a)"
  by (rule last_index_byte_append)

text \<open>
  Reading back a version written by \<open>formatEVR\<close> gives its three fields, an absent epoch as
  zero, for any version without a colon and any release without a colon or hyphen.
\<close>

theorem splitEVR_formatEVR:
  assumes "CHR '':'' \<notin> set (pv_Epoch v)" "CHR '':'' \<notin> set (pv_Ver v)" "CHR '':'' \<notin> set (pv_Rel v)"
    "CHR ''-'' \<notin> set (pv_Rel v)"
  shows "splitEVR (formatEVR v) =
    (if pv_Epoch v = '''' then ''0'' else pv_Epoch v, pv_Ver v, pv_Rel v)"
proof -
  have l: "last_index_byte (pv_Ver v @ CHR ''-'' # pv_Rel v) CHR ''-'' = Some (length (pv_Ver v))"
    by (rule last_index_byte_mid) fact
  show ?thesis
  proof (cases "pv_Epoch v = '''' \<or> pv_Epoch v = ''0''")
    case True
    have "cut_byte (pv_Ver v @ CHR ''-'' # pv_Rel v) CHR '':'' = None"
      using assms by (simp add: cut_byte_None_iff)
    with True l show ?thesis by (auto simp: formatEVR_def splitEVR_def)
  next
    case False
    have "cut_byte (pv_Epoch v @ CHR '':'' # pv_Ver v @ CHR ''-'' # pv_Rel v) CHR '':''
        = Some (pv_Epoch v, pv_Ver v @ CHR ''-'' # pv_Rel v)"
      using assms by simp
    with False l show ?thesis by (simp add: formatEVR_def splitEVR_def)
  qed
qed

theorem splitEVR_formatEVR_witness:
  "splitEVR (formatEVR \<lparr>pv_Epoch = ''2'', pv_Ver = ''1.0-rc'', pv_Rel = ''3.el9''\<rparr>) = (''2'', ''1.0-rc'', ''3.el9'')"
  by (subst splitEVR_formatEVR) simp_all

text \<open>Given a version comparison that is a total preorder, so is the comparison of whole versions.\<close>

lemma compareEVR_cmp_or:
  "compareEVR vercmp a b =
     cmp_or [vercmp (fst (splitEVR a)) (fst (splitEVR b)),
             vercmp (fst (snd (splitEVR a))) (fst (snd (splitEVR b))),
             vercmp (snd (snd (splitEVR a))) (snd (snd (splitEVR b)))]"
  by (simp add: compareEVR_def Let_def split: prod.split)

lemma compareEVR_three_way:
  assumes "three_way vercmp (\<lambda>_. True)"
  shows "three_way (compareEVR vercmp) (\<lambda>_. True)"
  unfolding compareEVR_cmp_or [abs_def]
  by (intro three_way_cmp_or3 three_way_pullback [OF assms])

section \<open>The highest version wins\<close>

text \<open>The packages that count for an architecture: its own, and noarch ones in the first round.\<close>

definition eligible :: "nat \<Rightarrow> string \<Rightarrow> primary_package \<Rightarrow> bool" where
  "eligible i arch p \<longleftrightarrow>
     (pp_Arch p = arch \<or> pp_Arch p = ''noarch'') \<and> \<not> (pp_Arch p = ''noarch'' \<and> 0 < i)"

definition pkg_key_of :: "primary_package \<Rightarrow> pkg_key" where
  "pkg_key_of p = (pp_Name p, pp_Arch p)"

text \<open>Both maps of a state agree, and what is held is at least as new as all that was read.\<close>

definition holds_best :: "(string \<Rightarrow> string \<Rightarrow> int) \<Rightarrow> primary_package set \<Rightarrow> pin_state \<Rightarrow> bool" where
  "holds_best vercmp seen st \<longleftrightarrow>
     (\<forall>k. map_of (ps_bestEVR st) k = map_option cd_evr (map_of (ps_candidates st) k)) \<and>
     (\<forall>p \<in> seen. \<exists>c. map_of (ps_candidates st) (pkg_key_of p) = Some c \<and>
        compareEVR vercmp (formatEVR (pp_Version p)) (cd_evr c) \<le> 0)"

lemma index_package_eq:
  "index_package vercmp i arch p st =
     (if \<not> eligible i arch p then st
      else if (case map_of (ps_bestEVR st) (pkg_key_of p) of
                 Some cur \<Rightarrow> compareEVR vercmp (formatEVR (pp_Version p)) cur \<le> 0 | None \<Rightarrow> False)
      then st
      else st\<lparr>ps_bestEVR := AList.update (pkg_key_of p) (formatEVR (pp_Version p)) (ps_bestEVR st),
              ps_candidates := AList.update (pkg_key_of p) (candidate_of arch p) (ps_candidates st)\<rparr>)"
  by (auto simp: index_package_def eligible_def pkg_key_of_def Let_def)

lemma candidate_of_evr [simp]: "cd_evr (candidate_of arch p) = formatEVR (pp_Version p)"
  by (simp add: candidate_of_def)

lemma index_package_best:
  assumes cmp: "three_way vercmp (\<lambda>_. True)" and st: "holds_best vercmp seen st"
  shows "holds_best vercmp (if eligible i arch p then insert p seen else seen) (index_package vercmp i arch p st)"
proof (cases "eligible i arch p")
  case el: True
  note evr = compareEVR_three_way [OF cmp]
  let ?k = "pkg_key_of p" and ?e = "formatEVR (pp_Version p)"
  have b: "map_of (ps_bestEVR st) ?k = map_option cd_evr (map_of (ps_candidates st) ?k)"
    using st unfolding holds_best_def by blast
  show ?thesis
  proof (cases "\<exists>c. map_of (ps_candidates st) ?k = Some c \<and> compareEVR vercmp ?e (cd_evr c) \<le> 0")
    case True
    then obtain c where c: "map_of (ps_candidates st) ?k = Some c" "compareEVR vercmp ?e (cd_evr c) \<le> 0"
      by blast
    have "index_package vercmp i arch p st = st" by (simp add: index_package_eq b c)
    then show ?thesis using st c el by (simp add: holds_best_def)
  next
    case False
    let ?st = "st\<lparr>ps_bestEVR := AList.update ?k ?e (ps_bestEVR st),
                  ps_candidates := AList.update ?k (candidate_of arch p) (ps_candidates st)\<rparr>"
    have e: "index_package vercmp i arch p st = ?st"
      using False el by (auto simp: index_package_eq b split: option.split)
    have "compareEVR vercmp (formatEVR (pp_Version q)) ?e \<le> 0"
      if q: "q \<in> insert p seen" "pkg_key_of q = ?k" for q
    proof (cases "q = p")
      case True
      then show ?thesis using three_way.refl_zero [OF evr] by simp
    next
      case neq: False
      then obtain c where c: "map_of (ps_candidates st) ?k = Some c"
        "compareEVR vercmp (formatEVR (pp_Version q)) (cd_evr c) \<le> 0"
        using st q by (auto simp: holds_best_def)
      then have "compareEVR vercmp (cd_evr c) ?e \<le> 0"
        using False three_way.not_less [OF evr, of ?e "cd_evr c"] by auto
      with c three_way.le_trans [OF evr] show ?thesis by blast
    qed
    then show ?thesis using st unfolding e
      by (auto simp: holds_best_def update_conv' el)
  qed
qed (use st in \<open>simp add: index_package_eq\<close>)


definition pin_start :: pin_state where
  "pin_start = \<lparr>ps_candidates = [], ps_bestEVR = [], ps_revision = '''', ps_sha = ''''\<rparr>"

section \<open>The choice of a provider\<close>

lemma sort_less_least:
  assumes m: "m \<in> set xs" and least: "\<And>y. y \<in> set xs \<Longrightarrow> y \<noteq> m \<Longrightarrow> lt m y \<and> \<not> lt y m"
  shows "hd (sort_less lt xs) = m"
proof (cases "lt m m")
  case True
  obtain as bs where s: "xs = as @ m # bs" "m \<notin> set bs" using split_list_last [OF m] by blast
  have "lt m y" if "y \<in> set as" for y using that True least [of y] by (cases "y = m") (auto simp: s)
  moreover have "\<not> lt y m" "lt m y" if "y \<in> set bs" for y using that least [of y] s by auto
  ultimately have "\<exists>ys. sort_less lt xs = m # ys"
    unfolding sort_less_def by (intro sort_stable_least [OF s(1)]) auto
  then show ?thesis by auto
next
  case False
  obtain as bs where s: "xs = as @ m # bs" "m \<notin> set as" using split_list_first [OF m] by blast
  have "lt m y" if "y \<in> set as" for y using that least [of y] s by auto
  moreover have "\<not> lt y m" if "y \<in> set bs" for y using that False least [of y] by (cases "y = m") (auto simp: s)
  ultimately have "\<exists>ys. sort_less lt xs = m # ys"
    unfolding sort_less_def by (intro sort_stable_least [OF s(1)]) auto
  then show ?thesis by auto
qed

text \<open>The provider the choice falls on.\<close>

definition least_provider :: "string \<Rightarrow> pkg_key set \<Rightarrow> pkg_key \<Rightarrow> bool" where
  "least_provider arch A m \<longleftrightarrow>
     m \<in> A \<and> (\<forall>y \<in> A. y \<noteq> m \<longrightarrow> provider_less arch m y \<and> \<not> provider_less arch y m)"

lemma least_provider_unique: "least_provider arch A m \<Longrightarrow> least_provider arch A m' \<Longrightarrow> m = m'"
  by (auto simp: least_provider_def)

lemma provider_total:
  assumes "snd a = arch \<or> snd a = ''noarch''" "snd b = arch \<or> snd b = ''noarch''" "a \<noteq> b"
  shows "(provider_less arch a b \<and> \<not> provider_less arch b a) \<or> (provider_less arch b a \<and> \<not> provider_less arch a b)"
  using assms by (cases a; cases b) (auto simp: provider_less_def)

lemma provider_trans:
  assumes "provider_less arch a b \<and> \<not> provider_less arch b a" "provider_less arch b c \<and> \<not> provider_less arch c b"
  shows "provider_less arch a c \<and> \<not> provider_less arch c a"
  using assms by (auto simp: provider_less_def split: if_splits)

lemma least_provider_exists:
  "xs \<noteq> [] \<Longrightarrow> list_all (\<lambda>p. snd p = arch \<or> snd p = ''noarch'') xs \<Longrightarrow> \<exists>m. least_provider arch (set xs) m"
proof (induction xs rule: list_nonempty_induct)
  case (single x)
  then show ?case by (auto simp: least_provider_def)
next
  case (cons x xs)
  then obtain m where m: "least_provider arch (set xs) m" by auto
  then have mx: "m \<in> set xs" by (simp add: least_provider_def)
  then have ok: "snd m = arch \<or> snd m = ''noarch''" "snd x = arch \<or> snd x = ''noarch''"
    using cons.prems by (auto simp: list_all_iff)
  show ?case
  proof (cases "x = m \<or> (provider_less arch m x \<and> \<not> provider_less arch x m)")
    case True
    then have "least_provider arch (set (x # xs)) m" using m by (auto simp: least_provider_def)
    then show ?thesis by blast
  next
    case False
    then have x: "provider_less arch x m \<and> \<not> provider_less arch m x" using provider_total [OF ok] by blast
    have "provider_less arch x y \<and> \<not> provider_less arch y x" if "y \<in> set xs" for y
      using provider_trans [OF x, of y] x m that by (cases "y = m") (auto simp: least_provider_def)
    then have "least_provider arch (set (x # xs)) x" by (auto simp: least_provider_def)
    then show ?thesis by blast
  qed
qed

definition compatible :: "string \<Rightarrow> pkg_key list \<Rightarrow> pkg_key list" where
  "compatible arch ps = filter (\<lambda>p. snd p = arch \<or> snd p = ''noarch'') ps"

lemma pickProvider_least:
  "pickProvider ps arch = None \<and> compatible arch ps = [] \<or>
   (\<exists>m. pickProvider ps arch = Some m \<and> least_provider arch (set (compatible arch ps)) m)"
proof (cases "compatible arch ps = []")
  case False
  then obtain m where m: "least_provider arch (set (compatible arch ps)) m"
    using least_provider_exists [of "compatible arch ps" arch] by (auto simp: compatible_def list_all_iff)
  then have "hd (sort_less (provider_less arch) (compatible arch ps)) = m"
    by (intro sort_less_least) (auto simp: least_provider_def)
  with m False show ?thesis by (auto simp: pickProvider_def compatible_def)
qed (simp add: pickProvider_def compatible_def)



lemma pickProvider_arch: "pickProvider ps arch = Some m \<Longrightarrow> m \<in> set ps \<and> (snd m = arch \<or> snd m = ''noarch'')"
  using pickProvider_least [of ps arch] by (auto simp: least_provider_def compatible_def)

section \<open>The closure\<close>

text \<open>The nodes a search for an architecture can stand on.\<close>

definition of_arch :: "string \<Rightarrow> pkg_key set" where
  "of_arch arch = {k. snd k = arch \<or> snd k = ''noarch''}"

lemma requirements_arch: "set (requirements cands ix arch k) \<subseteq> of_arch arch"
  using pickProvider_arch
  by (fastforce simp: requirements_def of_arch_def List.map_filter_def split: option.splits if_splits)

lemma roots_of_Inr:
  "roots_of cands arch names = Inr keys \<Longrightarrow> set keys = {k. \<exists>name \<in> set names. root_of cands arch name = Inr k}"
  by (induction names arbitrary: keys) (auto split: sum.splits)

lemma root_of_arch: "root_of cands arch name = Inr k \<Longrightarrow> k \<in> of_arch arch"
  by (auto simp: root_of_def of_arch_def split: if_splits)

text \<open>What the declared packages need on one architecture.\<close>

definition needed :: "(pkg_key \<times> candidate) list \<Rightarrow> provides \<Rightarrow> string list \<Rightarrow> string \<Rightarrow> pkg_key set" where
  "needed cands ix pkgs arch =
     reach (map fst cands) (requirements cands ix arch)
       {k. \<exists>name \<in> set pkgs. root_of cands arch name = Inr k}"

lemma needed_arch: "needed cands ix pkgs arch \<subseteq> of_arch arch"
proof
  fix y assume "y \<in> needed cands ix pkgs arch"
  then obtain x where x: "x \<in> of_arch arch"
    and xy: "(x, y) \<in> (edges (map fst cands) (requirements cands ix arch))\<^sup>*"
    unfolding needed_def reach_def using root_of_arch by blast
  from xy x show "y \<in> of_arch arch"
  proof (induction rule: rtrancl_induct)
    case (step y z)
    then show ?case using requirements_arch [of cands ix arch y] by (auto simp: edges_def)
  qed
qed

lemma needed_closed:
  "edges (map fst cands) (requirements cands ix arch) `` needed cands ix pkgs arch \<subseteq> needed cands ix pkgs arch"
  by (auto simp: needed_def reach_def intro: rtrancl_into_rtrancl)

text \<open>
  A round for a further architecture adds exactly what that architecture needs, if a noarch
  package needs the same packages on it as on the architectures before.
\<close>

lemma close_round:
  assumes earlier: "set closure = (\<Union>a \<in> set before. needed cands ix pkgs a)"
    and new: "arch \<notin> set before"
    and same: "\<And>a k. a \<in> set before \<Longrightarrow> snd k = ''noarch'' \<Longrightarrow>
      set (requirements cands ix a k) = set (requirements cands ix arch k)"
    and roots: "set work = {k. \<exists>name \<in> set pkgs. root_of cands arch name = Inr k}"
  shows "set (explore True (map fst cands) (requirements cands ix arch) closure work)
    = set closure \<union> needed cands ix pkgs arch"
proof
  let ?E = "edges (map fst cands) (requirements cands ix arch)"
  let ?r = "set (explore True (map fst cands) (requirements cands ix arch) closure work)"
  show "?r \<subseteq> set closure \<union> needed cands ix pkgs arch"
    unfolding needed_def roots [symmetric] by (rule explore_sound)
  have sub: "set closure \<union> set work \<subseteq> ?r" by (rule explore_contains)
  have "?E `` (?r \<inter> of_arch arch) \<subseteq> ?r \<inter> of_arch arch"
  proof
    fix y assume "y \<in> ?E `` (?r \<inter> of_arch arch)"
    then obtain x where x: "x \<in> ?r" "x \<in> of_arch arch" and e: "(x, y) \<in> ?E" by blast
    have "y \<in> of_arch arch" using e requirements_arch [of cands ix arch x] by (auto simp: edges_def)
    moreover have "y \<in> ?r"
    proof (cases "x \<in> set closure")
      case True
      then obtain a where a: "a \<in> set before" "x \<in> needed cands ix pkgs a" using earlier by blast
      then have "snd x = ''noarch''"
        using needed_arch [of cands ix pkgs a] x(2) new by (auto simp: of_arch_def)
      then have "(x, y) \<in> edges (map fst cands) (requirements cands ix a)"
        using e same [OF a(1)] by (simp add: edges_def)
      then have "y \<in> needed cands ix pkgs a" using needed_closed [of cands ix a pkgs] a(2) by blast
      then show ?thesis using a(1) earlier sub by blast
    next
      case False
      then show ?thesis
        using explore_new_closed [of "map fst cands" "requirements cands ix arch" True closure work] x(1) e
        by blast
    qed
    ultimately show "y \<in> ?r \<inter> of_arch arch" by blast
  qed
  then have "reach (map fst cands) (requirements cands ix arch) (?r \<inter> of_arch arch) = ?r \<inter> of_arch arch"
    by (rule reach_closed)
  moreover have "set work \<subseteq> ?r \<inter> of_arch arch" using sub root_of_arch by (auto simp: roots)
  ultimately have "needed cands ix pkgs arch \<subseteq> ?r"
    unfolding needed_def roots [symmetric] using reach_mono by blast
  with sub show "set closure \<union> needed cands ix pkgs arch \<subseteq> ?r" by blast
qed

text \<open>A noarch package needs the same packages on every architecture.\<close>

definition noarch_agree :: "(pkg_key \<times> candidate) list \<Rightarrow> provides \<Rightarrow> string list \<Rightarrow> bool" where
  "noarch_agree cands ix arches \<longleftrightarrow>
     (\<forall>a \<in> set arches. \<forall>b \<in> set arches. \<forall>k. snd k = ''noarch'' \<longrightarrow>
        set (requirements cands ix a k) = set (requirements cands ix b k))"

lemma close_arches_needed:
  assumes "close_arches cands ix arches pkgs closure = Inr c"
    and "set closure = (\<Union>a \<in> set before. needed cands ix pkgs a)"
    and "distinct (before @ arches)" "noarch_agree cands ix (before @ arches)"
  shows "set c = (\<Union>a \<in> set (before @ arches). needed cands ix pkgs a)"
  using assms
proof (induction arches arbitrary: closure before)
  case (Cons arch arches)
  obtain work where w: "roots_of cands arch pkgs = Inr work"
    using Cons.prems(1) by (auto split: sum.splits)
  let ?c = "explore True (map fst cands) (requirements cands ix arch) closure work"
  have "set ?c = set closure \<union> needed cands ix pkgs arch"
    by (rule close_round [OF Cons.prems(2) _ _ roots_of_Inr [OF w]])
      (use Cons.prems(3,4) in \<open>auto simp: noarch_agree_def\<close>)
  then have "set ?c = (\<Union>a \<in> set (before @ [arch]). needed cands ix pkgs a)" using Cons.prems(2) by auto
  moreover have "close_arches cands ix arches pkgs ?c = Inr c" using Cons.prems(1) w by simp
  ultimately show ?case using Cons.IH [of ?c "before @ [arch]"] Cons.prems(3,4) by simp
qed simp


section \<open>The chain of trust\<close>

text \<open>
  A package is vouched for when it is listed in a primary whose digest stands in a repomd.xml
  that the trust root signed; a missing signature is accepted only where the policy says so.
\<close>

definition vouched :: "'k rpm_world \<Rightarrow> 'k option \<Rightarrow> sig_policy \<Rightarrow> string \<Rightarrow> string \<Rightarrow> primary_package \<Rightarrow> bool" where
  "vouched w trustRoot policy repoURL arch p \<longleftrightarrow>
     (\<exists>content rm gz xml pkgs.
        httpGet w (repoURL @ ''/'' @ arch @ ''/repodata/repomd.xml'') = Inr content \<and>
        (case trustRoot of
           None \<Rightarrow> True
         | Some keys \<Rightarrow>
             (case httpGet w (repoURL @ ''/'' @ arch @ ''/repodata/repomd.xml.asc'') of
                Inr sig \<Rightarrow> rw_CheckSignature w keys content sig = None
              | Inl err \<Rightarrow> policy = Optional \<and> err = StatusError 404)) \<and>
        rw_Repomd w content = Inr rm \<and>
        httpGet w (repoURL @ ''/'' @ arch @ ''/'' @ fst (primary_entry rm)) = Inr gz \<and>
        hex_encode (sha256 gz) = snd (primary_entry rm) \<and>
        rw_Gunzip w gz = Inr xml \<and> rw_Primary w xml = Inr pkgs \<and> p \<in> set pkgs)"

lemma check_repomd_None:
  assumes "check_repomd w trustRoot policy arch url content = None"
  shows "case trustRoot of None \<Rightarrow> True
    | Some keys \<Rightarrow>
        (case httpGet w (url @ ''.asc'') of
           Inr sig \<Rightarrow> rw_CheckSignature w keys content sig = None
         | Inl err \<Rightarrow> policy = Optional \<and> err = StatusError 404)"
  using assms by (auto simp: check_repomd_def split: option.splits sum.splits if_splits)

lemma read_arch_vouched:
  assumes "read_arch w trustRoot policy repoURL arch = Inr (revision, sha, pkgs)" "p \<in> set pkgs"
  shows "vouched w trustRoot policy repoURL arch p"
proof -
  let ?url = "repoURL @ ''/'' @ arch @ ''/repodata/repomd.xml''"
  obtain content rm gz xml where r: "httpGet w ?url = Inr content"
    "check_repomd w trustRoot policy arch ?url content = None" "rw_Repomd w content = Inr rm"
    "httpGet w (repoURL @ ''/'' @ arch @ ''/'' @ fst (primary_entry rm)) = Inr gz"
    "hex_encode (sha256 gz) = snd (primary_entry rm)" "rw_Gunzip w gz = Inr xml" "rw_Primary w xml = Inr pkgs"
    using assms(1)
    by (auto simp: read_arch_def Let_def split: sum.splits option.splits prod.splits if_splits)
  have "?url @ ''.asc'' = repoURL @ ''/'' @ arch @ ''/repodata/repomd.xml.asc''" by simp
  with check_repomd_None [OF r(2)] r assms(2) show ?thesis unfolding vouched_def by metis
qed

text \<open>Every candidate is a package that was vouched for.\<close>

definition candidates_vouched :: "'k rpm_world \<Rightarrow> 'k option \<Rightarrow> sig_policy \<Rightarrow> string \<Rightarrow> string set \<Rightarrow> pin_state \<Rightarrow> bool" where
  "candidates_vouched w trustRoot policy repoURL arches st \<longleftrightarrow>
     (\<forall>k c. map_of (ps_candidates st) k = Some c \<longrightarrow>
        (\<exists>arch \<in> arches. \<exists>p. vouched w trustRoot policy repoURL arch p \<and> k = pkg_key_of p \<and>
           c = candidate_of arch p))"

lemma index_package_vouched:
  assumes "candidates_vouched w trustRoot policy repoURL arches st"
    "vouched w trustRoot policy repoURL arch p" "arch \<in> arches"
  shows "candidates_vouched w trustRoot policy repoURL arches (index_package v i arch p st)"
  using assms by (auto simp: candidates_vouched_def index_package_eq update_conv' split: if_splits option.split)

lemma index_packages_vouched:
  "candidates_vouched w trustRoot policy repoURL arches st \<Longrightarrow>
     (\<And>p. p \<in> set pkgs \<Longrightarrow> vouched w trustRoot policy repoURL arch p) \<Longrightarrow> arch \<in> arches \<Longrightarrow>
     candidates_vouched w trustRoot policy repoURL arches (foldl (\<lambda>s p. index_package v i arch p s) st pkgs)"
  by (induction pkgs arbitrary: st) (simp_all add: index_package_vouched)

lemma read_arches_vouched:
  assumes "read_arches w trustRoot policy repoURL i as st = Inr st'"
    "candidates_vouched w trustRoot policy repoURL arches st" "set as \<subseteq> arches"
  shows "candidates_vouched w trustRoot policy repoURL arches st'"
  using assms
proof (induction as arbitrary: i st)
  case (Cons arch as)
  obtain revision sha pkgs where r: "read_arch w trustRoot policy repoURL arch = Inr (revision, sha, pkgs)"
    using Cons.prems(1) by (auto split: sum.splits)
  let ?st = "if i = 0 then st\<lparr>ps_revision := revision, ps_sha := sha\<rparr> else st"
  have "candidates_vouched w trustRoot policy repoURL arches ?st"
    using Cons.prems(2) by (simp add: candidates_vouched_def)
  then have "candidates_vouched w trustRoot policy repoURL arches
      (foldl (\<lambda>s p. index_package (rw_Vercmp w) i arch p s) ?st pkgs)"
    using Cons.prems(3) read_arch_vouched [OF r] by (intro index_packages_vouched) auto
  moreover have "read_arches w trustRoot policy repoURL (Suc i) as
      (foldl (\<lambda>s p. index_package (rw_Vercmp w) i arch p s) ?st pkgs) = Inr st'"
    using Cons.prems(1) by (simp add: r Let_def)
  ultimately show ?case using Cons.IH Cons.prems(3) by simp
qed simp

text \<open>What is locked under a name and an architecture is the candidate of that key.\<close>

definition locked_entry :: "locked \<Rightarrow> string \<Rightarrow> string \<Rightarrow> lock_entry option" where
  "locked_entry out name arch = Option.bind (map_of out name) (\<lambda>entries. map_of entries arch)"

lemma locked_entry_lock_package:
  "locked_entry (lock_package cands key out) name arch =
     (if (name, arch) = key \<and> map_of cands key \<noteq> None then map_option lock_entry_of (map_of cands key)
      else locked_entry out name arch)"
  by (cases key) (auto simp: locked_entry_def lock_package_def update_conv' Let_def split: option.split)

lemma locked_entry_packages:
  "locked_entry (lock_packages cands closure) name arch =
     (if (name, arch) \<in> set closure then map_option lock_entry_of (map_of cands (name, arch)) else None)"
proof (induction closure rule: rev_induct)
  case Nil
  show ?case by (simp add: lock_packages_def locked_entry_def)
next
  case (snoc k ks)
  have "lock_packages cands (ks @ [k]) = lock_package cands k (lock_packages cands ks)"
    by (simp add: lock_packages_def)
  then show ?case using snoc by (auto simp: locked_entry_lock_package)
qed

text \<open>
  C4: nothing is locked that was not vouched for: every entry of the lockfile is, with its
  digest, its version and its path, a package of a primary whose own digest stands in a
  repomd.xml signed by the trust root; only under the optional policy, and only when the
  signature is not published, is the transport trusted instead. A bad signature fails the run
  under either policy.
\<close>

theorem pin_resolve_vouched:
  assumes "pin_resolve w repo arches pkgs trustRoot policy = Inr lock"
    "locked_entry (lf_Packages lock) name arch = Some e"
  shows "\<exists>a \<in> set arches. \<exists>p. vouched w trustRoot policy (trim_right repo ''/'') a p \<and>
    pp_Name p = name \<and> pp_Arch p = arch \<and> le_Sha256 e = pp_Checksum p \<and>
    le_Version e = formatEVR (pp_Version p) \<and> le_Path e = a @ ''/'' @ pp_Href p"
proof -
  let ?repo = "trim_right repo ''/''"
  obtain st closure where st: "read_arches w trustRoot policy ?repo 0 arches pin_start = Inr st"
    and out: "lf_Packages lock = lock_packages (ps_candidates st) closure"
    using assms(1)
    by (auto simp: pin_resolve_def pin_start_def Let_def split: sum.splits option.splits)
  have "candidates_vouched w trustRoot policy ?repo (set arches) st"
    by (rule read_arches_vouched [OF st]) (simp_all add: candidates_vouched_def pin_start_def)
  moreover obtain c where "map_of (ps_candidates st) (name, arch) = Some c" "e = lock_entry_of c"
    using assms(2) by (auto simp: out locked_entry_packages split: if_splits)
  ultimately obtain a p where "a \<in> set arches" "vouched w trustRoot policy ?repo a p"
    "(name, arch) = pkg_key_of p" "e = lock_entry_of (candidate_of a p)"
    unfolding candidates_vouched_def by blast
  then show ?thesis
    by (auto simp: pkg_key_of_def lock_entry_of_def candidate_of_def)
qed

section \<open>A concrete repository\<close>

definition sample_candidate :: "string list \<Rightarrow> candidate" where
  "sample_candidate reqs =
     \<lparr>cd_evr = ''1-1'', cd_sha256 = ''00'', cd_path = ''p'', cd_size = 1, cd_upstream = '''', cd_license = '''',
      cd_requires = reqs, cd_provides = []\<rparr>"

definition sample_candidates :: "(pkg_key \<times> candidate) list" where
  "sample_candidates =
     [((''app'', ''x86_64''), sample_candidate [''lib'', ''/bin/sh'']), ((''lib'', ''x86_64''), sample_candidate [''lib'']),
      ((''other'', ''noarch''), sample_candidate [])]"


text \<open>
  Without the proviso the closure misses packages: the map of visited packages is shared between
  the architectures, so what a noarch package needs is looked up for the first one only.
\<close>

definition noarch_candidates :: "(pkg_key \<times> candidate) list" where
  "noarch_candidates =
     [((''app'', ''noarch''), sample_candidate [''lib'']), ((''lib'', ''x86_64''), sample_candidate []),
      ((''lib'', ''aarch64''), sample_candidate [])]"

theorem closeDeps_misses_noarch_needs:
  "closeDeps noarch_candidates (providesIndex noarch_candidates) [''aarch64''] [''app'']
     = Inr [(''lib'', ''aarch64''), (''app'', ''noarch'')]"
  "closeDeps noarch_candidates (providesIndex noarch_candidates) [''x86_64'', ''aarch64''] [''app'']
     = Inr [(''lib'', ''x86_64''), (''app'', ''noarch'')]"
  by code_simp+

definition sample_package :: primary_package where
  "sample_package =
     \<lparr>pp_Name = ''app'', pp_Arch = ''x'', pp_Version = \<lparr>pv_Epoch = '''', pv_Ver = ''1'', pv_Rel = ''2''\<rparr>,
      pp_Checksum = ''ab'', pp_Size = 3, pp_Href = ''app.rpm'', pp_License = '''', pp_SourceRpm = '''',
      pp_Provides = [], pp_Requires = []\<rparr>"

definition sample_repomd :: repomd where
  "sample_repomd = \<lparr>rm_Revision = ''7'', rm_Data =
     [\<lparr>rd_Type = ''primary'', rd_Checksum = hex_encode (sha256 ''gz''), rd_Href = ''primary''\<rparr>]\<rparr>"

definition sample_world :: "string rpm_world" where
  "sample_world =
     \<lparr>rw_Get = (\<lambda>url k.
        if url = ''u/x/repodata/repomd.xml'' then Answered 200 (Inr ''repomd'')
        else if url = ''u/x/repodata/repomd.xml.asc'' then Answered 200 (Inr ''sig'')
        else if url = ''u/x/primary'' then (if k = 1 then Answered 503 (Inr '''') else Answered 200 (Inr ''gz''))
        else Answered 404 (Inr '''')),
      rw_Gunzip = (\<lambda>_. Inr ''xml''),
      rw_Repomd = (\<lambda>_. Inr sample_repomd),
      rw_Primary = (\<lambda>_. Inr [sample_package]),
      rw_CheckSignature = (\<lambda>keys content sig. if keys = ''key'' \<and> sig = ''sig'' then None else Some ''bad''),
      rw_Vercmp = cmp_compare\<rparr>"

lemma sample_read:
  "read_arch sample_world (Some ''key'') Required ''u'' ''x'' =
     Inr (''7'', hex_encode (sha256 ''repomd''), [sample_package])"
proof -
  have get: "httpGet sample_world ''u/x/repodata/repomd.xml'' = Inr ''repomd''"
    "httpGet sample_world ''u/x/repodata/repomd.xml.asc'' = Inr ''sig''"
    "httpGet sample_world ''u/x/primary'' = Inr ''gz''"
    by (simp_all add: httpGet_def httpGetMaxAttempts_def numeral_2_eq_2 httpGetOnce_def sample_world_def)
  have fields: "rw_CheckSignature sample_world ''key'' c ''sig'' = None"
    "rw_Repomd sample_world c = Inr sample_repomd" "rw_Gunzip sample_world c = Inr ''xml''"
    "rw_Primary sample_world c = Inr [sample_package]" for c
    by (simp_all add: sample_world_def)
  have entry: "primary_entry sample_repomd = (''primary'', hex_encode (sha256 ''gz''))"
    "rm_Revision sample_repomd = ''7''"
    by (simp_all add: primary_entry_def sample_repomd_def)
  show ?thesis
    by (simp add: read_arch_def check_repomd_def Let_def get fields entry)
qed

lemma sample_resolve:
  "pin_resolve sample_world ''u/'' [''x''] [''app''] (Some ''key'') Required =
     Inr \<lparr>lf_SchemaVersion = 1, lf_URL = ''u'', lf_Revision = ''7'',
          lf_RepomdSha256 = hex_encode (sha256 ''repomd''),
          lf_Packages = [(''app'', [(''x'', lock_entry_of (candidate_of ''x'' sample_package))])]\<rparr>"
proof -
  let ?c = "[((''app'', ''x''), candidate_of ''x'' sample_package)]"
  have "closeDeps ?c (providesIndex ?c) [''x''] [''app''] = Inr [(''app'', ''x'')]" by code_simp
  moreover have "trim_right ''u/'' ''/'' = ''u''" by (simp add: trim_right_def)
  moreover have "pp_Name sample_package = ''app''" "pp_Arch sample_package = ''x''"
    by (simp_all add: sample_package_def)
  ultimately show ?thesis
    by (simp add: pin_resolve_def sample_read Let_def index_package_eq eligible_def pkg_key_of_def
        lock_packages_def lock_package_def validate_def missing_of_def)
qed

theorem pin_resolve_vouched_witness:
  "\<exists>p. vouched sample_world (Some ''key'') Required (trim_right ''u/'' ''/'') ''x'' p \<and> pp_Name p = ''app'' \<and>
    pp_Checksum p = ''ab''"
proof -
  have "locked_entry (lf_Packages \<lparr>lf_SchemaVersion = 1, lf_URL = ''u'', lf_Revision = ''7'',
          lf_RepomdSha256 = hex_encode (sha256 ''repomd''),
          lf_Packages = [(''app'', [(''x'', lock_entry_of (candidate_of ''x'' sample_package))])]\<rparr>) ''app'' ''x''
      = Some (lock_entry_of (candidate_of ''x'' sample_package))"
    by (simp add: locked_entry_def)
  from pin_resolve_vouched [OF sample_resolve this] show ?thesis
    by (auto simp: lock_entry_of_def candidate_of_def sample_package_def)
qed


end
