(* ===== verification/Go_Tar.thy ===== *)
theory Go_Tar
  imports Go_Prelude
begin

text \<open>
  The writer of package \<open>archive/tar\<close> as the RPM tools use it, with every header pinned to USTAR:
  a header the format cannot hold is refused, a body longer than its header says is refused, and
  a body shorter than it fails the next header or the close. An archive is the list of its
  entries, header and body, in order. Times are Unix seconds.
\<close>

section \<open>Sequencing\<close>

text \<open>The rest of a Go function after a call that may fail.\<close>

definition and_then :: "'a result \<Rightarrow> ('a \<Rightarrow> 'b result) \<Rightarrow> 'b result" where
  "and_then r f = (case r of Inl err \<Rightarrow> Inl err | Inr x \<Rightarrow> f x)"

lemma and_then_simps [simp]: "and_then (Inr x) f = f x" "and_then (Inl e) f = Inl e"
  by (simp_all add: and_then_def)

lemma and_then_Inr [simp]: "and_then r f = Inr y \<longleftrightarrow> (\<exists>x. r = Inr x \<and> f x = Inr y)"
  by (simp add: and_then_def split: sum.split)

section \<open>Headers\<close>

datatype typeflag = TypeReg | TypeDir | TypeSymlink | TypeLink

record tar_header =
  th_Name :: string
  th_Mode :: int
  th_Size :: int
  th_Typeflag :: typeflag
  th_Linkname :: string
  th_ModTime :: int
  th_Uid :: int
  th_Gid :: int

type_synonym tar_archive = "(tar_header \<times> string) list"

definition tar_ascii :: "string \<Rightarrow> bool" where
  "tar_ascii s \<longleftrightarrow> list_all (\<lambda>c. 0 < byte c \<and> byte c < 128) s"

text \<open>A path of more than 100 bytes is split at a slash, into a prefix of at most 155.\<close>

definition split_USTAR_path :: "string \<Rightarrow> bool" where
  "split_USTAR_path name \<longleftrightarrow>
     100 < length name \<and> tar_ascii name \<and>
     (let n = (if 156 < length name then 156
               else if last name = CHR ''/'' then length name - 1 else length name)
      in case last_index_byte (take n name) CHR ''/'' of
           None \<Rightarrow> False
         | Some i \<Rightarrow> 0 < i \<and> length name - i - 1 \<le> 100 \<and> length name - i - 1 \<noteq> 0 \<and> i \<le> 155)"

definition fits_octal :: "nat \<Rightarrow> int \<Rightarrow> bool" where
  "fits_octal n x \<longleftrightarrow> 0 \<le> x \<and> x < 8 ^ (n - 1)"

definition fits_USTAR :: "tar_header \<Rightarrow> bool" where
  "fits_USTAR h \<longleftrightarrow>
     ((tar_ascii (th_Name h) \<and> length (th_Name h) \<le> 100) \<or> split_USTAR_path (th_Name h)) \<and>
     tar_ascii (th_Linkname h) \<and> length (th_Linkname h) \<le> 100 \<and>
     fits_octal 8 (th_Mode h) \<and> fits_octal 8 (th_Uid h) \<and> fits_octal 8 (th_Gid h) \<and>
     fits_octal 12 (th_Size h) \<and> fits_octal 12 (th_ModTime h) \<and>
     \<not> (th_Typeflag h = TypeReg \<and> has_suffix (th_Name h) ''/'')"

section \<open>The writer\<close>

text \<open>The bytes the last entry still expects.\<close>

definition tar_missing :: "tar_archive \<Rightarrow> int" where
  "tar_missing w =
     (if w = [] then 0
      else case last w of (h, body) \<Rightarrow>
        if th_Typeflag h = TypeReg then th_Size h - int (length body) else 0)"

definition WriteHeader :: "tar_header \<Rightarrow> tar_archive \<Rightarrow> tar_archive result" where
  "WriteHeader h w =
     (if 0 < tar_missing w then Inl ''archive/tar: missed writing bytes''
      else if \<not> fits_USTAR h then Inl ''archive/tar: cannot encode header''
      else Inr (w @ [(h, '''')]))"

definition tar_Write :: "string \<Rightarrow> tar_archive \<Rightarrow> tar_archive result" where
  "tar_Write b w =
     (if tar_missing w < int (length b) then Inl ''archive/tar: write too long''
      else if b = '''' then Inr w
      else Inr (butlast w @ [(fst (last w), snd (last w) @ b)]))"

definition tar_Close :: "tar_archive \<Rightarrow> tar_archive result" where
  "tar_Close w = (if 0 < tar_missing w then Inl ''archive/tar: missed writing bytes'' else Inr w)"

lemma WriteHeader_Inr [simp]:
  "WriteHeader h w = Inr w' \<longleftrightarrow> \<not> 0 < tar_missing w \<and> fits_USTAR h \<and> w' = w @ [(h, '''')]"
  by (auto simp: WriteHeader_def)

lemma tar_Write_last [simp]:
  "tar_Write b (w @ [(h, [])]) = Inr w' \<longleftrightarrow>
     int (length b) \<le> (if th_Typeflag h = TypeReg then th_Size h else 0) \<and> w' = w @ [(h, b)]"
  by (auto simp: tar_Write_def tar_missing_def)

section \<open>What an archive gives\<close>

text \<open>
  The path is in the archive with the bytes: as a file, or as a hardlink to a file before it.
\<close>

inductive gives :: "tar_archive \<Rightarrow> string \<Rightarrow> string \<Rightarrow> bool" where
  regular: "(h, bytes) \<in> set w \<Longrightarrow> th_Typeflag h = TypeReg \<Longrightarrow> gives w (th_Name h) bytes"
| hardlink: "(r, bytes) \<in> set as \<Longrightarrow> th_Typeflag r = TypeReg \<Longrightarrow> th_Typeflag h = TypeLink \<Longrightarrow>
    th_Name r = th_Linkname h \<Longrightarrow> gives (as @ (h, []) # bs) (th_Name h) bytes"

lemma gives_append: "gives w name bytes \<Longrightarrow> gives (w @ v) name bytes"
proof (induction rule: gives.induct)
  case (regular h bytes w)
  then show ?case by (intro gives.regular) auto
next
  case (hardlink r bytes as h bs)
  then have "gives (as @ (h, []) # (bs @ v)) (th_Name h) bytes" by (rule gives.hardlink)
  then show ?case by simp
qed

lemma gives_hardlink:
  "(r, bytes) \<in> set w \<Longrightarrow> th_Typeflag r = TypeReg \<Longrightarrow> th_Typeflag h = TypeLink \<Longrightarrow>
     th_Name r = th_Linkname h \<Longrightarrow> gives (w @ [(h, [])]) (th_Name h) bytes"
  by (rule gives.hardlink)

end
