(* ===== verification/Rpm_Extract.thy ===== *)
theory Rpm_Extract
  imports Go_Tar Rpm_Keyring
begin

text \<open>
  bazel/modules/rules_rpm/rpm/tools/rpm-extract/main.go: one RPM becomes a tar of its payload and
  the bytes of its header. The RPM and cpio readers of go-rpmutils and its signature check are
  parameters: a payload is the list of what the reader's \<open>Next\<close> returns, each entry with what
  reading its body gives, and what a read gives once the stream has ended. What is modelled is
  which entries are kept and under which name, and how the files rpm stores once for several
  hardlinked paths keep their bytes.
\<close>

section \<open>The package\<close>

record cpio_entry =
  ce_Filename :: string
  ce_Mode :: int
  ce_Nlink :: nat
  ce_Filesize :: nat
  ce_Ino :: int
  ce_Devmajor :: int
  ce_Devminor :: int
  ce_Mtime :: int
  ce_Uid :: int
  ce_Gid :: int
  ce_Body :: "string result"

record cpio_payload =
  cp_Items :: "cpio_entry result list"
  cp_Rest :: "string result"

record nevra =
  nv_Name :: string
  nv_Epoch :: string
  nv_Version :: string
  nv_Release :: string
  nv_Arch :: string

record rpm_file =
  rf_NEVRA :: "nevra result"
  rf_Start :: nat
  rf_End :: nat
  rf_Payload :: "cpio_payload result"

text \<open>The file types of a mode, the bits above the twelve permission bits.\<close>

definition S_ISFIFO :: int where "S_ISFIFO = 4096"
definition S_ISCHR :: int where "S_ISCHR = 8192"
definition S_ISDIR :: int where "S_ISDIR = 16384"
definition S_ISBLK :: int where "S_ISBLK = 24576"
definition S_ISREG :: int where "S_ISREG = 32768"
definition S_ISLNK :: int where "S_ISLNK = 40960"
definition S_ISSOCK :: int where "S_ISSOCK = 49152"

lemmas file_types = S_ISFIFO_def S_ISCHR_def S_ISDIR_def S_ISBLK_def S_ISREG_def S_ISLNK_def S_ISSOCK_def

definition file_type :: "cpio_entry \<Rightarrow> int" where
  "file_type e = ce_Mode e div 4096 * 4096"

definition isCpioRegular :: "cpio_entry \<Rightarrow> bool" where
  "isCpioRegular e \<longleftrightarrow> file_type e = 0 \<or> file_type e = S_ISREG"

record file_id =
  fid_devmajor :: int
  fid_devminor :: int
  fid_ino :: int

definition identify :: "cpio_entry \<Rightarrow> file_id" where
  "identify e = \<lparr>fid_devmajor = ce_Devmajor e, fid_devminor = ce_Devminor e, fid_ino = ce_Ino e\<rparr>"

section \<open>Paths\<close>

definition stripPrefixes :: "string list" where
  "stripPrefixes =
     [''usr/lib/.build-id'', ''usr/share/doc'', ''usr/share/man'', ''usr/share/info'',
      ''usr/lib64/security'', ''usr/lib/security'']"

definition shouldStrip :: "string \<Rightarrow> bool" where
  "shouldStrip filename =
     (let clean = trim_prefix filename ''./''
      in list_ex (\<lambda>p. clean = p \<or> has_prefix clean (p @ ''/'')) stripPrefixes)"

text \<open>The rewritten name; \<open>None\<close> when the entry is dropped.\<close>

fun merge_roots :: "string list \<Rightarrow> string \<Rightarrow> string \<Rightarrow> string option" where
  "merge_roots [] clean filename = Some filename"
| "merge_roots (p # ps) clean filename =
     (if clean = p then None
      else case cut_prefix clean (p @ ''/'') of
             Some rest \<Rightarrow> Some (''./usr/'' @ p @ ''/'' @ rest)
           | None \<Rightarrow> merge_roots ps clean filename)"

definition legacyRoots :: "string list" where
  "legacyRoots = [''lib64'', ''lib'', ''bin'', ''sbin'']"

definition mergedUsr :: "string \<Rightarrow> string option" where
  "mergedUsr filename = merge_roots legacyRoots (trim_prefix filename ''./'') filename"

definition mergedUsrLink :: "string \<Rightarrow> string" where
  "mergedUsrLink target =
     (if \<not> has_prefix target ''/'' then target
      else if list_ex (\<lambda>p. target = ''/'' @ p \<or> has_prefix target (''/'' @ p @ ''/'')) legacyRoots
      then ''/usr'' @ target
      else target)"

section \<open>Entries\<close>

definition entry_header :: "cpio_entry \<Rightarrow> string \<Rightarrow> typeflag \<Rightarrow> string \<Rightarrow> tar_header" where
  "entry_header e name type link =
     \<lparr>th_Name = name, th_Mode = ce_Mode e mod 4096,
      th_Size = (if type = TypeReg then int (ce_Filesize e) else 0),
      th_Typeflag = type, th_Linkname = link, th_ModTime = ce_Mtime e,
      th_Uid = ce_Uid e, th_Gid = ce_Gid e\<rparr>"

text \<open>\<open>io.ReadFull\<close> of a symlink's target, and \<open>io.CopyN\<close> of a body nobody wants.\<close>

definition read_target :: "cpio_entry \<Rightarrow> string result \<Rightarrow> string result" where
  "read_target e body =
     (if ce_Filesize e = 0 then Inr ''''
      else and_then body (\<lambda>b. if length b < ce_Filesize e then Inl ''read symlink target: unexpected EOF''
                            else Inr (take (ce_Filesize e) b)))"

definition drain :: "cpio_entry \<Rightarrow> unit result" where
  "drain e =
     (if ce_Filesize e = 0 then Inr ()
      else and_then (ce_Body e) (\<lambda>b. if length b < ce_Filesize e then Inl ''drain stripped: EOF'' else Inr ()))"

definition writeCpioEntryAsTar :: "cpio_entry \<Rightarrow> string result \<Rightarrow> string \<Rightarrow> tar_archive \<Rightarrow> tar_archive result" where
  "writeCpioEntryAsTar e body name w =
     (if file_type e = S_ISCHR \<or> file_type e = S_ISBLK \<or> file_type e = S_ISFIFO \<or> file_type e = S_ISSOCK
      then Inr w
      else if file_type e = S_ISDIR then WriteHeader (entry_header e name TypeDir '''') w
      else if file_type e = S_ISLNK
      then and_then (read_target e body) (\<lambda>target.
             WriteHeader (entry_header e name TypeSymlink (mergedUsrLink target)) w)
      else and_then (WriteHeader (entry_header e name TypeReg '''') w) (\<lambda>w.
             and_then body (\<lambda>b. tar_Write b w)))"

definition ustarLinknameMax :: nat where
  "ustarLinknameMax = 100"

definition writeHardlinkAsTar :: "cpio_entry \<Rightarrow> string \<Rightarrow> string \<Rightarrow> tar_archive \<Rightarrow> tar_archive result" where
  "writeHardlinkAsTar e name target w =
     (if ustarLinknameMax < length target then Inl ''hardlink target is too long for USTAR''
      else WriteHeader (entry_header e name TypeLink target) w)"

section \<open>Hardlink sets\<close>

type_synonym pending_link = "string \<times> cpio_entry"

type_synonym pending = "file_id \<Rightarrow> pending_link list option"

fun write_links :: "pending_link list \<Rightarrow> string \<Rightarrow> tar_archive \<Rightarrow> tar_archive result" where
  "write_links [] target w = Inr w"
| "write_links ((name, e) # links) target w =
     and_then (writeHardlinkAsTar e name target w) (write_links links target)"

definition writeHardlinkSet :: "cpio_entry \<Rightarrow> string result \<Rightarrow> pending_link list \<Rightarrow> tar_archive \<Rightarrow> tar_archive result" where
  "writeHardlinkSet e body links w =
     and_then (writeCpioEntryAsTar e body (fst (hd links)) w)
       (write_links (tl links) (fst (hd links)))"

text \<open>The links held back, their order, the archive.\<close>

type_synonym payload_state = "pending \<times> file_id list \<times> tar_archive"

definition waiting_for :: "pending \<Rightarrow> file_id \<Rightarrow> pending_link list" where
  "waiting_for held i = (case held i of Some waiting \<Rightarrow> waiting | None \<Rightarrow> [])"

definition linked :: "cpio_entry \<Rightarrow> bool" where
  "linked e \<longleftrightarrow> isCpioRegular e \<and> 1 < ce_Nlink e"

text \<open>An entry that is not shipped may carry the bytes of links that are.\<close>

definition pass_entry :: "cpio_entry \<Rightarrow> payload_state \<Rightarrow> payload_state result" where
  "pass_entry e st =
     (case st of (held, order, w) \<Rightarrow>
        if linked e \<and> 0 < ce_Filesize e \<and> held (identify e) \<noteq> None
        then and_then (writeHardlinkSet e (ce_Body e) (waiting_for held (identify e)) w)
               (\<lambda>w'. Inr (held(identify e := None), order, w'))
        else if isCpioRegular e then and_then (drain e) (\<lambda>_. Inr st)
        else Inr st)"

definition ship_entry :: "cpio_entry \<Rightarrow> string \<Rightarrow> payload_state \<Rightarrow> payload_state result" where
  "ship_entry e name st =
     (case st of (held, order, w) \<Rightarrow>
        if linked e \<and> ce_Filesize e = 0
        then Inr (held(identify e := Some (waiting_for held (identify e) @ [(name, e)])),
                  if held (identify e) = None then order @ [identify e] else order, w)
        else and_then (writeCpioEntryAsTar e (ce_Body e) name w) (\<lambda>w'.
               if linked e
               then and_then (write_links (waiting_for held (identify e)) name w')
                      (\<lambda>w''. Inr (held(identify e := None), order, w''))
               else Inr (held, order, w')))"

definition kept_name :: "cpio_entry \<Rightarrow> string option" where
  "kept_name e = (if shouldStrip (ce_Filename e) then None else mergedUsr (ce_Filename e))"

fun payload_loop :: "cpio_entry result list \<Rightarrow> payload_state \<Rightarrow> payload_state result" where
  "payload_loop [] st = Inr st"
| "payload_loop (Inl err # items) st = Inl (''cpio next: '' @ err)"
| "payload_loop (Inr e # items) st =
     and_then (case kept_name e of None \<Rightarrow> pass_entry e st | Some name \<Rightarrow> ship_entry e name st)
       (payload_loop items)"

text \<open>What is still held back when the stream ends: sets of empty files.\<close>

fun write_pending :: "file_id list \<Rightarrow> pending \<Rightarrow> string result \<Rightarrow> tar_archive \<Rightarrow> tar_archive result" where
  "write_pending [] held rest w = Inr w"
| "write_pending (i # order) held rest w =
     (case held i of
        None \<Rightarrow> write_pending order held rest w
      | Some waiting \<Rightarrow>
          and_then (writeHardlinkSet (snd (hd waiting)) rest waiting w) (write_pending order held rest))"

definition writePayloadAsTar :: "cpio_payload \<Rightarrow> tar_archive \<Rightarrow> tar_archive result" where
  "writePayloadAsTar p w =
     and_then (payload_loop (cp_Items p) (\<lambda>_. None, [], w))
       (\<lambda>(held, order, w'). write_pending order held (cp_Rest p) w')"

section \<open>The command\<close>

definition rpmEVR :: "nevra \<Rightarrow> string" where
  "rpmEVR n =
     (if nv_Epoch n \<noteq> '''' \<and> nv_Epoch n \<noteq> ''0''
      then nv_Epoch n @ '':'' @ nv_Version n @ ''-'' @ nv_Release n
      else nv_Version n @ ''-'' @ nv_Release n)"

text \<open>The package readers, and the files of the build action.\<close>

record 'k rpm_reader =
  xr_ReadFile :: "string \<Rightarrow> string result"
  xr_ReadRpm :: "string \<Rightarrow> rpm_file result"
  xr_Verify :: "string \<Rightarrow> 'k list \<Rightarrow> string option"
  xr_ReadArmored :: "string \<Rightarrow> 'k list result"

definition verifyRpmSignature :: "'k rpm_reader \<Rightarrow> string \<Rightarrow> string \<Rightarrow> string option" where
  "verifyRpmSignature x rpmPath keyPath =
     (if keyPath = '''' then None
      else
        (case ReadMultiBlock (xr_ReadArmored x) keyPath (xr_ReadFile x keyPath) of
           Inl err \<Rightarrow> Some (''load gpg key: '' @ err)
         | Inr keys \<Rightarrow>
             (case xr_ReadFile x rpmPath of
                Inl err \<Rightarrow> Some (''open rpm for signature check: '' @ err)
              | Inr rpm \<Rightarrow> map_option (\<lambda>err. ''gpg signature verification failed: '' @ err) (xr_Verify x rpm keys))))"

definition validateRpmMetadata :: "'k rpm_reader \<Rightarrow> string \<Rightarrow> string \<Rightarrow> string \<Rightarrow> string \<Rightarrow> string option" where
  "validateRpmMetadata x rpmPath wantPkg wantVer wantArch =
     (if wantPkg = '''' \<and> wantVer = '''' \<and> wantArch = '''' then None
      else
        (case and_then (and_then (xr_ReadFile x rpmPath) (xr_ReadRpm x)) rf_NEVRA of
           Inl err \<Rightarrow> Some (''rpm metadata check: '' @ err)
         | Inr n \<Rightarrow>
             if wantPkg \<noteq> '''' \<and> nv_Name n \<noteq> wantPkg then Some (''package mismatch: '' @ nv_Name n)
             else if wantArch \<noteq> '''' \<and> nv_Arch n \<noteq> wantArch then Some (''arch mismatch: '' @ nv_Arch n)
             else if wantVer \<noteq> '''' \<and> rpmEVR n \<noteq> wantVer then Some (''version mismatch: '' @ rpmEVR n)
             else None))"

text \<open>The header blob and the content tar.\<close>

definition Extract :: "'k rpm_reader \<Rightarrow> string \<Rightarrow> (string \<times> tar_archive) result" where
  "Extract x rpmPath =
     and_then (xr_ReadFile x rpmPath) (\<lambda>rpmBytes.
     and_then (xr_ReadRpm x rpmBytes) (\<lambda>rpmFile.
     and_then (rf_Payload rpmFile) (\<lambda>payload.
     and_then (writePayloadAsTar payload []) (\<lambda>w.
     and_then (tar_Close w) (\<lambda>content.
       Inr (take (rf_End rpmFile - rf_Start rpmFile) (drop (rf_Start rpmFile) rpmBytes), content))))))"

record extract_flags =
  xf_rpm :: string
  xf_gpgKey :: string
  xf_contentOut :: string
  xf_headerOut :: string
  xf_package :: string
  xf_version :: string
  xf_arch :: string

definition extract_main :: "'k rpm_reader \<Rightarrow> extract_flags \<Rightarrow> nat \<times> (string \<times> tar_archive) option" where
  "extract_main x flags =
     (if xf_rpm flags = '''' \<or> xf_contentOut flags = '''' \<or> xf_headerOut flags = '''' then (2, None)
      else if verifyRpmSignature x (xf_rpm flags) (xf_gpgKey flags) \<noteq> None then (1, None)
      else if validateRpmMetadata x (xf_rpm flags) (xf_package flags) (xf_version flags) (xf_arch flags) \<noteq> None
      then (1, None)
      else
        (case Extract x (xf_rpm flags) of
           Inl _ \<Rightarrow> (1, None)
         | Inr out \<Rightarrow> (0, Some out)))"

section \<open>What a step writes\<close>

lemma writeCpioEntryAsTar_regular:
  assumes "isCpioRegular e" "writeCpioEntryAsTar e body name w = Inr w'"
  shows "\<exists>b. body = Inr b \<and> length b \<le> ce_Filesize e \<and> w' = w @ [(entry_header e name TypeReg [], b)]"
  using assms
  by (auto simp: writeCpioEntryAsTar_def isCpioRegular_def file_types entry_header_def)

lemma writeCpioEntryAsTar_extends:
  "writeCpioEntryAsTar e body name w = Inr w' \<Longrightarrow> \<exists>v. w' = w @ v"
  by (auto simp: writeCpioEntryAsTar_def split: if_splits)

lemma write_links_Inr:
  "write_links links target w = Inr w' \<Longrightarrow>
     w' = w @ map (\<lambda>(name, e). (entry_header e name TypeLink target, [])) links"
proof (induction links target w rule: write_links.induct)
  case (2 name e links target w)
  then obtain v where v: "writeHardlinkAsTar e name target w = Inr v" "write_links links target v = Inr w'"
    by auto
  then have "v = w @ [(entry_header e name TypeLink target, [])]"
    by (simp add: writeHardlinkAsTar_def split: if_splits)
  with 2(1) [OF v(2)] show ?case by simp
qed simp

definition hardlink_set :: "cpio_entry \<Rightarrow> string \<Rightarrow> string \<Rightarrow> pending_link list \<Rightarrow> tar_archive" where
  "hardlink_set e name bytes links =
     (entry_header e name TypeReg [], bytes)
     # map (\<lambda>(n, x). (entry_header x n TypeLink name, [])) links"

lemma entry_header_simps [simp]:
  "th_Name (entry_header e name type link) = name" "th_Typeflag (entry_header e name type link) = type"
  "th_Linkname (entry_header e name type link) = link"
  by (simp_all add: entry_header_def)

lemma gives_hardlink_set: "gives (w @ hardlink_set e name bytes links) name bytes"
  using gives.regular [of "entry_header e name TypeReg []" bytes "w @ hardlink_set e name bytes links"]
  by (simp add: hardlink_set_def)

lemma gives_hardlink_link:
  assumes "(n, x) \<in> set links"
  shows "gives (w @ hardlink_set e name bytes links) n bytes"
proof -
  obtain as bs where l: "links = as @ (n, x) # bs" using split_list [OF assms] by blast
  have "gives ((w @ hardlink_set e name bytes as) @ (entry_header x n TypeLink name, [])
      # map (\<lambda>(n, x). (entry_header x n TypeLink name, [])) bs) (th_Name (entry_header x n TypeLink name)) bytes"
    by (rule gives.hardlink [of "entry_header e name TypeReg []"]) (simp_all add: hardlink_set_def)
  then show ?thesis by (simp add: l hardlink_set_def)
qed

lemma writeHardlinkSet_Inr:
  assumes "isCpioRegular e" "links \<noteq> []" "writeHardlinkSet e body links w = Inr w'"
  shows "\<exists>b. body = Inr b \<and> length b \<le> ce_Filesize e \<and> w' = w @ hardlink_set e (fst (hd links)) b (tl links)"
  using assms writeCpioEntryAsTar_regular [OF assms(1)] write_links_Inr
  by (fastforce simp: writeHardlinkSet_def hardlink_set_def)

lemma gives_hardlinks:
  assumes "links \<noteq> []" "(n, x) \<in> set links"
  shows "gives (w @ hardlink_set e (fst (hd links)) bytes (tl links)) n bytes"
  using assms gives_hardlink_set gives_hardlink_link by (cases links) auto

lemma ship_regular:
  assumes "isCpioRegular e" "\<not> (linked e \<and> ce_Filesize e = 0)" "ship_entry e name (held, order, w) = Inr st'"
  shows "\<exists>b. ce_Body e = Inr b \<and>
    st' = (if linked e then held(identify e := None) else held, order,
      w @ hardlink_set e name b (if linked e then waiting_for held (identify e) else []))"
  using assms writeCpioEntryAsTar_regular [OF assms(1)] write_links_Inr
  by (fastforce simp: ship_entry_def hardlink_set_def split: if_splits)

section \<open>Every file keeps its bytes\<close>

definition body_of :: "cpio_entry \<Rightarrow> string" where
  "body_of e = (case ce_Body e of Inl _ \<Rightarrow> [] | Inr b \<Rightarrow> b)"

text \<open>The bytes of a set of hardlinks are the body of the member that has one.\<close>

definition set_bytes :: "cpio_entry list \<Rightarrow> file_id \<Rightarrow> string" where
  "set_bytes es i =
     concat (map body_of (filter (\<lambda>x. linked x \<and> 0 < ce_Filesize x \<and> identify x = i) es))"

definition file_bytes :: "cpio_entry list \<Rightarrow> cpio_entry \<Rightarrow> string" where
  "file_bytes es e = (if linked e then set_bytes es (identify e) else body_of e)"

text \<open>rpm's convention: the bytes of a set come with its last member.\<close>

fun bytes_last :: "cpio_entry list \<Rightarrow> bool" where
  "bytes_last [] = True"
| "bytes_last (e # es) =
     ((if linked e \<and> 0 < ce_Filesize e
       then list_all (\<lambda>x. \<not> (linked x \<and> identify x = identify e)) es else True) \<and> bytes_last es)"

lemma bytes_last_append:
  "bytes_last (ds @ e # rs) \<Longrightarrow> linked e \<Longrightarrow> 0 < ce_Filesize e \<Longrightarrow>
     list_all (\<lambda>x. \<not> (linked x \<and> identify x = identify e)) rs"
  by (induction ds) (auto split: if_splits)

lemma bytes_last_before:
  "bytes_last (ds @ e # rs) \<Longrightarrow> linked e \<Longrightarrow> x \<in> set ds \<Longrightarrow> linked x \<Longrightarrow> identify x = identify e \<Longrightarrow>
     ce_Filesize x = 0"
  by (induction ds) (auto split: if_splits)

lemma set_bytes_carrier:
  assumes "bytes_last (ds @ e # rs)" "linked e" "0 < ce_Filesize e"
  shows "set_bytes (ds @ e # rs) (identify e) = body_of e"
proof -
  have "filter (\<lambda>x. linked x \<and> 0 < ce_Filesize x \<and> identify x = identify e) ds = []"
    using bytes_last_before [OF assms(1,2)] by (auto simp: filter_empty_conv)
  moreover have "filter (\<lambda>x. linked x \<and> 0 < ce_Filesize x \<and> identify x = identify e) rs = []"
    using bytes_last_append [OF assms] by (auto simp: filter_empty_conv list_all_iff)
  ultimately show ?thesis using assms(2,3) by (simp add: set_bytes_def)
qed

lemma set_bytes_empty:
  "(\<And>x. x \<in> set es \<Longrightarrow> linked x \<Longrightarrow> identify x = i \<Longrightarrow> ce_Filesize x = 0) \<Longrightarrow> set_bytes es i = []"
  by (auto simp: set_bytes_def filter_empty_conv)

text \<open>
  What the loop keeps while it reads: a file that was seen is in the archive or held back, and a
  set is held back only while none of its members has come with bytes.
\<close>

definition links_inv :: "cpio_entry list \<Rightarrow> cpio_entry list \<Rightarrow> payload_state \<Rightarrow> bool" where
  "links_inv es ds st \<longleftrightarrow>
     (case st of (held, order, w) \<Rightarrow>
        (\<forall>e name. e \<in> set ds \<longrightarrow> isCpioRegular e \<longrightarrow> kept_name e = Some name \<longrightarrow>
           gives w name (file_bytes es e) \<or> (name, e) \<in> set (waiting_for held (identify e))) \<and>
        (\<forall>i. held i \<noteq> None \<longrightarrow> waiting_for held i \<noteq> [] \<and> i \<in> set order) \<and>
        (\<forall>i n x. (n, x) \<in> set (waiting_for held i) \<longrightarrow> linked x \<and> identify x = i \<and> ce_Filesize x = 0) \<and>
        (\<forall>i x. held i \<noteq> None \<longrightarrow> x \<in> set ds \<longrightarrow> linked x \<longrightarrow> identify x = i \<longrightarrow> ce_Filesize x = 0))"

lemma links_invD:
  assumes "links_inv es ds (held, order, w)"
  shows "\<And>e name. e \<in> set ds \<Longrightarrow> isCpioRegular e \<Longrightarrow> kept_name e = Some name \<Longrightarrow>
      gives w name (file_bytes es e) \<or> (name, e) \<in> set (waiting_for held (identify e))"
    and "\<And>i. held i \<noteq> None \<Longrightarrow> waiting_for held i \<noteq> []"
    and "\<And>i. held i \<noteq> None \<Longrightarrow> i \<in> set order"
    and "\<And>i n x. (n, x) \<in> set (waiting_for held i) \<Longrightarrow> linked x \<and> identify x = i \<and> ce_Filesize x = 0"
    and "\<And>i x. held i \<noteq> None \<Longrightarrow> x \<in> set ds \<Longrightarrow> linked x \<Longrightarrow> identify x = i \<Longrightarrow> ce_Filesize x = 0"
  using assms unfolding links_inv_def by simp_all

lemma waiting_for_upd:
  "waiting_for (held(i := None)) k = (if k = i then [] else waiting_for held k)"
  "waiting_for (held(i := Some links)) k = (if k = i then links else waiting_for held k)"
  by (simp_all add: waiting_for_def)

text \<open>The links of one set go out, with its bytes.\<close>

lemma links_inv_release:
  assumes inv: "links_inv es ds (held, order, w)"
    and set: "\<And>n x. (n, x) \<in> set (waiting_for held i) \<Longrightarrow> gives (w @ v) n (set_bytes es i)"
    and e: "\<And>name. isCpioRegular e \<Longrightarrow> kept_name e = Some name \<Longrightarrow> gives (w @ v) name (file_bytes es e)"
    and i: "linked e \<Longrightarrow> identify e = i"
  shows "links_inv es (ds @ [e]) (held(i := None), order, w @ v)"
  unfolding links_inv_def prod.case
proof (intro conjI allI impI)
  fix y name
  assume y: "y \<in> set (ds @ [e])" "isCpioRegular y" "kept_name y = Some name"
  show "gives (w @ v) name (file_bytes es y) \<or> (name, y) \<in> set (waiting_for (held(i := None)) (identify y))"
  proof (cases "y = e")
    case False
    then consider "gives w name (file_bytes es y)" | "(name, y) \<in> set (waiting_for held (identify y))"
      using y links_invD(1) [OF inv] by auto
    then show ?thesis
    proof cases
      case 2
      then show ?thesis
        using set [of name y] links_invD(4) [OF inv 2]
        by (cases "identify y = i") (simp_all add: file_bytes_def waiting_for_upd)
    qed (simp add: gives_append)
  qed (use e y in simp)
next
  fix k n x
  assume "(n, x) \<in> set (waiting_for (held(i := None)) k)"
  then have "(n, x) \<in> set (waiting_for held k)" by (simp add: waiting_for_upd split: if_splits)
  then show "linked x" "identify x = k" "ce_Filesize x = 0" using links_invD(4) [OF inv] by blast+
next
  fix k assume k: "(held(i := None)) k \<noteq> None"
  then have h: "k \<noteq> i" "held k \<noteq> None" by (auto split: if_splits)
  show "waiting_for (held(i := None)) k \<noteq> []" "k \<in> set order"
    using links_invD(2,3) [OF inv h(2)] h(1) by (simp_all add: waiting_for_upd)
  fix x assume x: "x \<in> set (ds @ [e])" "linked x" "identify x = k"
  then have "x \<noteq> e" using i h(1) by auto
  then show "ce_Filesize x = 0" using links_invD(5) [OF inv h(2), of x] x by simp
qed

text \<open>An entry that changes no set.\<close>

lemma links_inv_other:
  assumes inv: "links_inv es ds (held, order, w)"
    and e: "\<And>name. isCpioRegular e \<Longrightarrow> kept_name e = Some name \<Longrightarrow> gives (w @ v) name (file_bytes es e)"
    and held: "linked e \<Longrightarrow> held (identify e) \<noteq> None \<Longrightarrow> ce_Filesize e = 0"
  shows "links_inv es (ds @ [e]) (held, order, w @ v)"
  unfolding links_inv_def prod.case
proof (intro conjI allI impI)
  fix y name
  assume y: "y \<in> set (ds @ [e])" "isCpioRegular y" "kept_name y = Some name"
  then show "gives (w @ v) name (file_bytes es y) \<or> (name, y) \<in> set (waiting_for held (identify y))"
    using e links_invD(1) [OF inv, of y name] gives_append [of w name "file_bytes es y" v] by auto
next
  fix k n x
  assume "(n, x) \<in> set (waiting_for held k)"
  then show "linked x" "identify x = k" "ce_Filesize x = 0" using links_invD(4) [OF inv] by blast+
next
  fix k assume k: "held k \<noteq> None"
  show "waiting_for held k \<noteq> []" "k \<in> set order" using links_invD(2,3) [OF inv k] by simp_all
  fix x assume x: "x \<in> set (ds @ [e])" "linked x" "identify x = k"
  show "ce_Filesize x = 0"
  proof (cases "x = e")
    case True
    then show ?thesis using held k x by auto
  next
    case False
    then show ?thesis using links_invD(5) [OF inv k, of x] x by simp
  qed
qed

lemma pass_entry_inv:
  assumes inv: "links_inv es ds (held, order, w)" and es: "es = ds @ e # rs" "bytes_last es"
    and e: "kept_name e = None" and step: "pass_entry e (held, order, w) = Inr st"
  shows "links_inv es (ds @ [e]) st"
proof (cases "linked e \<and> 0 < ce_Filesize e \<and> held (identify e) \<noteq> None")
  case True
  let ?links = "waiting_for held (identify e)"
  have ne: "?links \<noteq> []" using True links_invD(2) [OF inv] by blast
  obtain w' where w': "writeHardlinkSet e (ce_Body e) ?links w = Inr w'" "st = (held(identify e := None), order, w')"
    using step True by (auto simp: pass_entry_def)
  obtain b where b: "ce_Body e = Inr b" "w' = w @ hardlink_set e (fst (hd ?links)) b (tl ?links)"
    using writeHardlinkSet_Inr [OF _ ne w'(1)] True by (auto simp: linked_def)
  have "set_bytes es (identify e) = b"
    using set_bytes_carrier [of ds e rs] es True b(1) by (simp add: body_of_def)
  then show ?thesis
    unfolding w'(2) b(2) using gives_hardlinks [OF ne] e
    by (intro links_inv_release [OF inv]) simp_all
next
  case False
  then have "st = (held, order, w @ [])"
    using step by (auto simp: pass_entry_def split: if_splits)
  then show ?thesis using links_inv_other [OF inv, of e "[]"] False e by auto
qed

lemma ship_entry_inv:
  assumes inv: "links_inv es ds (held, order, w)" and es: "es = ds @ e # rs" "bytes_last es"
    and e: "kept_name e = Some name" and step: "ship_entry e name (held, order, w) = Inr st"
  shows "links_inv es (ds @ [e]) st"
proof -
  consider (hold) "linked e" "ce_Filesize e = 0" | (shipped) "isCpioRegular e" "\<not> (linked e \<and> ce_Filesize e = 0)"
    | (other) "\<not> isCpioRegular e" by metis
  then show ?thesis
  proof cases
    case hold
    let ?held = "held(identify e := Some (waiting_for held (identify e) @ [(name, e)]))"
    have st: "st = (?held, if held (identify e) = None then order @ [identify e] else order, w)"
      using step hold by (simp add: ship_entry_def)
    show ?thesis unfolding st links_inv_def prod.case
    proof (intro conjI allI impI)
      fix y n
      assume y: "y \<in> set (ds @ [e])" "isCpioRegular y" "kept_name y = Some n"
      show "gives w n (file_bytes es y) \<or> (n, y) \<in> set (waiting_for ?held (identify y))"
        using y e links_invD(1) [OF inv, of y n] by (auto simp: waiting_for_upd)
    next
      fix k n x
      assume "(n, x) \<in> set (waiting_for ?held k)"
      then have "(n, x) \<in> set (waiting_for held k) \<or> (x = e \<and> k = identify e)"
        by (auto simp: waiting_for_upd split: if_splits)
      then show "linked x" "identify x = k" "ce_Filesize x = 0" using links_invD(4) [OF inv] hold by blast+
    next
      fix k assume k: "?held k \<noteq> None"
      show "waiting_for ?held k \<noteq> []" "k \<in> set (if held (identify e) = None then order @ [identify e] else order)"
        using links_invD(2,3) [OF inv, of k] links_invD(3) [OF inv, of "identify e"] k
        by (auto simp: waiting_for_upd split: if_splits)
      fix x assume x: "x \<in> set (ds @ [e])" "linked x" "identify x = k"
      then consider "x = e" | "x \<in> set ds" "k \<noteq> identify e" | "x \<in> set ds" "k = identify e" by auto
      then show "ce_Filesize x = 0"
      proof cases
        case 3
        then show ?thesis using bytes_last_before [of ds e rs x] es hold x by simp
      qed (use hold k x links_invD(5) [OF inv, of k x] in simp_all)
    qed
  next
    case shipped
    let ?links = "if linked e then waiting_for held (identify e) else []"
    obtain b where b: "ce_Body e = Inr b" and st: "st = (if linked e then held(identify e := None) else held, order,
        w @ hardlink_set e name b ?links)"
      using ship_regular [OF shipped step] by blast
    have fb: "file_bytes es e = b"
      using set_bytes_carrier [of ds e rs] es shipped b by (simp add: file_bytes_def body_of_def)
    show ?thesis
    proof (cases "linked e")
      case True
      then have "set_bytes es (identify e) = b" using fb by (simp add: file_bytes_def)
      then show ?thesis
        unfolding st using True e fb gives_hardlink_set gives_hardlink_link
        by (simp, intro links_inv_release [OF inv]) simp_all
    next
      case False
      then show ?thesis
        unfolding st using e fb gives_hardlink_set
        by (simp, intro links_inv_other [OF inv]) simp_all
    qed
  next
    case other
    then have "\<not> linked e" by (simp add: linked_def)
    then obtain w' where "writeCpioEntryAsTar e (ce_Body e) name w = Inr w'" "st = (held, order, w')"
      using step by (auto simp: ship_entry_def)
    then obtain v where "st = (held, order, w @ v)" using writeCpioEntryAsTar_extends by blast
    then show ?thesis using links_inv_other [OF inv, of e v] other \<open>\<not> linked e\<close> by simp
  qed
qed

lemma payload_loop_inv:
  "payload_loop (map Inr rs) st = Inr st' \<Longrightarrow> links_inv es ds st \<Longrightarrow> es = ds @ rs \<Longrightarrow> bytes_last es \<Longrightarrow>
     links_inv es es st'"
proof (induction rs arbitrary: st ds)
  case (Cons e rs)
  obtain held order w where st: "st = (held, order, w)" by (cases st) auto
  obtain st1 where st1: "(case kept_name e of None \<Rightarrow> pass_entry e st | Some name \<Rightarrow> ship_entry e name st) = Inr st1"
    and rest: "payload_loop (map Inr rs) st1 = Inr st'"
    using Cons.prems(1) by auto
  have "links_inv es (ds @ [e]) st1"
    using st1 pass_entry_inv ship_entry_inv Cons.prems(2,3,4) unfolding st
    by (cases "kept_name e") auto
  from Cons.IH [OF rest this] Cons.prems(3,4) show ?case by simp
qed simp

lemma write_links_extends: "write_links links target w = Inr w' \<Longrightarrow> \<exists>v. w' = w @ v"
  using write_links_Inr by blast

lemma writeHardlinkSet_extends:
  assumes "writeHardlinkSet e body links w = Inr w'"
  shows "\<exists>v. w' = w @ v"
proof -
  obtain u where u: "writeCpioEntryAsTar e body (fst (hd links)) w = Inr u"
    "write_links (tl links) (fst (hd links)) u = Inr w'"
    using assms by (auto simp: writeHardlinkSet_def)
  obtain v1 v2 where "u = w @ v1" "w' = u @ v2"
    using writeCpioEntryAsTar_extends [OF u(1)] write_links_extends [OF u(2)] by blast
  then show ?thesis by simp
qed

lemma write_pending_extends: "write_pending order held rest w = Inr w' \<Longrightarrow> \<exists>v. w' = w @ v"
proof (induction order arbitrary: w)
  case (Cons i order)
  show ?case
  proof (cases "held i")
    case (Some waiting)
    then obtain u where u: "writeHardlinkSet (snd (hd waiting)) rest waiting w = Inr u"
      "write_pending order held rest u = Inr w'" using Cons.prems by auto
    obtain v1 v2 where "u = w @ v1" "w' = u @ v2"
      using writeHardlinkSet_extends [OF u(1)] Cons.IH [OF u(2)] by blast
    then show ?thesis by simp
  qed (use Cons in simp)
qed simp

lemma write_pending_gives:
  assumes "\<And>i n x. (n, x) \<in> set (waiting_for held i) \<Longrightarrow> linked x \<and> ce_Filesize x = 0"
    and "(n, x) \<in> set (waiting_for held i)"
  shows "write_pending order held rest w = Inr w' \<Longrightarrow> i \<in> set order \<Longrightarrow> gives w' n []"
proof (induction order arbitrary: w)
  case (Cons k order)
  show ?case
  proof (cases "held k")
    case None
    then have "i \<noteq> k" using assms(2) by (auto simp: waiting_for_def)
    then show ?thesis using Cons None by simp
  next
    case (Some waiting)
    then obtain u where u: "writeHardlinkSet (snd (hd waiting)) rest waiting w = Inr u"
      "write_pending order held rest u = Inr w'" using Cons.prems by auto
    show ?thesis
    proof (cases "i = k")
      case True
      then have mem: "(n, x) \<in> set waiting" using Some assms(2) by (simp add: waiting_for_def)
      then have ne: "waiting \<noteq> []" by auto
      then have "(fst (hd waiting), snd (hd waiting)) \<in> set (waiting_for held k)"
        using Some by (simp add: waiting_for_def)
      from assms(1) [OF this] obtain b where "b = []"
        "u = w @ hardlink_set (snd (hd waiting)) (fst (hd waiting)) b (tl waiting)"
        using writeHardlinkSet_Inr [OF _ ne u(1)] by (auto simp: linked_def)
      then have "gives u n []" using gives_hardlinks [OF ne mem] by simp
      then show ?thesis using write_pending_extends [OF u(2)] gives_append by blast
    qed (use Cons u Some in auto)
  qed
qed simp

text \<open>
  C7: the content tar gives every file the package ships its bytes. A path that rpm stored as
  one of several hardlinks, without bytes of its own, is in the tar with the bytes of its set,
  as the file itself or as a hardlink to an entry before it, also where the member that carries
  the bytes is one that is not shipped, and where the set is of empty files.
\<close>

theorem writePayloadAsTar_keeps_bytes:
  assumes "cp_Items p = map Inr es" "bytes_last es" "writePayloadAsTar p [] = Inr w"
    and "e \<in> set es" "isCpioRegular e" "kept_name e = Some name"
  shows "gives w name (file_bytes es e)"
proof -
  obtain held order v where l: "payload_loop (map Inr es) (\<lambda>_. None, [], []) = Inr (held, order, v)"
    and r: "write_pending order held (cp_Rest p) v = Inr w"
    using assms(1,3) by (auto simp: writePayloadAsTar_def)
  have "links_inv es [] (\<lambda>_. None, [], [])" by (simp add: links_inv_def waiting_for_def)
  from payload_loop_inv [OF l this _ assms(2)] have inv: "links_inv es es (held, order, v)" by simp
  from links_invD(1) [OF inv assms(4-6)] show ?thesis
  proof
    assume "gives v name (file_bytes es e)"
    then show ?thesis using write_pending_extends [OF r] gives_append by blast
  next
    assume wait: "(name, e) \<in> set (waiting_for held (identify e))"
    then have h: "held (identify e) \<noteq> None" by (cases "held (identify e)") (simp_all add: waiting_for_def)
    have "gives w name []"
      using links_invD(3) [OF inv h] links_invD(4) [OF inv] wait
      by (intro write_pending_gives [OF _ wait r]) blast+
    moreover have "file_bytes es e = []"
      using links_invD(4) [OF inv wait] set_bytes_empty links_invD(5) [OF inv h]
      by (simp add: file_bytes_def)
    ultimately show ?thesis by simp
  qed
qed

section \<open>Only what is kept, only under /usr\<close>

lemma merge_roots_merged:
  assumes "mergedUsr name = Some n"
  shows "mergedUsr n = Some n"
proof (cases "n = name")
  case False
  have usr: "mergedUsr (''./usr/'' @ r) = Some (''./usr/'' @ r)" for r
    by (simp add: mergedUsr_def legacyRoots_def trim_prefix_def cut_prefix_def has_prefix_def)
  have "\<exists>r. n = ''./usr/'' @ r"
    using assms False
    by (auto simp: mergedUsr_def legacyRoots_def split: if_splits option.splits)
  then show ?thesis using usr by blast
qed (use assms in simp)

lemma mergedUsrLink_merged: "mergedUsrLink (mergedUsrLink target) = mergedUsrLink target"
  by (simp add: mergedUsrLink_def legacyRoots_def has_prefix_def)

definition ships :: "cpio_entry list \<Rightarrow> string \<Rightarrow> bool" where
  "ships es name \<longleftrightarrow> (\<exists>e \<in> set es. kept_name e = Some name)"

text \<open>An entry of the archive stands for a shipped path, and its symlink target is merged.\<close>

definition shipped_as :: "cpio_entry list \<Rightarrow> tar_header \<Rightarrow> bool" where
  "shipped_as es h \<longleftrightarrow>
     ships es (th_Name h) \<and>
     (th_Typeflag h = TypeSymlink \<longrightarrow> mergedUsrLink (th_Linkname h) = th_Linkname h)"

definition all_shipped :: "cpio_entry list \<Rightarrow> tar_archive \<Rightarrow> bool" where
  "all_shipped es w = list_all (\<lambda>(h, b). shipped_as es h) w"

lemma all_shipped_simps [simp]:
  "all_shipped es []" "all_shipped es (w @ v) \<longleftrightarrow> all_shipped es w \<and> all_shipped es v"
  "all_shipped es ((h, b) # w) \<longleftrightarrow> shipped_as es h \<and> all_shipped es w"
  by (simp_all add: all_shipped_def)

lemma shipped_as_entry [simp]:
  "shipped_as es (entry_header e name type link) \<longleftrightarrow>
     ships es name \<and> (type = TypeSymlink \<longrightarrow> mergedUsrLink link = link)"
  by (simp add: shipped_as_def)

definition held_shipped :: "cpio_entry list \<Rightarrow> pending \<Rightarrow> bool" where
  "held_shipped es held \<longleftrightarrow>
     (\<forall>i. held i \<noteq> None \<longrightarrow> waiting_for held i \<noteq> []) \<and>
     (\<forall>i n x. (n, x) \<in> set (waiting_for held i) \<longrightarrow> ships es n)"

lemma all_shipped_entry:
  assumes "writeCpioEntryAsTar e body name w = Inr w'" "all_shipped es w" "ships es name"
  shows "all_shipped es w'"
  using assms by (auto simp: writeCpioEntryAsTar_def mergedUsrLink_merged split: if_splits)

lemma all_shipped_links:
  assumes "write_links links target w = Inr w'" "all_shipped es w" "\<And>n x. (n, x) \<in> set links \<Longrightarrow> ships es n"
  shows "all_shipped es w'"
proof -
  have "all_shipped es (map (\<lambda>(n, x). (entry_header x n TypeLink target, [])) links)"
    using assms(3) by (auto simp: all_shipped_def list_all_iff)
  then show ?thesis using write_links_Inr [OF assms(1)] assms(2) by simp
qed

lemma all_shipped_set:
  assumes "writeHardlinkSet e body links w = Inr w'" "all_shipped es w" "links \<noteq> []"
    and links: "\<And>n x. (n, x) \<in> set links \<Longrightarrow> ships es n"
  shows "all_shipped es w'"
proof -
  obtain u where u: "writeCpioEntryAsTar e body (fst (hd links)) w = Inr u"
    "write_links (tl links) (fst (hd links)) u = Inr w'"
    using assms(1) by (auto simp: writeHardlinkSet_def)
  have "(fst (hd links), snd (hd links)) \<in> set links" using assms(3) by simp
  then have "ships es (fst (hd links))" by (rule links)
  then have u': "all_shipped es u" using all_shipped_entry [OF u(1)] assms(2) by blast
  show ?thesis
  proof (rule all_shipped_links [OF u(2) u'])
    fix n x assume "(n, x) \<in> set (tl links)"
    then have "(n, x) \<in> set links" using assms(3) by (cases links) simp_all
    then show "ships es n" by (rule links)
  qed
qed

lemma held_shippedD:
  "held_shipped es held \<Longrightarrow> held i \<noteq> None \<Longrightarrow> waiting_for held i \<noteq> []"
  "held_shipped es held \<Longrightarrow> (n, x) \<in> set (waiting_for held i) \<Longrightarrow> ships es n"
  unfolding held_shipped_def by blast+

lemma held_shipped_release: "held_shipped es held \<Longrightarrow> held_shipped es (held(i := None))"
  by (auto simp: held_shipped_def waiting_for_upd split: if_splits)

lemma held_shipped_hold:
  assumes "held_shipped es held" "ships es name"
  shows "held_shipped es (held(i := Some (waiting_for held i @ [(name, e)])))"
  unfolding held_shipped_def
proof (intro conjI allI impI)
  fix k assume "(held(i := Some (waiting_for held i @ [(name, e)]))) k \<noteq> None"
  then show "waiting_for (held(i := Some (waiting_for held i @ [(name, e)]))) k \<noteq> []"
    using held_shippedD(1) [OF assms(1), of k] by (simp add: waiting_for_upd split: if_splits)
next
  fix k n x assume "(n, x) \<in> set (waiting_for (held(i := Some (waiting_for held i @ [(name, e)]))) k)"
  then have "(n, x) \<in> set (waiting_for held k) \<or> n = name"
    by (simp add: waiting_for_upd split: if_splits) auto
  then show "ships es n" using held_shippedD(2) [OF assms(1)] assms(2) by metis
qed

lemma step_shipped:
  assumes "all_shipped es w" "held_shipped es held" "e \<in> set es"
    and step: "(case kept_name e of None \<Rightarrow> pass_entry e (held, order, w) | Some name \<Rightarrow> ship_entry e name (held, order, w))
      = Inr (held', order', w')"
  shows "all_shipped es w' \<and> held_shipped es held'"
proof (cases "kept_name e")
  case None
  then have p: "pass_entry e (held, order, w) = Inr (held', order', w')" using step by simp
  show ?thesis
  proof (cases "linked e \<and> 0 < ce_Filesize e \<and> held (identify e) \<noteq> None")
    case True
    then have set: "writeHardlinkSet e (ce_Body e) (waiting_for held (identify e)) w = Inr w'"
      and h: "held' = held(identify e := None)"
      using p by (auto simp: pass_entry_def)
    have "all_shipped es w'"
      using assms(1) True held_shippedD(1) [OF assms(2), of "identify e"]
      by (intro all_shipped_set [OF set] held_shippedD(2) [OF assms(2)]) simp_all
    then show ?thesis using h held_shipped_release [OF assms(2)] by simp
  next
    case False
    then have "held' = held \<and> w' = w" using p by (auto simp: pass_entry_def split: if_splits)
    then show ?thesis using assms(1,2) by simp
  qed
next
  case (Some name)
  then have ship: "ships es name" using assms(3) by (auto simp: ships_def)
  have s: "ship_entry e name (held, order, w) = Inr (held', order', w')" using step Some by simp
  show ?thesis
  proof (cases "linked e \<and> ce_Filesize e = 0")
    case True
    then show ?thesis using s assms(1) held_shipped_hold [OF assms(2) ship]
      by (auto simp: ship_entry_def)
  next
    case False
    then obtain u where u: "writeCpioEntryAsTar e (ce_Body e) name w = Inr u"
      "(if linked e then write_links (waiting_for held (identify e)) name u = Inr w' \<and> held' = held(identify e := None)
        else w' = u \<and> held' = held)"
      using s by (auto simp: ship_entry_def split: if_splits)
    have "all_shipped es u" using all_shipped_entry [OF u(1) assms(1) ship] .
    then show ?thesis
      using u(2) all_shipped_links [of "waiting_for held (identify e)" name u w' es, OF _ _ held_shippedD(2) [OF assms(2)]]
        assms(2) held_shipped_release [OF assms(2)]
      by (simp split: if_splits)
  qed
qed

lemma loop_shipped:
  "payload_loop (map Inr rs) (held, order, w) = Inr (held', order', w') \<Longrightarrow> all_shipped es w \<Longrightarrow>
     held_shipped es held \<Longrightarrow> set rs \<subseteq> set es \<Longrightarrow> all_shipped es w' \<and> held_shipped es held'"
proof (induction rs arbitrary: held order w)
  case (Cons e rs)
  obtain h1 o1 w1 where st1: "(case kept_name e of None \<Rightarrow> pass_entry e (held, order, w)
      | Some name \<Rightarrow> ship_entry e name (held, order, w)) = Inr (h1, o1, w1)"
    and rest: "payload_loop (map Inr rs) (h1, o1, w1) = Inr (held', order', w')"
    using Cons.prems(1) by auto
  from step_shipped [OF Cons.prems(2,3) _ st1] Cons.prems(4) Cons.IH [OF rest] show ?case by simp
qed simp

lemma write_pending_shipped:
  "write_pending order held rest w = Inr w' \<Longrightarrow> all_shipped es w \<Longrightarrow> held_shipped es held \<Longrightarrow> all_shipped es w'"
proof (induction order arbitrary: w)
  case (Cons i order)
  show ?case
  proof (cases "held i")
    case (Some waiting)
    then obtain u where u: "writeHardlinkSet (snd (hd waiting)) rest waiting w = Inr u"
      "write_pending order held rest u = Inr w'" using Cons.prems by auto
    have "waiting_for held i = waiting" using Some by (simp add: waiting_for_def)
    then have "waiting \<noteq> []" "\<And>n x. (n, x) \<in> set waiting \<Longrightarrow> ships es n"
      using Cons.prems(3) Some unfolding held_shipped_def by (metis option.distinct(1), metis)
    then show ?thesis using Cons.IH [OF u(2)] all_shipped_set [OF u(1) Cons.prems(2)] Cons.prems(3) by blast
  qed (use Cons in simp)
qed simp


text \<open>A path under a legacy root is tested before it is moved, and escapes the strip list.\<close>

theorem strip_misses_legacy_roots:
  "shouldStrip ''./usr/lib64/security/pam_cap.so'' \<and> \<not> shouldStrip ''./lib64/security/pam_cap.so'' \<and>
    mergedUsr ''./lib64/security/pam_cap.so'' = Some ''./usr/lib64/security/pam_cap.so''"
  by code_simp

section \<open>A concrete package\<close>

definition sample_entry :: "string \<Rightarrow> nat \<Rightarrow> int \<Rightarrow> string \<Rightarrow> cpio_entry" where
  "sample_entry name nlink ino bytes =
     \<lparr>ce_Filename = name, ce_Mode = 33188, ce_Nlink = nlink, ce_Filesize = length bytes, ce_Ino = ino,
      ce_Devmajor = 0, ce_Devminor = 0, ce_Mtime = 5, ce_Uid = 0, ce_Gid = 0, ce_Body = Inr bytes\<rparr>"

text \<open>Two links of one file, whose bytes come with a third that is documentation.\<close>

definition sample_entries :: "cpio_entry list" where
  "sample_entries =
     [sample_entry ''./lib/a'' 3 7 '''', sample_entry ''./usr/b'' 3 7 '''',
      sample_entry ''./usr/share/doc/c'' 3 7 ''xyz'', sample_entry ''./etc/d'' 1 8 ''q'']"

definition sample_payload :: cpio_payload where
  "sample_payload = \<lparr>cp_Items = map Inr sample_entries, cp_Rest = Inr ''''\<rparr>"

lemma sample_archive:
  "writePayloadAsTar sample_payload [] =
     Inr [(entry_header (sample_entries ! 2) ''./usr/lib/a'' TypeReg '''', ''xyz''),
          (entry_header (sample_entries ! 1) ''./usr/b'' TypeLink ''./usr/lib/a'', ''''),
          (entry_header (sample_entries ! 3) ''./etc/d'' TypeReg '''', ''q'')]"
  by code_simp

theorem writePayloadAsTar_keeps_bytes_witness:
  "gives (case writePayloadAsTar sample_payload [] of Inr w \<Rightarrow> w) ''./usr/b'' ''xyz''"
proof -
  have items: "cp_Items sample_payload = map Inr sample_entries" by (simp add: sample_payload_def)
  have mem: "sample_entries ! 1 \<in> set sample_entries" by (simp add: sample_entries_def)
  have "bytes_last sample_entries" "isCpioRegular (sample_entries ! 1)"
    "kept_name (sample_entries ! 1) = Some ''./usr/b''"
    and b: "file_bytes sample_entries (sample_entries ! 1) = ''xyz''"
    by code_simp+
  from writePayloadAsTar_keeps_bytes [OF items this(1) sample_archive mem this(2,3)]
  show ?thesis unfolding sample_archive sum.case b .
qed


end
