(* ===== verification/Bep_Digests.thy ===== *)
theory Bep_Digests
  imports Go_Sort Go_Json Go_Crypto Go_Bufio Go_Worklist "HOL-Library.AList" "HOL-Library.Monad_Syntax"
begin

text \<open>
  bazel/bep/bep.go: one hash per target out of a Build Event Protocol stream. The events are
  decoded from JSON Lines, the named sets of files form a graph, and the outputs of a target are
  the files of the sets reachable from its output groups. The recursion \<open>walk\<close> of the code
  follows a set's children before the rest: a search with a stack. The lemmas show that the hash
  is a function of the set of reachable files and of nothing else.
\<close>

section \<open>Events\<close>

record output_file =
  of_Name :: string
  of_Digest :: string

record namedSetOfFiles =
  ns_Files :: "output_file list"
  ns_FileSets :: "string list"

record outputGroup =
  og_Name :: string
  og_FileSets :: "string list"

record completed =
  cp_Success :: bool
  cp_OutputGroup :: "outputGroup list"

record event =
  ev_NamedSet :: "string option"
  ev_TargetCompleted :: "string option"
  ev_NamedSetOfFiles :: "namedSetOfFiles option"
  ev_Completed :: "completed option"

text \<open>A pointer field: nil when the member is missing or null.\<close>

definition dec_pointer :: "'a decoder \<Rightarrow> 'a option decoder" where
  "dec_pointer d j = (case j of JNull \<Rightarrow> Some None | _ \<Rightarrow> map_option Some (d j))"

definition dec_setRef :: "string decoder" where
  "dec_setRef = dec_struct (\<lambda>j. dec_field j ''id'' dec_string)"

definition dec_namedSet :: "namedSetOfFiles decoder" where
  "dec_namedSet = dec_struct (\<lambda>j. do {
     files \<leftarrow> dec_field j ''files'' (dec_list (dec_struct (\<lambda>f. do {
       name \<leftarrow> dec_field f ''name'' dec_string;
       digest \<leftarrow> dec_field f ''digest'' dec_string;
       Some \<lparr>of_Name = name, of_Digest = digest\<rparr> })));
     sets \<leftarrow> dec_field j ''fileSets'' (dec_list dec_setRef);
     Some \<lparr>ns_Files = files, ns_FileSets = sets\<rparr>
   })"

definition dec_completed :: "completed decoder" where
  "dec_completed = dec_struct (\<lambda>j. do {
     success \<leftarrow> dec_field j ''success'' dec_bool;
     groups \<leftarrow> dec_field j ''outputGroup'' (dec_list (dec_struct (\<lambda>g. do {
       name \<leftarrow> dec_field g ''name'' dec_string;
       sets \<leftarrow> dec_field g ''fileSets'' (dec_list dec_setRef);
       Some \<lparr>og_Name = name, og_FileSets = sets\<rparr> })));
     Some \<lparr>cp_Success = success, cp_OutputGroup = groups\<rparr>
   })"

definition dec_build_event :: "event decoder" where
  "dec_build_event = dec_struct (\<lambda>j. do {
     ids \<leftarrow> dec_field j ''id'' (dec_struct (\<lambda>i. do {
       named \<leftarrow> dec_field i ''namedSet'' (dec_pointer dec_setRef);
       target \<leftarrow> dec_field i ''targetCompleted''
         (dec_pointer (dec_struct (\<lambda>t. dec_field t ''label'' dec_string)));
       Some (named, target) }));
     files \<leftarrow> dec_field j ''namedSetOfFiles'' (dec_pointer dec_namedSet);
     result \<leftarrow> dec_field j ''completed'' (dec_pointer dec_completed);
     Some \<lparr>ev_NamedSet = fst ids, ev_TargetCompleted = snd ids, ev_NamedSetOfFiles = files,
           ev_Completed = result\<rparr>
   })"

section \<open>The stream\<close>

definition defaultOutputGroup :: string where
  "defaultOutputGroup = ''default''"

definition maxEventBytes :: int where
  "maxEventBytes = 16 * 1024 * 1024"

type_synonym file_sets = "(string \<times> namedSetOfFiles) list"

type_synonym bep_state = "file_sets \<times> (string \<times> string list) list"

text \<open>The roots of a label accumulate: it may complete once per configuration.\<close>

definition add_roots :: "string \<Rightarrow> string list \<Rightarrow> (string \<times> string list) list \<Rightarrow> (string \<times> string list) list" where
  "add_roots label ids roots =
     AList.update label ((case map_of roots label of None \<Rightarrow> [] | Some r \<Rightarrow> r) @ ids) roots"

definition add_event :: "event \<Rightarrow> bep_state \<Rightarrow> bep_state" where
  "add_event e st =
     (case st of (sets, roots) \<Rightarrow>
        (case (ev_NamedSet e, ev_NamedSetOfFiles e) of
           (Some ref, Some files) \<Rightarrow> (AList.update ref files sets, roots)
         | _ \<Rightarrow>
             (case (ev_TargetCompleted e, ev_Completed e) of
                (Some label, Some c) \<Rightarrow>
                  if cp_Success c
                  then (sets, foldl (\<lambda>r g. if og_Name g = defaultOutputGroup
                                           then add_roots label (og_FileSets g) r else r)
                                roots (cp_OutputGroup c))
                  else (sets, roots)
              | _ \<Rightarrow> (sets, roots))))"

fun read_events :: "string list \<Rightarrow> bep_state \<Rightarrow> bep_state result" where
  "read_events [] st = Inr st"
| "read_events (l # ls) st =
     (let line = trim_space l
      in if line = '''' then read_events ls st
         else (case unmarshal dec_build_event line of
             None \<Rightarrow> Inl ''parsing build event''
           | Some e \<Rightarrow> read_events ls (add_event e st)))"

section \<open>The hash of a target\<close>

definition file_entries :: "namedSetOfFiles \<Rightarrow> string list" where
  "file_entries s = map (\<lambda>f. of_Name f @ CHR 0x00 # of_Digest f) (ns_Files s)"

definition children_of :: "file_sets \<Rightarrow> string \<Rightarrow> string list" where
  "children_of sets ref = (case map_of sets ref of Some s \<Rightarrow> ns_FileSets s | None \<Rightarrow> [])"

definition entries_of :: "file_sets \<Rightarrow> string \<Rightarrow> string list" where
  "entries_of sets ref = (case map_of sets ref of Some s \<Rightarrow> file_entries s | None \<Rightarrow> [])"

definition walk :: "file_sets \<Rightarrow> string list \<Rightarrow> string list" where
  "walk sets refs = explore False (map fst sets) (children_of sets) [] refs"

definition hash_lines :: "string list \<Rightarrow> string" where
  "hash_lines entries = hex_encode (sha256 (concat (map (\<lambda>e. e @ [CHR 0x0A]) entries)))"

definition hashOutputs :: "file_sets \<Rightarrow> string list \<Rightarrow> string" where
  "hashOutputs sets refs =
     (let seen = remdups (concat (map (entries_of sets) (walk sets refs)))
      in if seen = [] then '''' else hash_lines (sort_strings seen))"

definition OutputDigests :: "string \<Rightarrow> (string \<times> string) list result" where
  "OutputDigests blob =
     (case read_events (scan_lines maxEventBytes blob) ([], []) of
        Inl err \<Rightarrow> Inl err
      | Inr (sets, roots) \<Rightarrow>
          if scan_ok maxEventBytes blob
          then Inr (filter (\<lambda>(label, hash). hash \<noteq> '''')
                 (map (\<lambda>(label, refs). (label, hashOutputs sets refs)) roots))
          else Inl ''reading build events: bufio.Scanner: token too long'')"

section \<open>What the hash depends on\<close>

text \<open>The files in the sets reachable from a target's output groups, each with its digest.\<close>

definition reachable_files :: "file_sets \<Rightarrow> string set \<Rightarrow> string set" where
  "reachable_files sets refs =
     (\<Union>ref \<in> reach (map fst sets) (children_of sets) refs. set (entries_of sets ref))"

text \<open>
  C25: the hash of a target is the hash of the sorted list of the distinct files reachable from
  its output groups through the graph of file sets: it does not depend on the order of the
  events, on how the files are grouped into sets, on cycles, or on how often a file is reached;
  and it is empty exactly when nothing is reached.
\<close>

theorem hashOutputs_reachable:
  "hashOutputs sets refs =
     (if reachable_files sets (set refs) = {} then ''''
      else hash_lines (sorted_list_of_set (reachable_files sets (set refs))))"
proof -
  define seen where "seen = remdups (concat (map (entries_of sets) (walk sets refs)))"
  have "set (walk sets refs) = reach (map fst sets) (children_of sets) (set refs)"
    unfolding walk_def by (rule explore_from)
  then have s: "set seen = reachable_files sets (set refs)"
    by (simp add: seen_def reachable_files_def)
  have "sorted (sort_strings seen)" "distinct (sort_strings seen)"
    by (simp_all add: sorted_sort_strings) (simp add: sort_strings_def seen_def)
  moreover have "set (sort_strings seen) = set seen" by simp
  ultimately have "sort_strings seen = sorted_list_of_set (reachable_files sets (set refs))"
    unfolding s [symmetric] by (metis sorted_list_of_set.idem_if_sorted_distinct)
  moreover have "seen = [] \<longleftrightarrow> reachable_files sets (set refs) = {}" using s by (metis set_empty)
  ultimately show ?thesis by (simp add: hashOutputs_def seen_def [symmetric] Let_def)
qed

end
