(* ===== verification/Registry_Proxy.thy ===== *)
theory Registry_Proxy
  imports Directory_Handler Go_Json Go_Bufio
begin

text \<open>
  oci/proxy/proxy.go: the read-only registry in front of the upstream one. A request is its
  method, path, query and headers; the transport of a repository, which carries the anonymous
  pull token, comes from go-containerregistry and is a parameter with the call it makes, as is the
  choice of its LRU cache what to keep. Header names stand as the code writes them.

  The lemmas show what the upstream is asked, what a shared cache may keep and for how long, and
  that a blob is only ever answered with a redirect.
\<close>

section \<open>Requests\<close>

record proxy_request =
  pq_Method :: string
  pq_Path :: string
  pq_RawQuery :: string
  pq_Header :: "(string \<times> string) list"

record upstream_request =
  uq_Method :: string
  uq_Scheme :: string
  uq_Host :: string
  uq_Path :: string
  uq_RawQuery :: string
  uq_Header :: "(string \<times> string) list"

record upstream_response =
  ur_StatusCode :: nat
  ur_Header :: "(string \<times> string) list"
  ur_Body :: "string result"

text \<open>
  The transports: \<open>pr_NewTransport\<close> is the parsing of the repository and the registry's
  handshake, an error with the status it was refused with, if it was; \<open>pr_RoundTrip\<close> one call.
\<close>

record 't proxy =
  pr_upstream :: string
  pr_repositoryPrefix :: string
  pr_scheme :: string
  pr_repos :: "string list"
  pr_NewTransport :: "string \<Rightarrow> string \<Rightarrow> string \<Rightarrow> (nat option \<times> string) + 't"
  pr_RoundTrip :: "'t \<Rightarrow> upstream_request \<Rightarrow> upstream_response result"
  pr_resident :: "string list \<Rightarrow> string \<Rightarrow> bool"

text \<open>The cached transports, latest first, with the keys of every call made to the cache.\<close>

type_synonym 't transports = "(string \<times> 't) list \<times> string list"

definition MaxCacheEntries :: nat where
  "MaxCacheEntries = 100"

definition New :: "string \<Rightarrow> string \<Rightarrow> bool \<Rightarrow> string list \<Rightarrow>
    (string \<Rightarrow> string \<Rightarrow> string \<Rightarrow> (nat option \<times> string) + 't) \<Rightarrow>
    ('t \<Rightarrow> upstream_request \<Rightarrow> upstream_response result) \<Rightarrow> (string list \<Rightarrow> string \<Rightarrow> bool) \<Rightarrow> 't proxy" where
  "New upstream repositoryPrefix insecure repos transport roundTrip resident =
     \<lparr>pr_upstream = upstream, pr_repositoryPrefix = repositoryPrefix,
      pr_scheme = (if insecure then ''http'' else ''https''), pr_repos = repos,
      pr_NewTransport = transport, pr_RoundTrip = roundTrip, pr_resident = resident\<rparr>"

section \<open>Paths\<close>

definition is_op :: "string \<Rightarrow> bool" where
  "is_op s \<longleftrightarrow> s = ''manifests'' \<or> s = ''blobs'' \<or> s = ''tags'' \<or> s = ''referrers''"

text \<open>The loop of \<open>findOp\<close> from index \<open>i - 1\<close> down.\<close>

fun find_op_down :: "string list \<Rightarrow> nat \<Rightarrow> nat option" where
  "find_op_down segments 0 = None"
| "find_op_down segments (Suc i) = (if is_op (segments ! i) then Some i else find_op_down segments i)"

definition findOp :: "string list \<Rightarrow> nat option" where
  "findOp segments = find_op_down segments (length segments)"

definition path_segments :: "string \<Rightarrow> string list" where
  "path_segments path = split_byte (trim_prefix path ''/v2/'') CHR ''/''"

definition RewritePath :: "string \<Rightarrow> string \<Rightarrow> string" where
  "RewritePath path repositoryPrefix = ''/v2/'' @ repositoryPrefix @ ''/'' @ trim_prefix path ''/v2/''"

definition ExtractRepo :: "string \<Rightarrow> string" where
  "ExtractRepo path =
     (let segments = path_segments path
      in case findOp segments of
           Some i \<Rightarrow> if 0 < i then join ''/'' (take i segments) else trim_prefix path ''/v2/''
         | None \<Rightarrow> trim_prefix path ''/v2/'')"

definition IsBlob :: "string \<Rightarrow> bool" where
  "IsBlob path =
     (let segments = path_segments path
      in case findOp segments of Some i \<Rightarrow> segments ! i = ''blobs'' | None \<Rightarrow> False)"

definition isTagsList :: "string \<Rightarrow> bool" where
  "isTagsList path \<longleftrightarrow> has_suffix path ''/tags/list''"

definition mutableShort :: string where
  "mutableShort = ''public, max-age=900, stale-while-revalidate=3600, stale-if-error=86400''"

definition immutableYear :: string where
  "immutableYear = ''public, max-age=31536000, immutable''"

definition blobShort :: string where
  "blobShort = ''public, max-age=120, stale-while-revalidate=120, stale-if-error=120''"

definition cacheControl :: "string \<Rightarrow> string" where
  "cacheControl path =
     (if path = ''/v2/'' \<or> path = ''/v2'' then ''public, max-age=86400, stale-if-error=86400''
      else if path = ''/v2/_catalog'' then mutableShort
      else if has_suffix path ''/tags/list'' then mutableShort
      else
        (let segments = path_segments path
         in case findOp segments of
              None \<Rightarrow> ''''
            | Some i \<Rightarrow>
                if Suc i = length segments then ''''
                else if segments ! i = ''manifests'' then
                  (if has_prefix (segments ! Suc i) ''sha256:'' then immutableYear else mutableShort)
                else if segments ! i = ''referrers'' then mutableShort
                else if segments ! i = ''blobs'' then blobShort
                else ''''))"

section \<open>The catalogue\<close>

definition serveCatalog :: "'t proxy \<Rightarrow> response \<Rightarrow> response" where
  "serveCatalog p w =
     write_body
       (''{'' @ json_quote ''repositories'' @ '':['' @ join '','' (map json_quote (pr_repos p)) @ '']}'' @ newline)
       (set_header ''Content-Type'' ''application/json'' w)"

section \<open>The tag list\<close>

text \<open>
  A document as \<open>json.Unmarshal\<close> keeps it in a map of raw messages, each compacted as
  \<open>json.Marshal\<close> writes it: white space outside strings goes, and the characters HTML cares for
  are escaped.
\<close>

fun compact_json :: "bool \<Rightarrow> bool \<Rightarrow> string \<Rightarrow> string" where
  "compact_json instr esc [] = []"
| "compact_json instr esc (c # s) =
     (if \<not> instr then
        (if json_space c then compact_json False False s
         else c # compact_json (c = CHR 0x22) False s)
      else
        (if c = CHR ''<'' \<or> c = CHR ''>'' \<or> c = CHR ''&'' then unicode_escape (nat (byte c)) else [c])
        @ compact_json (esc \<or> c \<noteq> CHR 0x22) (\<not> esc \<and> c = CHR 0x5C) s)"

text \<open>The line separators U+2028 and U+2029, which occur in strings only.\<close>

definition escape_separators :: "string \<Rightarrow> string" where
  "escape_separators s =
     concat (map (\<lambda>r. if r = utf8 0x2028 then unicode_escape 0x2028
                      else if r = utf8 0x2029 then unicode_escape 0x2029 else r) (runes s))"

text \<open>
  The members of a compacted object, as text: cut at the commas of depth one. The arguments are
  whether a string is open, whether a byte is escaped, the depth and the bytes of the part.
\<close>

fun cut_members :: "bool \<Rightarrow> bool \<Rightarrow> nat \<Rightarrow> string \<Rightarrow> string \<Rightarrow> string list" where
  "cut_members instr esc d acc [] = (if acc = [] then [] else [rev acc])"
| "cut_members instr esc d acc (c # s) =
     (if instr then cut_members (esc \<or> c \<noteq> CHR 0x22) (\<not> esc \<and> c = CHR 0x5C) d (c # acc) s
      else if c = CHR 0x22 then cut_members True False d (c # acc) s
      else if c = CHR ''{'' \<or> c = CHR ''['' then
        (if d = 0 then cut_members False False 1 [] s else cut_members False False (Suc d) (c # acc) s)
      else if c = CHR ''}'' \<or> c = CHR '']'' then
        (if d = 1 then (if acc = [] then [] else [rev acc]) else cut_members False False (d - 1) (c # acc) s)
      else if c = CHR '','' \<and> d = 1 then rev acc # cut_members False False d [] s
      else cut_members False False d (c # acc) s)"

text \<open>A member's key, without its quotes and escapes undone, and its value.\<close>

fun cut_key :: "bool \<Rightarrow> string \<Rightarrow> string \<Rightarrow> string \<times> string" where
  "cut_key esc acc [] = (rev acc, [])"
| "cut_key esc acc (c # s) =
     (if \<not> esc \<and> c = CHR 0x22 then (rev acc, s) else cut_key (\<not> esc \<and> c = CHR 0x5C) (c # acc) s)"

definition raw_member :: "string \<Rightarrow> string \<times> string" where
  "raw_member m =
     (case cut_key False [] (drop 1 m) of (k, rest) \<Rightarrow>
        (case unquote_runs None k of Some k' \<Rightarrow> valid_utf8 k' | None \<Rightarrow> k, drop 1 rest))"

definition raw_map :: "string \<Rightarrow> (string \<times> string) list option" where
  "raw_map body =
     (case parse_json body of
        Some (JObject kvs) \<Rightarrow>
          Some (foldl (\<lambda>m part. case raw_member part of (k, v) \<Rightarrow> AList.update k v m) []
                 (cut_members False False 0 [] (compact_json False False body)))
      | Some JNull \<Rightarrow> Some []
      | _ \<Rightarrow> None)"

definition marshal_raw_map :: "(string \<times> string) list \<Rightarrow> string" where
  "marshal_raw_map m =
     ''{'' @ join '','' (map (\<lambda>(k, v). json_quote k @ '':'' @ escape_separators v)
        (sort_stable (\<lambda>a b. cmp_compare (fst a) (fst b)) m)) @ ''}''"

text \<open>
  A null document is a nil map, which cannot be assigned to: the assignment panics, and
  \<open>net/http\<close> then drops the connection. That is \<open>None\<close>.
\<close>

definition rewriteTagsName :: "string result \<Rightarrow> string \<Rightarrow> nat \<Rightarrow> response \<Rightarrow> response option" where
  "rewriteTagsName body repo statusCode w =
     (case body of
        Inl _ \<Rightarrow> Some (write_status statusCode w)
      | Inr data \<Rightarrow>
          (case raw_map data of
             None \<Rightarrow> Some (write_body data (write_status statusCode w))
           | Some m \<Rightarrow>
               if parse_json data = Some JNull then None
               else
                 (let out = marshal_raw_map (AList.update ''name'' (json_quote repo) m)
                  in Some (write_body out
                       (write_status statusCode (set_header ''Content-Length'' (itoa (length out)) w))))))"

section \<open>The proxy\<close>

text \<open>The transport of a repository, from the cache or new.\<close>

definition getTransport :: "'t proxy \<Rightarrow> 't transports \<Rightarrow> string \<Rightarrow> ((nat option \<times> string) + 't) \<times> 't transports" where
  "getTransport p st repo =
     (case st of (kept, calls) \<Rightarrow>
        (case (if pr_resident p calls repo then map_of kept repo else None) of
           Some t \<Rightarrow> (Inr t, (kept, repo # calls))
         | None \<Rightarrow>
             (case pr_NewTransport p (pr_scheme p) (pr_upstream p) (pr_repositoryPrefix p @ ''/'' @ repo) of
                Inl err \<Rightarrow> (Inl err, (kept, repo # calls))
              | Inr t \<Rightarrow> (Inr t, ((repo, t) # kept, repo # repo # calls)))))"

definition proxyHeaders :: "string list" where
  "proxyHeaders = [''Content-Type'', ''Content-Length'', ''Docker-Content-Digest'',
     ''Docker-Distribution-Api-Version'', ''ETag'', ''Link'', ''Location'']"

definition header_values :: "(string \<times> string) list \<Rightarrow> string \<Rightarrow> string list" where
  "header_values h k = map snd (filter (\<lambda>kv. fst kv = k) h)"

definition header_get :: "(string \<times> string) list \<Rightarrow> string \<Rightarrow> string" where
  "header_get h k = (case map_of h k of Some v \<Rightarrow> v | None \<Rightarrow> '''')"

definition forwarded_headers :: "(string \<times> string) list \<Rightarrow> (string \<times> string) list" where
  "forwarded_headers h =
     map (Pair ''Accept'') (header_values h ''Accept'')
     @ concat (map (\<lambda>k. if header_get h k \<noteq> '''' then [(k, header_get h k)] else [])
         [''If-None-Match'', ''If-Modified-Since''])"

definition upstream_request_of :: "'t proxy \<Rightarrow> proxy_request \<Rightarrow> upstream_request" where
  "upstream_request_of p r =
     \<lparr>uq_Method = pq_Method r, uq_Scheme = pr_scheme p, uq_Host = pr_upstream p,
      uq_Path = RewritePath (pq_Path r) (pr_repositoryPrefix p), uq_RawQuery = pq_RawQuery r,
      uq_Header = forwarded_headers (pq_Header r)\<rparr>"

definition status_text :: "nat \<Rightarrow> string" where
  "status_text code =
     (case map_of [(400, ''Bad Request''), (401, ''Unauthorized''), (402, ''Payment Required''),
        (403, ''Forbidden''), (404, ''Not Found''), (405, ''Method Not Allowed''), (406, ''Not Acceptable''),
        (407, ''Proxy Authentication Required''), (408, ''Request Timeout''), (409, ''Conflict''),
        (410, ''Gone''), (411, ''Length Required''), (412, ''Precondition Failed''),
        (413, ''Request Entity Too Large''), (414, ''Request URI Too Long''),
        (415, ''Unsupported Media Type''), (416, ''Requested Range Not Satisfiable''),
        (417, ''Expectation Failed''), (418, [CHR ''I'', CHR 0x27] @ ''m a teapot''),
        (421, ''Misdirected Request''), (422, ''Unprocessable Entity''), (423, ''Locked''),
        (424, ''Failed Dependency''), (425, ''Too Early''), (426, ''Upgrade Required''),
        (428, ''Precondition Required''), (429, ''Too Many Requests''),
        (431, ''Request Header Fields Too Large''), (451, ''Unavailable For Legal Reasons'')] code of
        Some t \<Rightarrow> t | None \<Rightarrow> '''')"

definition copy_headers :: "(string \<times> string) list \<Rightarrow> response \<Rightarrow> response" where
  "copy_headers h w =
     foldl (\<lambda>w k. if header_get h k \<noteq> '''' then set_header k (header_get h k) w else w) w proxyHeaders"

text \<open>What an upstream answer becomes; a body that breaks off is left empty.\<close>

definition relay :: "proxy_request \<Rightarrow> string \<Rightarrow> upstream_response \<Rightarrow> response option" where
  "relay r repo resp =
     (let code = ur_StatusCode resp; path = pq_Path r
      in if IsBlob path \<and> code < 300
         then Some (http_Error ''upstream did not redirect blob request'' 502 fresh)
         else
           (let w = copy_headers (ur_Header resp) fresh;
                w = (if (code = 200 \<or> code = 307) \<and> cacheControl path \<noteq> ''''
                     then set_header ''Cache-Control'' (cacheControl path) w else w)
            in if isTagsList path \<and> code = 200 then rewriteTagsName (ur_Body resp) repo code w
               else Some (case ur_Body resp of
                   Inr b \<Rightarrow> write_body b (write_status code w)
                 | Inl _ \<Rightarrow> write_status code w)))"

definition proxyRequest :: "'t proxy \<Rightarrow> 't transports \<Rightarrow> proxy_request \<Rightarrow> response option \<times> 't transports" where
  "proxyRequest p st r =
     (let repo = ExtractRepo (pq_Path r)
      in case getTransport p st repo of (t, st') \<Rightarrow>
           (case t of
              Inl (Some code, _) \<Rightarrow>
                if 400 \<le> code \<and> code < 500 then (Some (http_Error (status_text code) code fresh), st')
                else (Some (http_Error ''transport setup failed'' 502 fresh), st')
            | Inl (None, _) \<Rightarrow> (Some (http_Error ''transport setup failed'' 502 fresh), st')
            | Inr t' \<Rightarrow>
                (case pr_RoundTrip p t' (upstream_request_of p r) of
                   Inl _ \<Rightarrow> (Some (http_Error ''upstream request failed'' 502 fresh), st')
                 | Inr resp \<Rightarrow> (relay r repo resp, st'))))"

definition ServeHTTP :: "'t proxy \<Rightarrow> 't transports \<Rightarrow> proxy_request \<Rightarrow> response option \<times> 't transports" where
  "ServeHTTP p st r =
     (let path = pq_Path r
      in if pq_Method r \<noteq> ''GET'' \<and> pq_Method r \<noteq> ''HEAD'' then (Some (write_status 405 fresh), st)
         else if path = ''/v2/'' \<or> path = ''/v2'' then
           (Some (write_body ''{}''
              (set_header ''Cache-Control'' (cacheControl path)
                (set_header ''Docker-Distribution-Api-Version'' ''registry/2.0''
                  (set_header ''Content-Type'' ''application/json'' fresh)))), st)
         else if path = ''/v2/_catalog'' then
           (Some (serveCatalog p (set_header ''Cache-Control'' (cacheControl path) fresh)), st)
         else if \<not> has_prefix path ''/v2/'' then (Some (write_status 404 fresh), st)
         else proxyRequest p st r)"

section \<open>Operations and repositories\<close>

lemma find_op_down_append: "k \<le> length xs \<Longrightarrow> find_op_down (xs @ ys) k = find_op_down xs k"
  by (induction k) (simp_all add: nth_append)

lemma findOp_tail:
  assumes "is_op op" "\<not> is_op ref"
  shows "findOp (xs @ [op, ref]) = Some (length xs)"
proof -
  have "findOp (xs @ [op, ref]) = find_op_down ((xs @ [op]) @ [ref]) (Suc (Suc (length xs)))"
    by (simp add: findOp_def)
  then show ?thesis using assms by (simp add: nth_append)
qed

lemma path_segments_of:
  assumes "CHR ''/'' \<notin> set op" "CHR ''/'' \<notin> set ref"
  shows "path_segments (''/v2/'' @ repo @ ''/'' @ op @ ''/'' @ ref) = split_byte repo CHR ''/'' @ [op, ref]"
  using assms split_byte_sep [of repo "CHR ''/''"] split_byte_sep [of op "CHR ''/''" ref]
  by (simp add: path_segments_def trim_prefix_def split_byte_no_sep)

text \<open>
  A path that names an operation on a repository is read back as that repository whatever
  the repository is called (its segments may be named like operations), and the upstream is
  asked for the same operation under the prefix; the reference alone must not be the name of an
  operation.
\<close>

theorem ExtractRepo_path:
  assumes "is_op op" "\<not> is_op ref" "CHR ''/'' \<notin> set ref"
  shows "ExtractRepo (''/v2/'' @ repo @ ''/'' @ op @ ''/'' @ ref) = repo \<and>
    IsBlob (''/v2/'' @ repo @ ''/'' @ op @ ''/'' @ ref) = (op = ''blobs'') \<and>
    RewritePath (''/v2/'' @ repo @ ''/'' @ op @ ''/'' @ ref) up
      = ''/v2/'' @ (up @ ''/'' @ repo) @ ''/'' @ op @ ''/'' @ ref"
proof -
  have op: "CHR ''/'' \<notin> set op" using assms(1) by (auto simp: is_op_def)
  note segs = path_segments_of [OF op assms(3), of repo]
  have f: "findOp (split_byte repo CHR ''/'' @ [op, ref]) = Some (length (split_byte repo CHR ''/''))"
    by (rule findOp_tail) fact+
  have r: "trim_prefix (''/v2/'' @ repo @ ''/'' @ op @ ''/'' @ ref) ''/v2/'' = repo @ ''/'' @ op @ ''/'' @ ref"
    by (rule trim_prefix_append)
  have "ExtractRepo (''/v2/'' @ repo @ ''/'' @ op @ ''/'' @ ref) = repo"
    unfolding ExtractRepo_def Let_def segs f by (simp add: join_split_byte)
  moreover have "IsBlob (''/v2/'' @ repo @ ''/'' @ op @ ''/'' @ ref) = (op = ''blobs'')"
    unfolding IsBlob_def Let_def segs f by (simp add: nth_append)
  moreover have "RewritePath (''/v2/'' @ repo @ ''/'' @ op @ ''/'' @ ref) up
      = ''/v2/'' @ (up @ ''/'' @ repo) @ ''/'' @ op @ ''/'' @ ref"
    unfolding RewritePath_def r by simp
  ultimately show ?thesis by blast
qed

theorem ExtractRepo_path_witness:
  "ExtractRepo (''/v2/'' @ ''go/tags/debian'' @ ''/'' @ ''manifests'' @ ''/'' @ ''latest'') = ''go/tags/debian'' \<and>
    IsBlob (''/v2/'' @ ''go/tags/debian'' @ ''/'' @ ''manifests'' @ ''/'' @ ''latest'') = (''manifests'' = ''blobs'') \<and>
    RewritePath (''/v2/'' @ ''go/tags/debian'' @ ''/'' @ ''manifests'' @ ''/'' @ ''latest'') ''p''
      = ''/v2/'' @ (''p'' @ ''/'' @ ''go/tags/debian'') @ ''/'' @ ''manifests'' @ ''/'' @ ''latest''"
  by (rule ExtractRepo_path) (simp_all add: is_op_def)

text \<open>A tag may be named like an operation; then the repository is misread.\<close>

theorem ExtractRepo_misreads_tag:
  "ExtractRepo ''/v2/redis/manifests/tags'' = ''redis/manifests''" "cacheControl ''/v2/redis/manifests/tags'' = ''''"
  by code_simp+

text \<open>A tag list that is the document null makes the assignment to the map panic.\<close>

theorem rewriteTagsName_null: "rewriteTagsName (Inr ''null'') repo 200 w = None"
proof -
  have "parse_json ''null'' = Some JNull" by code_simp
  then show ?thesis by (simp add: rewriteTagsName_def raw_map_def)
qed

section \<open>What the upstream is asked\<close>

text \<open>A request the proxy may make.\<close>

definition admissible :: "'t proxy \<Rightarrow> upstream_request \<Rightarrow> bool" where
  "admissible p q \<longleftrightarrow>
     (uq_Method q = ''GET'' \<or> uq_Method q = ''HEAD'') \<and> uq_Scheme q = pr_scheme p \<and>
     uq_Host q = pr_upstream p \<and> has_prefix (uq_Path q) (''/v2/'' @ pr_repositoryPrefix p @ ''/'') \<and>
     list_all (\<lambda>kv. fst kv \<in> {''Accept'', ''If-None-Match'', ''If-Modified-Since''}) (uq_Header q)"

lemma upstream_request_admissible:
  "pq_Method r = ''GET'' \<or> pq_Method r = ''HEAD'' \<Longrightarrow> admissible p (upstream_request_of p r)"
  by (auto simp: admissible_def upstream_request_of_def RewritePath_def forwarded_headers_def list_all_iff
      has_prefix_iff)

text \<open>
  C26: whatever a reader sends, the upstream sees only reads, only of repositories under the
  configured prefix on the configured host, and no header of the reader's but Accept and the two
  conditional ones: the answers are the same for any upstream that agrees on such requests.
\<close>

theorem ServeHTTP_admissible:
  assumes "\<And>t q. admissible p q \<Longrightarrow> roundTrip t q = pr_RoundTrip p t q"
  shows "ServeHTTP (p\<lparr>pr_RoundTrip := roundTrip\<rparr>) st r = ServeHTTP p st r"
proof -
  have g: "getTransport (p\<lparr>pr_RoundTrip := roundTrip\<rparr>) st repo = getTransport p st repo" for repo
    by (simp add: getTransport_def split: prod.split option.split sum.split)
  have u: "upstream_request_of (p\<lparr>pr_RoundTrip := roundTrip\<rparr>) r = upstream_request_of p r"
    by (simp add: upstream_request_of_def)
  have "proxyRequest (p\<lparr>pr_RoundTrip := roundTrip\<rparr>) st r = proxyRequest p st r"
    if "pq_Method r = ''GET'' \<or> pq_Method r = ''HEAD''"
    using assms [OF upstream_request_admissible [OF that]]
    by (simp add: proxyRequest_def g u Let_def split: prod.split sum.split option.split)
  then show ?thesis by (auto simp: ServeHTTP_def serveCatalog_def Let_def)
qed

section \<open>What a shared cache may keep\<close>

lemma header_of_copy_headers:
  "header_of (copy_headers h w) ''Cache-Control'' = header_of w ''Cache-Control''"
  "StatusCode (copy_headers h w) = StatusCode w"
  by (simp_all add: copy_headers_def proxyHeaders_def)

lemma rewriteTagsName_simps:
  assumes "rewriteTagsName body repo code w = Some w'"
  shows "StatusCode w' = code" "header_of w' ''Cache-Control'' = header_of w ''Cache-Control''"
  using assms by (auto simp: rewriteTagsName_def Let_def split: sum.splits option.splits if_splits)

lemma relay_policy:
  assumes "relay r repo resp = Some w"
  shows "(StatusCode w = 200 \<or> StatusCode w = 307 \<or> header_of w ''Cache-Control'' = None) \<and>
    (header_of w ''Cache-Control'' = None \<or>
     header_of w ''Cache-Control'' = Some (cacheControl (pq_Path r))) \<and>
    (IsBlob (pq_Path r) \<longrightarrow> 300 \<le> StatusCode w)"
proof (cases "IsBlob (pq_Path r) \<and> ur_StatusCode resp < 300")
  case True
  then have "w = http_Error ''upstream did not redirect blob request'' 502 fresh"
    using assms by (simp add: relay_def Let_def)
  then show ?thesis by simp
next
  case False
  define v where "v = (if (ur_StatusCode resp = 200 \<or> ur_StatusCode resp = 307) \<and> cacheControl (pq_Path r) \<noteq> ''''
    then set_header ''Cache-Control'' (cacheControl (pq_Path r)) (copy_headers (ur_Header resp) fresh)
    else copy_headers (ur_Header resp) fresh)"
  have v: "header_of v ''Cache-Control'' =
      (if (ur_StatusCode resp = 200 \<or> ur_StatusCode resp = 307) \<and> cacheControl (pq_Path r) \<noteq> ''''
       then Some (cacheControl (pq_Path r)) else None)"
    by (simp add: v_def header_of_copy_headers)
  have "(if isTagsList (pq_Path r) \<and> ur_StatusCode resp = 200
         then rewriteTagsName (ur_Body resp) repo (ur_StatusCode resp) v
         else Some (case ur_Body resp of
             Inr b \<Rightarrow> write_body b (write_status (ur_StatusCode resp) v)
           | Inl _ \<Rightarrow> write_status (ur_StatusCode resp) v)) = Some w"
    using assms unfolding relay_def Let_def v_def by (simp only: False if_False)
  then have "StatusCode w = ur_StatusCode resp" "header_of w ''Cache-Control'' = header_of v ''Cache-Control''"
    using rewriteTagsName_simps by (auto split: if_splits sum.splits)
  then show ?thesis using False by (auto simp: v)
qed

text \<open>A tag list ends in the operation it is.\<close>

lemma path_segments_tags:
  assumes "has_suffix path ''/tags/list''"
  shows "\<exists>xs. path_segments path = xs @ [''tags'', ''list'']"
proof -
  obtain r where r: "path = r @ ''/tags/list''" using assms by (auto simp: has_suffix_iff)
  have s: "split_byte (x @ ''/tags/list'') CHR ''/'' = split_byte x CHR ''/'' @ [''tags'', ''list'']" for x
    using split_byte_sep [of x "CHR ''/''" "''tags/list''"] by simp
  show ?thesis
  proof (cases "has_prefix path ''/v2/''")
    case False
    then show ?thesis using s [of r] by (auto simp: path_segments_def trim_prefix_def r)
  next
    case True
    then obtain q where q: "path = ''/v2/'' @ q" by (auto simp: has_prefix_iff)
    have t: "trim_prefix path ''/v2/'' = q" unfolding q by (rule trim_prefix_append)
    have "''/v2/'' @ q = r @ ''/tags/list''" by (rule trans [OF q [symmetric] r])
    from iffD1 [OF append_eq_append_conv2 this] obtain us where
      c: "(''/v2/'' = r @ us \<and> us @ q = ''/tags/list'') \<or> (''/v2/'' @ us = r \<and> q = us @ ''/tags/list'')"
      by (rule exE)
    from c show ?thesis
    proof (rule disjE; elim conjE)
      assume "''/v2/'' @ us = r" "q = us @ ''/tags/list''"
      then have "path_segments path = split_byte us CHR ''/'' @ [''tags'', ''list'']"
        unfolding path_segments_def t using s [of us] by (simp only:)
      then show ?thesis by blast
    next
      assume 1: "''/v2/'' = r @ us" and 2: "us @ q = ''/tags/list''"
      have us: "us = drop (length r) ''/v2/''" unfolding 1 by simp
      have "length r + length us = 4" using arg_cong [OF 1, of length] by simp
      then have "length r = 0 \<or> length r = 1 \<or> length r = 2 \<or> length r = 3 \<or> length r = 4" by linarith
      then have "q = ''tags/list'' \<or> q = ''/tags/list''" using 2 us by (elim disjE) simp_all
      then show ?thesis using s [of "[]"] by (auto simp: path_segments_def t)
    qed
  qed
qed

lemma cacheControl_blob: "IsBlob path \<Longrightarrow> cacheControl path \<in> {'''', blobShort}"
proof -
  assume b: "IsBlob path"
  have "\<not> has_suffix path ''/tags/list''"
  proof
    assume "has_suffix path ''/tags/list''"
    then obtain xs where "path_segments path = xs @ [''tags'', ''list'']" using path_segments_tags by blast
    then show False
      using b findOp_tail [of "''tags''" "''list''" xs] by (simp add: IsBlob_def Let_def is_op_def nth_append)
  qed
  moreover have "path \<noteq> ''/v2/'' \<and> path \<noteq> ''/v2'' \<and> path \<noteq> ''/v2/_catalog''"
  proof -
    have "list_all (\<lambda>path. \<not> IsBlob path) [''/v2/'', ''/v2'', ''/v2/_catalog'']" by code_simp
    then show ?thesis using b by auto
  qed
  ultimately show ?thesis using b
    by (auto simp: cacheControl_def IsBlob_def Let_def split: option.splits)
qed

lemma cacheControl_immutable:
  "cacheControl path = immutableYear \<Longrightarrow>
     \<exists>i. findOp (path_segments path) = Some i \<and> path_segments path ! i = ''manifests'' \<and>
       has_prefix (path_segments path ! Suc i) ''sha256:''"
  by (auto simp: cacheControl_def Let_def immutableYear_def mutableShort_def blobShort_def
      split: if_splits option.splits)

text \<open>
  C10: an answer that is not a success or a redirect carries no cache policy, an answer that may
  be kept for good is to a request for a manifest by digest, the answer to a request for a blob
  is a redirect or an error, never the blob, and a redirect to a blob is kept at most two
  minutes, and as long again when stale.
\<close>

theorem ServeHTTP_cacheable:
  assumes "fst (ServeHTTP p st r) = Some w" "header_of w ''Cache-Control'' = Some policy"
  shows "(StatusCode w = 200 \<or> StatusCode w = 307) \<and> policy = cacheControl (pq_Path r) \<and>
    (if IsBlob (pq_Path r) then 300 \<le> StatusCode w \<and> policy \<in> {'''', blobShort} else True) \<and>
    (if policy = immutableYear
     then \<exists>i. findOp (path_segments (pq_Path r)) = Some i \<and> path_segments (pq_Path r) ! i = ''manifests'' \<and>
       has_prefix (path_segments (pq_Path r) ! Suc i) ''sha256:''
     else True)"
proof -
  have local: "cacheControl path \<noteq> '''' \<and> \<not> IsBlob path" if "path \<in> {''/v2/'', ''/v2'', ''/v2/_catalog''}" for path
  proof -
    have "list_all (\<lambda>path. cacheControl path \<noteq> '''' \<and> \<not> IsBlob path) [''/v2/'', ''/v2'', ''/v2/_catalog'']"
      by code_simp
    then show ?thesis using that by auto
  qed
  consider (v2) "pq_Path r = ''/v2/'' \<or> pq_Path r = ''/v2''" | (catalog) "pq_Path r = ''/v2/_catalog''"
    | (other) "pq_Path r \<notin> {''/v2/'', ''/v2'', ''/v2/_catalog''}" by blast
  then have "(StatusCode w = 200 \<or> StatusCode w = 307) \<and> policy = cacheControl (pq_Path r) \<and>
    (if IsBlob (pq_Path r) then 300 \<le> StatusCode w else True)"
  proof cases
    case v2
    then show ?thesis using assms local [of "pq_Path r"]
      by (auto simp: ServeHTTP_def Let_def split: if_splits)
  next
    case catalog
    then show ?thesis using assms local [of "pq_Path r"]
      by (auto simp: ServeHTTP_def serveCatalog_def Let_def split: if_splits)
  next
    case other
    then have "fst (proxyRequest p st r) = Some w"
      using assms by (auto simp: ServeHTTP_def Let_def split: if_splits)
    then obtain resp where "relay r (ExtractRepo (pq_Path r)) resp = Some w"
      using assms(2) by (auto simp: proxyRequest_def Let_def split: sum.splits prod.splits option.splits if_splits)
    from relay_policy [OF this] assms(2) show ?thesis by auto
  qed
  then show ?thesis using cacheControl_blob cacheControl_immutable by (auto split: if_splits)
qed

text \<open>An upstream that answers everything with one response, and the answers of the proxy to it.\<close>

definition sample_proxy :: "unit proxy" where
  "sample_proxy =
     New ''ghcr.io'' ''a/b'' False [''static''] (\<lambda>_ _ _. Inr ())
       (\<lambda>_ _. Inr \<lparr>ur_StatusCode = 200, ur_Header = [(''Content-Type'', ''x'')], ur_Body = Inr ''{}''\<rparr>) (\<lambda>_ _. True)"

definition sample_get :: "string \<Rightarrow> proxy_request" where
  "sample_get path = \<lparr>pq_Method = ''GET'', pq_Path = path, pq_RawQuery = '''', pq_Header = []\<rparr>"

theorem ServeHTTP_cacheable_witness:
  "StatusCode (the (fst (ServeHTTP sample_proxy ([], []) (sample_get ''/v2/static/manifests/sha256:ab'')))) = 200 \<and>
    (\<exists>i. findOp (path_segments ''/v2/static/manifests/sha256:ab'') = Some i)"
proof -
  let ?w = "\<lparr>StatusCode = 200, Header = [(''Content-Type'', ''x''), (''Cache-Control'', immutableYear)], Body = Text ''{}''\<rparr>"
  have s: "fst (ServeHTTP sample_proxy ([], []) (sample_get ''/v2/static/manifests/sha256:ab'')) = Some ?w"
    by code_simp
  have "header_of ?w ''Cache-Control'' = Some immutableYear" by (simp add: header_of_def)
  from ServeHTTP_cacheable [OF s this]
  have "\<exists>i. findOp (path_segments (pq_Path (sample_get ''/v2/static/manifests/sha256:ab''))) = Some i"
    by (simp split: if_splits) blast
  then show ?thesis unfolding s by (simp add: sample_get_def)
qed

theorem ServeHTTP_admissible_witness:
  "ServeHTTP (sample_proxy\<lparr>pr_RoundTrip := \<lambda>t q. if admissible sample_proxy q then pr_RoundTrip sample_proxy t q
      else Inl ''never asked''\<rparr>) ([], []) (sample_get ''/v2/x'')
    = ServeHTTP sample_proxy ([], []) (sample_get ''/v2/x'')"
  by (rule ServeHTTP_admissible) simp

end
