(* ===== verification/Go_Path.thy ===== *)
theory Go_Path
  imports Go_Prelude
begin

text \<open>
  Package \<open>path\<close>: cleaning and joining slash-separated paths, and the shell patterns of
  \<open>path.Match\<close>, which finds a match for one chunk between two stars at a time and reports a
  malformed pattern only where it reads it.
\<close>

section \<open>Cleaning\<close>

text \<open>The elements of a path so far, last first; a leading slash makes \<open>..\<close> at the root vanish.\<close>

fun clean_elements :: "bool \<Rightarrow> string list \<Rightarrow> string list \<Rightarrow> string list" where
  "clean_elements rooted acc [] = rev acc"
| "clean_elements rooted acc (p # ps) =
     (if p = [] \<or> p = ''.'' then clean_elements rooted acc ps
      else if p = ''..'' then
        (if acc \<noteq> [] \<and> hd acc \<noteq> ''..'' then clean_elements rooted (tl acc) ps
         else if rooted then clean_elements rooted acc ps
         else clean_elements rooted (p # acc) ps)
      else clean_elements rooted (p # acc) ps)"

definition IsAbs :: "string \<Rightarrow> bool" where
  "IsAbs p \<longleftrightarrow> has_prefix p ''/''"

definition Clean :: "string \<Rightarrow> string" where
  "Clean p =
     (let out = (if IsAbs p then ''/'' else []) @
                join ''/'' (clean_elements (IsAbs p) [] (split_byte p CHR ''/''))
      in if out = [] then ''.'' else out)"

definition path_Join :: "string list \<Rightarrow> string" where
  "path_Join es =
     (let es' = filter (\<lambda>e. e \<noteq> []) es in if es' = [] then [] else Clean (join ''/'' es'))"

text \<open>What stands before the last slash, with it; \<open>path.Dir\<close> and \<open>path.Base\<close>.\<close>

definition Dir :: "string \<Rightarrow> string" where
  "Dir p = Clean (case last_index_byte p CHR ''/'' of None \<Rightarrow> [] | Some i \<Rightarrow> take (Suc i) p)"

definition Base :: "string \<Rightarrow> string" where
  "Base p =
     (if p = [] then ''.''
      else
        (let q = trim_right p ''/''
         in if q = [] then ''/''
            else case last_index_byte q CHR ''/'' of None \<Rightarrow> q | Some i \<Rightarrow> drop (Suc i) q))"

text \<open>\<open>path.Ext\<close>: from the last dot of the last element.\<close>

definition Ext :: "string \<Rightarrow> string" where
  "Ext p =
     (let base = (case last_index_byte p CHR ''/'' of None \<Rightarrow> p | Some i \<Rightarrow> drop (Suc i) p)
      in case last_index_byte base CHR ''.'' of None \<Rightarrow> [] | Some i \<Rightarrow> drop i base)"

section \<open>Patterns\<close>

text \<open>A rune as its bytes, an invalid byte as the replacement character.\<close>

definition decoded :: "string \<Rightarrow> string" where
  "decoded s =
     (let r = take (rune_width s) s
      in if length r = 1 \<and> 128 \<le> byte (hd r) then [CHR 0xEF, CHR 0xBF, CHR 0xBD] else r)"

text \<open>One bound of a character class and the pattern after it; \<open>None\<close> is a bad pattern.\<close>

definition getEsc :: "string \<Rightarrow> (string \<times> string) option" where
  "getEsc chunk =
     (if chunk = [] \<or> hd chunk = CHR ''-'' \<or> hd chunk = CHR '']'' then None
      else
        (let c = (if hd chunk = CHR 0x5C then tl chunk else chunk);
             w = rune_width c; rest = drop w c
         in if c = [] \<or> (w = 1 \<and> 128 \<le> byte (hd c)) \<or> rest = [] then None
            else Some (take w c, rest)))"

text \<open>The ranges of a class up to its bracket: whether one holds the rune, and what follows.\<close>

fun class_ranges :: "nat \<Rightarrow> string \<Rightarrow> string \<Rightarrow> bool \<Rightarrow> bool \<Rightarrow> (bool \<times> string) option" where
  "class_ranges 0 chunk r matched some = None"
| "class_ranges (Suc n) chunk r matched some =
     (if some \<and> chunk \<noteq> [] \<and> hd chunk = CHR '']'' then Some (matched, tl chunk)
      else
        (case getEsc chunk of
           None \<Rightarrow> None
         | Some (lo, c1) \<Rightarrow>
             (case (if hd c1 = CHR ''-'' then getEsc (tl c1) else Some (lo, c1)) of
                None \<Rightarrow> None
              | Some (hi, c2) \<Rightarrow> class_ranges n c2 r (matched \<or> lo \<le> r \<and> r \<le> hi) True)))"

text \<open>
  A chunk against the start of a name: \<open>None\<close> for a bad pattern, else what of the name follows
  the match. The rest of the name is \<open>None\<close> once the match has failed.
\<close>

fun matchChunk :: "nat \<Rightarrow> string \<Rightarrow> string option \<Rightarrow> string option option" where
  "matchChunk 0 chunk s = (if chunk = [] then Some s else None)"
| "matchChunk (Suc n) chunk s =
     (if chunk = [] then Some s
      else
        (let s = (if s = Some [] then None else s)
         in if hd chunk = CHR ''['' then
              (let r = (case s of None \<Rightarrow> [CHR 0x00] | Some t \<Rightarrow> decoded t);
                   s = map_option (\<lambda>t. drop (rune_width t) t) s;
                   negated = (tl chunk \<noteq> [] \<and> hd (tl chunk) = CHR ''^'');
                   c = (if negated then tl (tl chunk) else tl chunk)
               in case class_ranges (length chunk) c r False False of
                    None \<Rightarrow> None
                  | Some (matched, rest) \<Rightarrow> matchChunk n rest (if matched = negated then None else s))
            else if hd chunk = CHR ''?'' then
              matchChunk n (tl chunk)
                (case s of None \<Rightarrow> None
                 | Some t \<Rightarrow> if hd t = CHR ''/'' then None else Some (drop (rune_width t) t))
            else
              (let c = (if hd chunk = CHR 0x5C then tl chunk else chunk)
               in if c = [] then None
                  else matchChunk n (tl c)
                    (case s of None \<Rightarrow> None | Some t \<Rightarrow> if hd c \<noteq> hd t then None else Some (tl t)))))"

text \<open>The chunk up to the next star outside a class.\<close>

fun chunk_end :: "bool \<Rightarrow> string \<Rightarrow> string \<times> string" where
  "chunk_end inrange [] = ([], [])"
| "chunk_end inrange [c] =
     (if c = CHR ''*'' \<and> \<not> inrange then ([], [c]) else ([c], []))"
| "chunk_end inrange (c # d # cs) =
     (if c = CHR 0x5C then (case chunk_end inrange cs of (a, b) \<Rightarrow> (c # d # a, b))
      else if c = CHR ''['' then (case chunk_end True (d # cs) of (a, b) \<Rightarrow> (c # a, b))
      else if c = CHR '']'' then (case chunk_end False (d # cs) of (a, b) \<Rightarrow> (c # a, b))
      else if c = CHR ''*'' \<and> \<not> inrange then ([], c # d # cs)
      else (case chunk_end inrange (d # cs) of (a, b) \<Rightarrow> (c # a, b)))"

definition scanChunk :: "string \<Rightarrow> bool \<times> string \<times> string" where
  "scanChunk pattern =
     (let rest = dropWhile (\<lambda>c. c = CHR ''*'') pattern
      in (rest \<noteq> pattern, chunk_end False rest))"

definition match_here :: "string \<Rightarrow> string \<Rightarrow> string option option" where
  "match_here chunk name = matchChunk (length chunk) chunk (Some name)"

text \<open>A star skips bytes, but no slash; the last chunk must reach the end of the name.\<close>

fun match_later :: "string \<Rightarrow> bool \<Rightarrow> string \<Rightarrow> string option option" where
  "match_later chunk is_last [] = Some None"
| "match_later chunk is_last (c # name) =
     (if c = CHR ''/'' then Some None
      else
        (case match_here chunk name of
           None \<Rightarrow> None
         | Some (Some t) \<Rightarrow> if is_last \<and> t \<noteq> [] then match_later chunk is_last name else Some (Some t)
         | Some None \<Rightarrow> match_later chunk is_last name))"

text \<open>The chunks left when a match has failed are still checked.\<close>

fun chunks_ok :: "nat \<Rightarrow> string \<Rightarrow> bool" where
  "chunks_ok 0 pattern = True"
| "chunks_ok (Suc n) pattern =
     (if pattern = [] then True
      else case scanChunk pattern of (star, chunk, rest) \<Rightarrow>
        match_here chunk [] \<noteq> None \<and> chunks_ok n rest)"

fun match_pattern :: "nat \<Rightarrow> string \<Rightarrow> string \<Rightarrow> bool option" where
  "match_pattern 0 pattern name = Some (pattern = [] \<and> name = [])"
| "match_pattern (Suc n) pattern name =
     (if pattern = [] then Some (name = [])
      else
        (case scanChunk pattern of (star, chunk, rest) \<Rightarrow>
           if star \<and> chunk = [] then Some (CHR ''/'' \<notin> set name)
           else
             (case match_here chunk name of
                None \<Rightarrow> None
              | Some here \<Rightarrow>
                  if (case here of Some t \<Rightarrow> t = [] \<or> rest \<noteq> [] | None \<Rightarrow> False)
                  then match_pattern n rest (case here of Some t \<Rightarrow> t | None \<Rightarrow> [])
                  else
                    (case (if star then match_later chunk (rest = []) name else Some None) of
                       None \<Rightarrow> None
                     | Some (Some t) \<Rightarrow> match_pattern n rest t
                     | Some None \<Rightarrow> if chunks_ok n rest then Some False else None))))"

text \<open>\<open>path.Match\<close>: \<open>None\<close> for a bad pattern.\<close>

definition path_Match :: "string \<Rightarrow> string \<Rightarrow> bool option" where
  "path_Match pattern name = match_pattern (length pattern) pattern name"

lemma path_samples:
  "Clean ''/a/../../b//./c/'' = ''/b/c''" "Clean ''a/../..'' = ''..''" "Clean [] = ''.''"
  "path_Join [''/usr/lib'', ''../x''] = ''/usr/x''" "Dir ''/usr/lib/x'' = ''/usr/lib''"
  "path_Match ''/usr/lib/*/lib?.so*'' ''/usr/lib/x86/libb.so.1'' = Some True"
  "path_Match ''/usr/*'' ''/usr/lib/x'' = Some False" "path_Match ''[a-c][^x]z'' ''byz'' = Some True"
  "path_Match ''a['' ''b'' = None"
  by code_simp+

end
