(* ===== verification/Elf_Needs.thy ===== *)
theory Elf_Needs
  imports Go_Path Go_Sort
begin

text \<open>
  oci/tools/elfneeds/main.go: whether every ELF of an image root can load what it needs. The
  operating system and package \<open>debug/elf\<close> are the fields of \<open>image_root\<close>, functions on the
  paths the program gives them: what \<open>Lstat\<close> and \<open>Readlink\<close> say of a path, what a file holds,
  what an ELF declares, which paths a glob matches, and what a walk of the root visits, in order.
\<close>

section \<open>The image\<close>

datatype node = Regular | Directory | Symlink "string result" | OtherFile

record elf_file =
  ef_Machine :: nat
  ef_Progs :: "(bool \<times> string result) list"
  ef_Needed :: "string list result"
  ef_Runpath :: "string list"
  ef_Rpath :: "string list"

record image_root =
  im_root :: string
  im_Lstat :: "string \<Rightarrow> node option"
  im_ReadFile :: "string \<Rightarrow> string result"
  im_ParseELF :: "string \<Rightarrow> elf_file result"
  im_Glob :: "string \<Rightarrow> string list"
  im_Walk :: "(string \<times> node) result list"

definition EM_NONE :: nat where "EM_NONE = 0"

definition ELFMAG :: string where "ELFMAG = CHR 0x7F # ''ELF''"

definition defaultDirs :: "string list" where
  "defaultDirs =
     [''/lib'', ''/usr/lib'', ''/lib64'', ''/usr/lib64'',
      ''/lib/x86_64-linux-gnu'', ''/usr/lib/x86_64-linux-gnu'',
      ''/lib/aarch64-linux-gnu'', ''/usr/lib/aarch64-linux-gnu'']"

section \<open>Allowances\<close>

record allow =
  al_glob :: string
  al_reason :: string

text \<open>\<open>strings.Cut\<close> at the first \<open>=\<close>; a bad pattern is refused here, so that none is met later.\<close>

definition allow_Set :: "string \<Rightarrow> allow list \<Rightarrow> allow list result" where
  "allow_Set v a =
     (case cut_byte v CHR ''='' of
        None \<Rightarrow> Inl (''--allow wants <path glob>=<reason>, got '' @ v)
      | Some (glob, reason) \<Rightarrow>
          if glob = [] \<or> reason = [] then Inl (''--allow wants <path glob>=<reason>, got '' @ v)
          else if path_Match glob [] = None then Inl (''--allow '' @ v @ '': syntax error in pattern'')
          else Inr (a @ [\<lparr>al_glob = glob, al_reason = reason\<rparr>]))"

definition allowed_by :: "allow \<Rightarrow> string \<Rightarrow> bool" where
  "allowed_by a file \<longleftrightarrow> path_Match (al_glob a) file = Some True"

section \<open>Files\<close>

text \<open>A path of the image as the operating system is asked for it.\<close>

definition real_path :: "image_root \<Rightarrow> string \<Rightarrow> string" where
  "real_path im p = path_Join [im_root im, p]"

text \<open>The loop of \<open>fileInRoot\<close>, with the turns it has left.\<close>

definition link_target :: "string \<Rightarrow> string \<Rightarrow> string" where
  "link_target p target = (if IsAbs target then Clean target else path_Join [Dir p, target])"

fun follow :: "image_root \<Rightarrow> nat \<Rightarrow> string \<Rightarrow> string \<times> bool" where
  "follow im 0 p = ([], False)"
| "follow im (Suc n) p =
     (case im_Lstat im (real_path im p) of
        None \<Rightarrow> ([], False)
      | Some (Symlink (Inl err)) \<Rightarrow> ([], False)
      | Some (Symlink (Inr target)) \<Rightarrow> follow im n (link_target p target)
      | Some k \<Rightarrow> (real_path im p, k = Regular))"

definition maxLinks :: nat where "maxLinks = 40"

definition fileInRoot :: "image_root \<Rightarrow> string \<Rightarrow> string \<times> bool" where
  "fileInRoot im imagePath = follow im maxLinks (Clean imagePath)"

definition read_elf :: "image_root \<Rightarrow> string \<Rightarrow> elf_file result" where
  "read_elf im real = (case im_ReadFile im real of Inl err \<Rightarrow> Inl err | Inr b \<Rightarrow> im_ParseELF im b)"

definition machineOf :: "image_root \<Rightarrow> string \<Rightarrow> nat" where
  "machineOf im real = (case read_elf im real of Inl _ \<Rightarrow> EM_NONE | Inr ef \<Rightarrow> ef_Machine ef)"

section \<open>What an ELF needs\<close>

fun interpreter_of :: "(bool \<times> string result) list \<Rightarrow> string" where
  "interpreter_of [] = []"
| "interpreter_of ((is_interp, content) # progs) =
     (if \<not> is_interp then interpreter_of progs
      else case content of Inl _ \<Rightarrow> [] | Inr b \<Rightarrow> trim_right b [CHR 0x00])"

definition interpreter :: "elf_file \<Rightarrow> string" where
  "interpreter ef = interpreter_of (ef_Progs ef)"

definition expand_origin :: "string \<Rightarrow> string \<Rightarrow> string" where
  "expand_origin origin dir =
     replace_all (replace_all dir ''${ORIGIN}'' origin) ''$ORIGIN'' origin"

definition runpath :: "elf_file \<Rightarrow> string \<Rightarrow> string list" where
  "runpath ef origin =
     (let entries = (if ef_Runpath ef = [] then ef_Rpath ef else ef_Runpath ef)
      in concat (map (\<lambda>e. map (\<lambda>dir. Clean (expand_origin origin dir))
           (filter (\<lambda>dir. dir \<noteq> []) (split_byte e CHR '':''))) entries))"

definition resolves :: "image_root \<Rightarrow> string \<Rightarrow> string list \<Rightarrow> nat \<Rightarrow> bool" where
  "resolves im soname dirs machine =
     list_ex (\<lambda>dir. case fileInRoot im (path_Join [dir, soname]) of
         (real, ok) \<Rightarrow> ok \<and> machineOf im real = machine) dirs"

definition needsOf :: "image_root \<Rightarrow> string \<Rightarrow> string list \<Rightarrow> string list result" where
  "needsOf im imagePath searchDirs =
     (case im_ReadFile im (real_path im imagePath) of
        Inl err \<Rightarrow> Inl err
      | Inr content \<Rightarrow>
          if take 4 content \<noteq> ELFMAG then Inr []
          else
            (case im_ParseELF im content of
               Inl err \<Rightarrow> Inl (''parse ELF: '' @ err)
             | Inr ef \<Rightarrow>
                 (let interp = interpreter ef;
                      missing = (if interp \<noteq> [] \<and> \<not> snd (fileInRoot im interp)
                                 then [''interpreter '' @ interp] else [])
                  in case ef_Needed ef of
                       Inl err \<Rightarrow> Inl (''DT_NEEDED: '' @ err)
                     | Inr needed \<Rightarrow>
                         Inr (missing @
                           filter (\<lambda>soname. \<not> resolves im soname
                               (runpath ef (Dir imagePath) @ searchDirs) (ef_Machine ef)) needed))))"

section \<open>The loader's configuration\<close>

text \<open>A path the operating system returned, as a path of the image.\<close>

definition image_path :: "image_root \<Rightarrow> string \<Rightarrow> string" where
  "image_path im p = CHR ''/'' # trim_prefix p (im_root im @ ''/'')"

text \<open>The files read, by how many more includes may be nested.\<close>

fun read_conf :: "image_root \<Rightarrow> nat \<Rightarrow> string \<Rightarrow> string list" where
  "read_conf im 0 imagePath = []"
| "read_conf im (Suc n) imagePath =
     (case im_ReadFile im (real_path im imagePath) of
        Inl _ \<Rightarrow> []
      | Inr b \<Rightarrow>
          concat (map (\<lambda>line.
            if line = [] \<or> has_prefix line ''#'' then []
            else
              (case cut_prefix line ''include '' of
                 Some pattern \<Rightarrow>
                   concat (map (\<lambda>m. read_conf im n (image_path im m))
                     (sort_strings (im_Glob im (real_path im (trim_space pattern)))))
               | None \<Rightarrow> [Clean line]))
            (map trim_space (split_byte b CHR 0x0A))))"

definition maxIncludes :: nat where "maxIncludes = 8"

definition ldSoConfDirs :: "image_root \<Rightarrow> string list" where
  "ldSoConfDirs im = read_conf im (Suc maxIncludes) ''/etc/ld.so.conf''"

section \<open>The check\<close>

record unresolved =
  un_file :: string
  un_missing :: "string list"

text \<open>The walk stops at the first error.\<close>

fun walk_root :: "image_root \<Rightarrow> string list \<Rightarrow> (string \<times> node) result list \<Rightarrow> unresolved list result" where
  "walk_root im dirs [] = Inr []"
| "walk_root im dirs (Inl err # items) = Inl err"
| "walk_root im dirs (Inr (p, k) # items) =
     (if k \<noteq> Regular \<or> has_prefix (image_path im p) ''/usr/lib/debug/'' then walk_root im dirs items
      else
        (case needsOf im (image_path im p) dirs of
           Inl err \<Rightarrow> Inl (image_path im p @ '': '' @ err)
         | Inr missing \<Rightarrow>
             (case walk_root im dirs items of
                Inl err \<Rightarrow> Inl err
              | Inr failures \<Rightarrow>
                  Inr (if missing = [] then failures
                       else \<lparr>un_file = image_path im p, un_missing = missing\<rparr> # failures))))"

definition failure_line :: "allow list \<Rightarrow> unresolved \<Rightarrow> string" where
  "failure_line allows f =
     (case find (\<lambda>a. allowed_by a (un_file f)) allows of
        Some a \<Rightarrow>
          if al_reason a \<noteq> []
          then ''allowed  '' @ un_file f @ '': '' @ join '', '' (un_missing f) @ '' ('' @ al_reason a @ '')'' @ [CHR 0x0A]
          else ''MISSING  '' @ un_file f @ '' cannot load: '' @ join '', '' (un_missing f) @ [CHR 0x0A]
      | None \<Rightarrow> ''MISSING  '' @ un_file f @ '' cannot load: '' @ join '', '' (un_missing f) @ [CHR 0x0A])"

text \<open>The globs that silence something, and whether every failure is silenced.\<close>

fun weigh :: "allow list \<Rightarrow> unresolved list \<Rightarrow> bool \<Rightarrow> string list \<Rightarrow> bool \<times> string list" where
  "weigh allows [] ok used = (ok, used)"
| "weigh allows (f # fs) ok used =
     (case find (\<lambda>a. allowed_by a (un_file f)) allows of
        Some a \<Rightarrow> weigh allows fs (ok \<and> al_reason a \<noteq> []) (al_glob a # used)
      | None \<Rightarrow> weigh allows fs False used)"

text \<open>The globs are printed as \<open>%q\<close> prints text without quotes, backslashes and control characters.\<close>

definition check :: "image_root \<Rightarrow> allow list \<Rightarrow> (string \<times> bool) result" where
  "check im allows =
     (case walk_root im (ldSoConfDirs im @ defaultDirs) (im_Walk im) of
        Inl err \<Rightarrow> Inl err
      | Inr found \<Rightarrow>
          (let failures = sort_less (\<lambda>a b. un_file a < un_file b) found;
               (ok, used) = weigh allows failures True [];
               stale = filter (\<lambda>a. al_glob a \<notin> set used) allows
           in Inr (concat (map (failure_line allows) failures) @
                   concat (map (\<lambda>a. ''STALE    --allow '' @ [CHR 0x22] @ al_glob a @ [CHR 0x22] @ '' silences nothing; remove it'' @ [CHR 0x0A]) stale),
                   ok \<and> stale = [])))"

text \<open>The exit code and what is printed.\<close>

definition elfneeds_main :: "(string \<Rightarrow> image_root) \<Rightarrow> string \<Rightarrow> string list \<Rightarrow> nat \<times> string" where
  "elfneeds_main open_root root flags =
     (case foldl (\<lambda>r v. case r of Inl err \<Rightarrow> Inl err | Inr a \<Rightarrow> allow_Set v a) (Inr []) flags of
        Inl _ \<Rightarrow> (2, [])
      | Inr allows \<Rightarrow>
          if root = [] then (2, [])
          else
            (case check (open_root root) allows of
               Inl _ \<Rightarrow> (1, [])
             | Inr (report, ok) \<Rightarrow> (if ok then 0 else 1, report)))"

section \<open>Following links\<close>

text \<open>A path leads to another over at most so many symlinks.\<close>

inductive leads_to :: "image_root \<Rightarrow> nat \<Rightarrow> string \<Rightarrow> string \<Rightarrow> bool" for im where
  here: "leads_to im n p p"
| link: "im_Lstat im (real_path im p) = Some (Symlink (Inr target)) \<Longrightarrow>
    leads_to im n (link_target p target) q \<Longrightarrow> leads_to im (Suc n) p q"

inductive_cases leads_to_zero: "leads_to im 0 p q"
inductive_cases leads_to_Suc: "leads_to im (Suc n) p q"

lemma follow_regular:
  "follow im (Suc n) p = (real, True) \<longleftrightarrow>
     (\<exists>q. leads_to im n p q \<and> im_Lstat im (real_path im q) = Some Regular \<and> real = real_path im q)"
proof (induction n arbitrary: p)
  case 0
  show ?case
    by (auto split: option.splits node.splits sum.splits intro: leads_to.here elim: leads_to_zero)
next
  case (Suc n)
  show ?case
  proof (cases "\<exists>target. im_Lstat im (real_path im p) = Some (Symlink (Inr target))")
    case True
    then obtain target where t: "im_Lstat im (real_path im p) = Some (Symlink (Inr target))" by blast
    have "leads_to im (Suc n) p q \<and> im_Lstat im (real_path im q) = Some Regular \<longleftrightarrow>
        leads_to im n (link_target p target) q \<and> im_Lstat im (real_path im q) = Some Regular" for q
      using t by (auto elim!: leads_to_Suc intro: leads_to.link)
    moreover have "follow im (Suc (Suc n)) p = follow im (Suc n) (link_target p target)" using t by simp
    ultimately show ?thesis using Suc.IH [of "link_target p target"] by metis
  next
    case False
    then have "leads_to im (Suc n) p q \<longleftrightarrow> q = p" for q
      by (auto elim: leads_to_Suc intro: leads_to.here)
    moreover have "follow im (Suc (Suc n)) p = (real, True) \<longleftrightarrow>
        im_Lstat im (real_path im p) = Some Regular \<and> real = real_path im p"
      using False by (auto split: option.splits node.splits sum.splits)
    ultimately show ?thesis by simp
  qed
qed

text \<open>
  C29: a library resolves exactly if in one of the directories its name leads, over at most 39
  symlinks, to a regular file of the same machine; a chain that is longer, circular or broken
  counts as missing, and the search always ends.
\<close>

theorem resolves_iff_leads:
  "resolves im soname dirs machine \<longleftrightarrow>
     (\<exists>dir \<in> set dirs. \<exists>q. leads_to im 39 (Clean (path_Join [dir, soname])) q \<and>
        im_Lstat im (real_path im q) = Some Regular \<and> machineOf im (real_path im q) = machine)"
proof -
  have key: "fileInRoot im p = (real, True) \<longleftrightarrow>
      (\<exists>q. leads_to im 39 (Clean p) q \<and> im_Lstat im (real_path im q) = Some Regular \<and> real = real_path im q)"
    for p real
  proof -
    have m: "maxLinks = Suc 39" by (simp add: maxLinks_def)
    show ?thesis unfolding fileInRoot_def m by (rule follow_regular)
  qed
  have "(case fileInRoot im p of (real, ok) \<Rightarrow> ok \<and> machineOf im real = machine) \<longleftrightarrow>
      (\<exists>q. leads_to im 39 (Clean p) q \<and> im_Lstat im (real_path im q) = Some Regular \<and>
        machineOf im (real_path im q) = machine)" for p
  proof -
    have "(case fileInRoot im p of (real, ok) \<Rightarrow> ok \<and> machineOf im real = machine) \<longleftrightarrow>
        (\<exists>real. fileInRoot im p = (real, True) \<and> machineOf im real = machine)"
      by (cases "fileInRoot im p") auto
    also have "\<dots> \<longleftrightarrow> (\<exists>q. leads_to im 39 (Clean p) q \<and> im_Lstat im (real_path im q) = Some Regular \<and>
        machineOf im (real_path im q) = machine)"
      unfolding key by metis
    finally show ?thesis .
  qed
  then show ?thesis unfolding resolves_def list_ex_iff by simp
qed

section \<open>When an image passes\<close>

text \<open>The files the walk looks at.\<close>

definition examined :: "image_root \<Rightarrow> string \<Rightarrow> bool" where
  "examined im p \<longleftrightarrow> Inr (p, Regular) \<in> set (im_Walk im) \<and> \<not> has_prefix (image_path im p) ''/usr/lib/debug/''"

definition searched :: "image_root \<Rightarrow> string list" where
  "searched im = ldSoConfDirs im @ defaultDirs"

lemma walk_root_found:
  assumes "walk_root im dirs items = Inr found"
  shows "f \<in> set found \<longleftrightarrow>
    (\<exists>p. Inr (p, Regular) \<in> set items \<and> \<not> has_prefix (image_path im p) ''/usr/lib/debug/'' \<and>
       un_file f = image_path im p \<and> needsOf im (image_path im p) dirs = Inr (un_missing f) \<and> un_missing f \<noteq> [])"
  using assms
proof (induction im dirs items arbitrary: found rule: walk_root.induct)
  case (3 im dirs p k items)
  show ?case
  proof (cases "k \<noteq> Regular \<or> has_prefix (image_path im p) ''/usr/lib/debug/''")
    case True
    then have "walk_root im dirs items = Inr found" using 3(3) by auto
    from 3(1) [OF True this] True show ?thesis by auto
  next
    case False
    then obtain missing failures where m: "needsOf im (image_path im p) dirs = Inr missing"
      and fs: "walk_root im dirs items = Inr failures"
      and found: "found = (if missing = [] then failures
        else \<lparr>un_file = image_path im p, un_missing = missing\<rparr> # failures)"
      using 3(3) by (auto split: sum.splits)
    show ?thesis unfolding found using 3(2) [OF False m fs] m False by auto
  qed
qed simp_all

lemma walk_root_needs:
  assumes "walk_root im dirs items = Inr found" "Inr (p, Regular) \<in> set items"
    "\<not> has_prefix (image_path im p) ''/usr/lib/debug/''"
  shows "\<exists>missing. needsOf im (image_path im p) dirs = Inr missing"
  using assms
  by (induction im dirs items arbitrary: found rule: walk_root.induct) (auto split: sum.splits if_splits)

lemma weigh_result:
  assumes "list_all (\<lambda>a. al_reason a \<noteq> []) allows" "weigh allows fs ok used = (ok', used')"
  shows "ok' = (ok \<and> list_all (\<lambda>f. list_ex (\<lambda>a. allowed_by a (un_file f)) allows) fs)"
    "set used' = set used \<union> {al_glob b | b f. f \<in> set fs \<and> find (\<lambda>a. allowed_by a (un_file f)) allows = Some b}"
proof -
  have "ok' = (ok \<and> list_all (\<lambda>f. list_ex (\<lambda>a. allowed_by a (un_file f)) allows) fs) \<and>
    set used' = set used \<union> {al_glob b | b f. f \<in> set fs \<and> find (\<lambda>a. allowed_by a (un_file f)) allows = Some b}"
    using assms(2)
  proof (induction fs arbitrary: ok used)
    case (Cons f fs)
    show ?case
    proof (cases "find (\<lambda>a. allowed_by a (un_file f)) allows")
      case None
      then have "\<not> list_ex (\<lambda>a. allowed_by a (un_file f)) allows" by (auto simp: find_None_iff list_ex_iff)
      then show ?thesis using Cons None by auto
    next
      case (Some a)
      then have "a \<in> set allows" "allowed_by a (un_file f)" by (auto simp: find_Some_iff)
      then have "al_reason a \<noteq> []" "list_ex (\<lambda>a. allowed_by a (un_file f)) allows"
        using assms(1) by (auto simp: list_all_iff list_ex_iff)
      moreover have "weigh allows fs ok (al_glob a # used) = (ok', used')"
        using Cons.prems Some \<open>al_reason a \<noteq> []\<close> by simp
      from Cons.IH [OF this] Some calculation show ?thesis by auto
    qed
  qed simp
  then show "ok' = (ok \<and> list_all (\<lambda>f. list_ex (\<lambda>a. allowed_by a (un_file f)) allows) fs)"
    "set used' = set used \<union> {al_glob b | b f. f \<in> set fs \<and> find (\<lambda>a. allowed_by a (un_file f)) allows = Some b}"
    by blast+
qed

text \<open>
  What the failures of a walk say of the files it examined.
\<close>

lemma found_silenced:
  assumes found: "walk_root im (searched im) (im_Walk im) = Inr found"
  shows "(\<forall>f \<in> set found. silenced (un_file f)) \<longleftrightarrow>
    (\<forall>p. examined im p \<longrightarrow> (\<exists>missing. needsOf im (image_path im p) (searched im) = Inr missing \<and>
       (missing = [] \<or> silenced (image_path im p))))"
    (is "?l \<longleftrightarrow> ?r")
proof
  assume l: ?l
  show ?r
  proof (intro allI impI)
    fix p assume p: "examined im p"
    then obtain missing where m: "needsOf im (image_path im p) (searched im) = Inr missing"
      using walk_root_needs [OF found] by (auto simp: examined_def)
    have "missing \<noteq> [] \<Longrightarrow> \<lparr>un_file = image_path im p, un_missing = missing\<rparr> \<in> set found"
      using p m by (auto simp: walk_root_found [OF found] examined_def)
    then have "missing = [] \<or> silenced (image_path im p)" using l by fastforce
    with m show "\<exists>missing. needsOf im (image_path im p) (searched im) = Inr missing \<and>
      (missing = [] \<or> silenced (image_path im p))" by blast
  qed
next
  assume r: ?r
  show ?l
  proof
    fix f assume "f \<in> set found"
    then obtain p where "examined im p" "un_file f = image_path im p"
      "needsOf im (image_path im p) (searched im) = Inr (un_missing f)" "un_missing f \<noteq> []"
      by (auto simp: walk_root_found [OF found] examined_def)
    then show "silenced (un_file f)" using r by fastforce
  qed
qed

lemma found_with:
  assumes found: "walk_root im (searched im) (im_Walk im) = Inr found"
  shows "(\<exists>f \<in> set found. P (un_file f)) \<longleftrightarrow>
    (\<exists>p missing. examined im p \<and> needsOf im (image_path im p) (searched im) = Inr missing \<and>
      missing \<noteq> [] \<and> P (image_path im p))"
proof
  assume "\<exists>f \<in> set found. P (un_file f)"
  then obtain f where "f \<in> set found" "P (un_file f)" by blast
  then show "\<exists>p missing. examined im p \<and> needsOf im (image_path im p) (searched im) = Inr missing \<and>
      missing \<noteq> [] \<and> P (image_path im p)"
    by (auto simp: walk_root_found [OF found] examined_def)
next
  assume "\<exists>p missing. examined im p \<and> needsOf im (image_path im p) (searched im) = Inr missing \<and>
      missing \<noteq> [] \<and> P (image_path im p)"
  then obtain p missing where p: "examined im p" "needsOf im (image_path im p) (searched im) = Inr missing"
    "missing \<noteq> []" "P (image_path im p)" by blast
  then have "\<lparr>un_file = image_path im p, un_missing = missing\<rparr> \<in> set found"
    by (auto simp: walk_root_found [OF found] examined_def)
  with p(4) show "\<exists>f \<in> set found. P (un_file f)" by (intro bexI) auto
qed

text \<open>The first allowance that names a file, by its glob.\<close>

definition silenced_by :: "allow list \<Rightarrow> string \<Rightarrow> string \<Rightarrow> bool" where
  "silenced_by allows glob file \<longleftrightarrow>
     (case find (\<lambda>a. allowed_by a file) allows of None \<Rightarrow> False | Some b \<Rightarrow> al_glob b = glob)"

text \<open>
  C8: an image passes exactly if every ELF outside /usr/lib/debug either finds all it needs or
  is named by an allowance, and every allowance is needed: it is the first that names some file
  with a missing need. A file that cannot be read or parsed fails the run instead.
\<close>

theorem check_passes:
  assumes "check im allows = Inr (report, ok)" "list_all (\<lambda>a. al_reason a \<noteq> []) allows"
  shows "ok \<longleftrightarrow>
    (\<forall>p. examined im p \<longrightarrow> (\<exists>missing. needsOf im (image_path im p) (searched im) = Inr missing \<and>
       (missing = [] \<or> (\<exists>a \<in> set allows. allowed_by a (image_path im p))))) \<and>
    (\<forall>a \<in> set allows. \<exists>p missing. examined im p \<and>
       needsOf im (image_path im p) (searched im) = Inr missing \<and> missing \<noteq> [] \<and>
       silenced_by allows (al_glob a) (image_path im p))"
proof -
  obtain found where found: "walk_root im (searched im) (im_Walk im) = Inr found"
    using assms(1) by (auto simp: check_def searched_def split: sum.splits)
  let ?fs = "sort_less (\<lambda>a b. un_file a < un_file b) found"
  have fs: "set ?fs = set found" by (simp add: sort_less_def)
  obtain ok' used where w: "weigh allows ?fs True [] = (ok', used)" by force
  have ok: "ok \<longleftrightarrow> ok' \<and> (\<forall>a \<in> set allows. al_glob a \<in> set used)"
    using assms(1) found w by (auto simp: check_def searched_def filter_empty_conv)
  have "ok' \<longleftrightarrow> (\<forall>f \<in> set found. \<exists>a \<in> set allows. allowed_by a (un_file f))"
    using weigh_result(1) [OF assms(2) w] by (simp add: list_all_iff list_ex_iff fs)
  moreover have "g \<in> set used \<longleftrightarrow> (\<exists>f \<in> set found. silenced_by allows g (un_file f))" for g
    using weigh_result(2) [OF assms(2) w] by (auto simp: fs silenced_by_def split: option.splits)
  ultimately show ?thesis
    unfolding ok using found_silenced [OF found, of "\<lambda>file. \<exists>a \<in> set allows. allowed_by a file"]
      found_with [OF found, of "silenced_by allows g" for g] by simp
qed

section \<open>A concrete image\<close>

text \<open>A program that needs a library that is a link, and one that is not there.\<close>

definition sample_image :: image_root where
  "sample_image =
     \<lparr>im_root = ''/r'',
      im_Lstat = (\<lambda>p. if p = ''/r/usr/lib/a.so'' then Some (Symlink (Inr ''a.so.1''))
        else if p = ''/r/usr/lib/a.so.1'' then Some Regular else None),
      im_ReadFile = (\<lambda>p. if p = ''/r/bin/x'' then Inr (ELFMAG @ ''x'')
        else if p = ''/r/usr/lib/a.so.1'' then Inr (ELFMAG @ ''a'') else Inl ''missing''),
      im_ParseELF = (\<lambda>b. Inr \<lparr>ef_Machine = 62, ef_Progs = [],
        ef_Needed = Inr (if b = ELFMAG @ ''x'' then [''a.so'', ''b.so''] else []),
        ef_Runpath = [], ef_Rpath = []\<rparr>),
      im_Glob = (\<lambda>_. []),
      im_Walk = [Inr (''/r/bin'', Directory), Inr (''/r/bin/x'', Regular)]\<rparr>"

definition sample_allows :: "allow list" where
  "sample_allows = [\<lparr>al_glob = ''/bin/*'', al_reason = ''b''\<rparr>]"

lemma sample_check:
  "check sample_image sample_allows = Inr (''allowed  /bin/x: b.so (b)'' @ [CHR 0x0A], True)"
  by code_simp

theorem check_passes_witness:
  "examined sample_image ''/r/bin/x'' \<and>
    (\<exists>missing. needsOf sample_image (image_path sample_image ''/r/bin/x'') (searched sample_image) = Inr missing \<and>
       (missing = [] \<or> (\<exists>a \<in> set sample_allows. allowed_by a (image_path sample_image ''/r/bin/x''))))"
proof -
  have "examined sample_image ''/r/bin/x''" by code_simp
  moreover have "list_all (\<lambda>a. al_reason a \<noteq> []) sample_allows" by code_simp
  from check_passes [OF sample_check this] have
    "\<forall>p. examined sample_image p \<longrightarrow>
      (\<exists>missing. needsOf sample_image (image_path sample_image p) (searched sample_image) = Inr missing \<and>
       (missing = [] \<or> (\<exists>a \<in> set sample_allows. allowed_by a (image_path sample_image p))))"
    by (rule iffD1 [THEN conjunct1]) (rule TrueI)
  ultimately show ?thesis by (intro conjI) (assumption, elim allE impE)
qed

end
