(* ===== verification/Debian_Snapshot.thy ===== *)
theory Debian_Snapshot
  imports Go_Time
begin

text \<open>
  oci/debian/snapshot: the manifest of a Debian image pins its archives to timestamps of
  snapshot.debian.org. \<open>snapshot.go\<close> checks a manifest and rewrites the timestamps in its text,
  \<open>fetch.go\<close> finds the newest timestamp of an archive. YAML and HTTP are parameters.
\<close>

section \<open>Timestamps in text\<close>

text \<open>The patterns are matched leftmost and never overlap: eight digits, T, six digits, Z.\<close>

definition timestamp_at :: "string \<Rightarrow> bool" where
  "timestamp_at s \<longleftrightarrow>
     16 \<le> length s \<and> list_all isDigit (take 8 s) \<and> s ! 8 = CHR ''T'' \<and>
     list_all isDigit (take 6 (drop 9 s)) \<and> s ! 15 = CHR ''Z''"

function find_timestamps :: "string \<Rightarrow> string list" where
  "find_timestamps s =
     (if s = [] then []
      else if timestamp_at s then take 16 s # find_timestamps (drop 16 s)
      else find_timestamps (tl s))"
  by pat_completeness auto
termination
  by (relation "measure length") (auto simp: length_greater_0_conv)

declare find_timestamps.simps [simp del]

text \<open>Every match after the prefix replaced; the prefix itself is kept.\<close>

function replace_timestamps :: "string \<Rightarrow> string \<Rightarrow> string \<Rightarrow> string" where
  "replace_timestamps p new s =
     (if s = [] then []
      else if has_prefix s p \<and> timestamp_at (drop (length p) s)
      then p @ new @ replace_timestamps p new (drop (length p + 16) s)
      else hd s # replace_timestamps p new (tl s))"
  by pat_completeness auto
termination
  by (relation "measure (\<lambda>(p, new, s). length s)") (auto simp: length_greater_0_conv)

declare replace_timestamps.simps [simp del]

definition UpdateSnapshotURL :: "string \<Rightarrow> string \<Rightarrow> string" where
  "UpdateSnapshotURL url newTimestamp = replace_timestamps [] newTimestamp url"

definition debianArchive :: string where "debianArchive = ''/archive/debian/''"
definition securityArchive :: string where "securityArchive = ''/archive/debian-security/''"

text \<open>The text of the file before and after.\<close>

definition UpdateTimestampsInFile :: "string \<Rightarrow> string \<Rightarrow> string \<Rightarrow> string" where
  "UpdateTimestampsInFile data debianTimestamp securityTimestamp =
     replace_timestamps securityArchive securityTimestamp
       (replace_timestamps debianArchive debianTimestamp data)"

section \<open>The manifest\<close>

record snapshot_source =
  ss_Channel :: string
  ss_URL :: string
  ss_URLs :: "string list"

record manifest =
  mf_Version :: int
  mf_Sources :: "snapshot_source list"
  mf_Archs :: "string list"
  mf_Packages :: "string list"

fun source_errors :: "nat \<Rightarrow> snapshot_source list \<Rightarrow> string option" where
  "source_errors i [] = None"
| "source_errors i (s # ss) =
     (if ss_Channel s = [] then Some (''invalid manifest: sources['' @ itoa i @ ''].channel must not be empty'')
      else if ss_URL s = [] \<and> ss_URLs s = []
      then Some (''invalid manifest: sources['' @ itoa i @ ''] must have url or urls'')
      else source_errors (Suc i) ss)"

definition ParseManifest :: "(string \<Rightarrow> manifest result) \<Rightarrow> string result \<Rightarrow> manifest result" where
  "ParseManifest yaml data =
     (case data of
        Inl err \<Rightarrow> Inl (''failed to read manifest: '' @ err)
      | Inr b \<Rightarrow>
          (case yaml b of
             Inl err \<Rightarrow> Inl (''failed to parse manifest: '' @ err)
           | Inr m \<Rightarrow>
               if mf_Version m = 0 then Inl ''invalid manifest: missing or zero version''
               else if mf_Sources m = [] then Inl ''invalid manifest: sources must not be empty''
               else if mf_Archs m = [] then Inl ''invalid manifest: archs must not be empty''
               else if mf_Packages m = [] then Inl ''invalid manifest: packages must not be empty''
               else
                 (case source_errors 0 (mf_Sources m) of
                    Some err \<Rightarrow> Inl err
                  | None \<Rightarrow> Inr m)))"

section \<open>The newest snapshot\<close>

text \<open>One GET: no answer, or a status and a body.\<close>

type_synonym http_get = "string \<Rightarrow> (nat \<times> string result) result"

definition previousMonth :: "time \<Rightarrow> time" where
  "previousMonth t = (case date_of t of (y, m, d) \<Rightarrow> instant y m 1 0 0 0 0 - nanos_per_day)"

definition month_url :: "string \<Rightarrow> time \<Rightarrow> string" where
  "month_url archiveURL month =
     (case date_of month of (y, m, d) \<Rightarrow>
        archiveURL @ ''?year='' @ itoa_int y @ ''&month='' @ itoa_int m)"

definition fetchMonth :: "http_get \<Rightarrow> string \<Rightarrow> time \<Rightarrow> string result" where
  "fetchMonth get archiveURL month =
     (let url = month_url archiveURL month
      in case get url of
           Inl err \<Rightarrow> Inl (''failed to fetch '' @ url @ '': '' @ err)
         | Inr (code, body) \<Rightarrow>
             if code = 404 then Inr []
             else if code \<noteq> 200 then Inl (''HTTP '' @ itoa code @ '' from '' @ url)
             else
               (case body of
                  Inl err \<Rightarrow> Inl (''failed to read response: '' @ err)
                | Inr b \<Rightarrow>
                    (let matches = find_timestamps b
                     in Inr (if matches = [] then [] else last matches))))"

fun first_month :: "http_get \<Rightarrow> string \<Rightarrow> time list \<Rightarrow> string result" where
  "first_month get archiveURL [] = Inl (''no snapshot timestamps at '' @ archiveURL)"
| "first_month get archiveURL (month # months) =
     (case fetchMonth get archiveURL month of
        Inl err \<Rightarrow> Inl err
      | Inr timestamp \<Rightarrow> if timestamp \<noteq> [] then Inr timestamp else first_month get archiveURL months)"

definition fetchLatestSnapshotAt :: "http_get \<Rightarrow> string \<Rightarrow> time \<Rightarrow> string result" where
  "fetchLatestSnapshotAt get archiveURL now = first_month get archiveURL [now, previousMonth now]"

definition FetchLatestSnapshot :: "http_get \<Rightarrow> time \<Rightarrow> string \<Rightarrow> string result" where
  "FetchLatestSnapshot get now archiveURL = fetchLatestSnapshotAt get archiveURL now"

section \<open>The calendar\<close>

text \<open>The first day of a month counted from year 0, and the length of the month.\<close>

definition month_start :: "int \<Rightarrow> int" where
  "month_start k =
     days_before_year (k div 12 - 1) +
     sum_list (take (nat (k mod 12)) (month_lengths (is_leap (k div 12))))"

definition month_length :: "int \<Rightarrow> int" where
  "month_length k = month_lengths (is_leap (k div 12)) ! nat (k mod 12)"

lemma div_pred: "0 < n \<Longrightarrow> y div n = (y - 1) div n + (if y mod n = 0 then 1 else 0)" for y n :: int
proof -
  assume n: "0 < n"
  have y: "y = y div n * n + y mod n" and r: "0 \<le> y mod n" "y mod n < n" using n by simp_all
  show ?thesis
  proof (cases "y mod n = 0")
    case True
    have "(y - 1) div n = y div n - 1"
      by (rule int_div_pos_eq [where r = "n - 1"]) (use n True y in \<open>simp_all add: algebra_simps\<close>)
    then show ?thesis using True by simp
  next
    case False
    then have "(y - 1) div n = y div n"
      by (intro int_div_pos_eq [where r = "y mod n - 1"]) (use y r in \<open>simp_all add: algebra_simps\<close>)
    then show ?thesis using False by simp
  qed
qed

lemma mod_chain:
  fixes y :: int
  shows "y mod 400 = 0 \<Longrightarrow> y mod 100 = 0" "y mod 100 = 0 \<Longrightarrow> y mod 4 = 0"
  by presburger+

lemma days_before_year_step:
  "days_before_year y = days_before_year (y - 1) + (if is_leap y then 366 else 365)"
proof -
  have d: "y div n - (y - 1) div n = (if y mod n = 0 then 1 else 0)" if "0 < n" for n :: int
    using div_pred [OF that, of y] by simp
  have "days_before_year y - days_before_year (y - 1) =
      365 + (y div 4 - (y - 1) div 4) - (y div 100 - (y - 1) div 100) + (y div 400 - (y - 1) div 400)"
    unfolding days_before_year_def by (simp only: algebra_simps)
  also have "\<dots> = 365 + (if y mod 4 = 0 then 1 else 0) - (if y mod 100 = 0 then 1 else 0)
      + (if y mod 400 = 0 then 1 else 0)"
    by (simp only: d zero_less_numeral)
  also have "\<dots> = (if is_leap y then 366 else 365)"
    using mod_chain [of y] unfolding is_leap_def
    by (cases "y mod 4 = 0"; cases "y mod 100 = 0"; cases "y mod 400 = 0") simp_all
  finally show ?thesis by (simp only: algebra_simps)
qed

lemma month_divmod: "0 \<le> i \<Longrightarrow> i < 12 \<Longrightarrow> (12 * y + i) div 12 = y \<and> (12 * y + i) mod 12 = i" for y i :: int
  by (simp add: div_pos_pos_trivial mod_pos_pos_trivial)

lemma month_at:
  assumes "0 \<le> i" "i < 12"
  shows "month_start (12 * y + i) = days_before_year (y - 1) + sum_list (take (nat i) (month_lengths (is_leap y)))"
    "month_length (12 * y + i) = month_lengths (is_leap y) ! nat i"
  using month_divmod [OF assms, of y] by (simp_all only: month_start_def month_length_def)

lemma month_length_pos: "0 < month_length k"
proof -
  have "nat (k mod 12) < length (month_lengths (is_leap (k div 12)))"
    by (simp add: month_lengths_def nat_less_iff)
  then have "month_length k \<in> set (month_lengths (is_leap (k div 12)))"
    by (simp add: month_length_def)
  then show ?thesis by (auto simp: month_lengths_def split: if_splits)
qed

lemma month_start_Suc: "month_start (k + 1) = month_start k + month_length k"
proof -
  obtain y i where k: "k = 12 * y + i" and i: "0 \<le> i" "i < 12"
    using mult_div_mod_eq [of 12 k] pos_mod_bound [of 12 k] pos_mod_sign [of 12 k] by (metis zero_less_numeral)
  have year: "sum_list (month_lengths l) = (if l then 366 else 365)"
    "sum_list (take 11 (month_lengths l)) = sum_list (month_lengths l) - 31" "month_lengths l ! 11 = 31" for l
    by (simp_all add: month_lengths_def)
  show ?thesis
  proof (cases "i = 11")
    case True
    then have "k + 1 = 12 * (y + 1) + 0" by (simp add: k)
    then have "month_start (k + 1) = days_before_year y"
      using month_at(1) [of 0 "y + 1"] by (simp only:) simp
    then show ?thesis
      using days_before_year_step [of y] month_at [OF i, of y] year [of "is_leap y"]
      unfolding k True by simp
  next
    case False
    have n: "nat i < length (month_lengths l)" for l using i by (simp add: month_lengths_def nat_less_iff)
    have k1: "k + 1 = 12 * y + (i + 1)" by (simp add: k)
    have "nat (i + 1) = Suc (nat i)" using i by (simp add: nat_add_distrib)
    then show ?thesis
      using month_at(1) [of "i + 1" y] month_at [OF i, of y] False i n
      unfolding k1 by (simp only: k take_Suc_conv_app_nth [OF n]) simp
  qed
qed

lemma month_start_mono: "k < l \<Longrightarrow> month_start (k + 1) \<le> month_start l"
proof (induction l rule: int_gr_induct)
  case base
  show ?case by simp
next
  case (step i)
  then show ?case using month_start_Suc [of i] month_length_pos [of i] by linarith
qed

lemma month_unique:
  assumes "month_start k \<le> d" "d < month_start (k + 1)" "month_start l \<le> d" "d < month_start (l + 1)"
  shows "k = l"
  using assms month_start_mono [of k l] month_start_mono [of l k] by (cases k l rule: linorder_cases) linarith+

lemma date_of_month:
  assumes "date_of t = (y, m, d)"
  shows "t div nanos_per_day = month_start (12 * y + (m - 1)) + d - 1" "1 \<le> m" "m \<le> 12" "1 \<le> d"
    "d \<le> month_length (12 * y + (m - 1))"
proof -
  note ex = date_of_exact [OF assms]
  have i: "0 \<le> m - 1" "m - 1 < 12" using ex by simp_all
  show "t div nanos_per_day = month_start (12 * y + (m - 1)) + d - 1" "1 \<le> m" "m \<le> 12" "1 \<le> d"
    "d \<le> month_length (12 * y + (m - 1))"
    unfolding month_at [OF i] using ex by simp_all
qed

text \<open>
  The month before is the calendar month before, for every instant and also from the last
  days of a long month, and the instant returned is its last day: the fallback never asks the
  archive for the same month twice.
\<close>

theorem previousMonth_calendar:
  "(case date_of now of (y, m, d) \<Rightarrow>
      case date_of (previousMonth now) of (y', m', d') \<Rightarrow>
        (y', m') = (if m = 1 then (y - 1, 12) else (y, m - 1)) \<and>
        d' = month_lengths (is_leap y') ! nat (m' - 1))"
proof -
  obtain y m d where n: "date_of now = (y, m, d)" by (cases "date_of now") auto
  obtain y' m' d' where p: "date_of (previousMonth now) = (y', m', d')" by (cases "date_of (previousMonth now)") auto
  let ?k = "12 * y + (m - 1)" and ?l = "12 * y' + (m' - 1)"
  note now = date_of_month [OF n] and prev = date_of_month [OF p]
  have i: "0 \<le> m - 1" "m - 1 < 12" using now(2,3) by simp_all
  have "previousMonth now = (month_start ?k - 1) * nanos_per_day"
    unfolding month_at [OF i] by (simp add: previousMonth_def n instant_def algebra_simps)
  then have "previousMonth now div nanos_per_day = month_start ?k - 1"
    by (simp add: nanos_per_day_def)
  then have day: "month_start ?l + d' - 1 = month_start ?k - 1" using prev(1) by simp
  have step: "month_start ?k = month_start (?k - 1) + month_length (?k - 1)"
    "month_start (?l + 1) = month_start ?l + month_length ?l"
    using month_start_Suc [of "?k - 1"] month_start_Suc [of ?l] by (simp_all only: diff_add_cancel)
  have "month_start ?l \<le> month_start ?k - 1" "month_start ?k - 1 < month_start (?l + 1)"
    "month_start (?k - 1) \<le> month_start ?k - 1"
    using day step prev(4,5) month_length_pos [of "?k - 1"] by linarith+
  moreover have "month_start ?k - 1 < month_start (?k - 1 + 1)" by (simp only: diff_add_cancel)
  ultimately have l: "?l = ?k - 1" by (rule month_unique)
  have "?l = ?k - 1" by (rule l)
  moreover from this have "y' = (if m = 1 then y - 1 else y)" using now(2,3) prev(2,3) by presburger
  ultimately have ym: "(y', m') = (if m = 1 then (y - 1, 12) else (y, m - 1))" by (cases "m = 1") simp_all
  have "d' = month_length ?l" using day step unfolding l by linarith
  moreover have "month_length ?l = month_lengths (is_leap y') ! nat (m' - 1)"
    by (rule month_at) (use prev(2,3) in simp_all)
  ultimately show ?thesis using ym by (simp add: n p)
qed

section \<open>What an update changes\<close>

text \<open>Two texts that differ in digits at most.\<close>

definition same_but_digits :: "string \<Rightarrow> string \<Rightarrow> bool" where
  "same_but_digits = list_all2 (\<lambda>a b. a = b \<or> isDigit a \<and> isDigit b)"

definition timestamp :: "string \<Rightarrow> bool" where
  "timestamp s \<longleftrightarrow> length s = 16 \<and> timestamp_at s"

lemma same_but_digits_refl: "same_but_digits s s"
  by (simp add: same_but_digits_def list_all2_same)

lemma same_but_digits_append:
  "same_but_digits a b \<Longrightarrow> same_but_digits c d \<Longrightarrow> same_but_digits (a @ c) (b @ d)"
  by (simp add: same_but_digits_def list_all2_appendI)

lemma not_digits: "\<not> isDigit CHR ''T''" "\<not> isDigit CHR ''Z''"
  by (simp_all add: isDigit_def byte_def)

lemma timestamp_at_iff:
  "timestamp_at s \<longleftrightarrow> 16 \<le> length s \<and> (\<forall>i < 15. i = 8 \<or> isDigit (s ! i)) \<and> s ! 8 = CHR ''T'' \<and> s ! 15 = CHR ''Z''"
proof -
  have i: "(\<forall>i < 15 :: nat. i = 8 \<or> P i) \<longleftrightarrow> (\<forall>i < 8. P i) \<and> (\<forall>i < 6. P (9 + i))" for P :: "nat \<Rightarrow> bool"
  proof (intro iffI allI impI conjI)
    fix i :: nat assume a: "(\<forall>i < 8. P i) \<and> (\<forall>i < 6. P (9 + i))" and i: "i < 15"
    consider "i < 8" | "i = 8" | "i - 9 < 6" "9 + (i - 9) = i" using i by linarith
    then show "i = 8 \<or> P i" by cases (use a in \<open>simp, simp, metis\<close>)
  next
    fix i :: nat assume a: "\<forall>i < 15 :: nat. i = 8 \<or> P i"
    show "i < 8 \<Longrightarrow> P i" using a [rule_format, of i] by simp
    show "i < 6 \<Longrightarrow> P (9 + i)" using a [rule_format, of "9 + i"] by simp
  qed
  show ?thesis
    by (cases "16 \<le> length s") (auto simp: timestamp_at_def list_all_length i)
qed

lemma timestamp_at_same:
  assumes "same_but_digits a b"
  shows "timestamp_at a \<longleftrightarrow> timestamp_at b"
proof -
  have l: "length a = length b" using assms by (simp add: same_but_digits_def list_all2_lengthD)
  have n: "a ! i = b ! i \<or> isDigit (a ! i) \<and> isDigit (b ! i)" if "i < length a" for i
    using assms that unfolding same_but_digits_def by (auto dest: list_all2_nthD)
  show ?thesis
  proof (cases "16 \<le> length a")
    case True
    have "a ! 8 = CHR ''T'' \<longleftrightarrow> b ! 8 = CHR ''T''" "a ! 15 = CHR ''Z'' \<longleftrightarrow> b ! 15 = CHR ''Z''"
      using n [of 8] n [of 15] True not_digits by auto
    moreover have "isDigit (a ! i) \<longleftrightarrow> isDigit (b ! i)" if "i < 15" for i
      using n [of i] that True by auto
    ultimately show ?thesis by (auto simp: timestamp_at_iff l)
  qed (simp add: timestamp_at_iff l)
qed

lemma timestamps_same:
  assumes "timestamp_at a" "timestamp_at b"
  shows "same_but_digits (take 16 a) (take 16 b)"
proof -
  have "a ! i = b ! i \<or> isDigit (a ! i) \<and> isDigit (b ! i)" if "i < 16" for i
  proof -
    consider "i < 15" "i \<noteq> 8" | "i = 8" | "i = 15" using \<open>i < 16\<close> by linarith
    then show ?thesis by cases (use assms in \<open>auto simp: timestamp_at_iff\<close>)
  qed
  then show ?thesis using assms by (simp add: same_but_digits_def list_all2_conv_all_nth timestamp_at_iff)
qed

lemma has_prefix_same:
  assumes "same_but_digits a b" "\<not> list_ex isDigit p" "has_prefix a p"
  shows "has_prefix b p"
proof -
  obtain r where a: "a = p @ r" using assms(3) by (auto simp: has_prefix_iff)
  then obtain q r' where b: "b = q @ r'" "length q = length p" "same_but_digits p q"
    using assms(1) by (auto simp: same_but_digits_def list_all2_append1)
  have "p = q"
  proof (rule nth_equalityI)
    fix i assume "i < length p"
    then show "p ! i = q ! i"
      using b(3) assms(2) unfolding same_but_digits_def by (auto dest: list_all2_nthD simp: list_ex_length)
  qed (simp add: b(2))
  then show ?thesis by (simp add: b(1) has_prefix_append)
qed

text \<open>The cases of the loop: a match, or a byte that is kept.\<close>

lemma replace_timestamps_hit:
  "timestamp_at r \<Longrightarrow> replace_timestamps p new (p @ r) = p @ new @ replace_timestamps p new (drop 16 r)"
  by (subst replace_timestamps.simps) (auto simp: has_prefix_append timestamp_at_def)

lemma replace_timestamps_miss:
  "\<not> (has_prefix (c # s) p \<and> timestamp_at (drop (length p) (c # s))) \<Longrightarrow>
     replace_timestamps p new (c # s) = c # replace_timestamps p new s"
  by (subst replace_timestamps.simps) auto

lemma timestamp_cases:
  obtains (empty) "s = []"
  | (hit) r where "s = p @ r" "timestamp_at r"
  | (miss) c t where "s = c # t" "\<not> (has_prefix (c # t) p \<and> timestamp_at (drop (length p) (c # t)))"
proof (cases s)
  case (Cons c t)
  show ?thesis
  proof (cases "has_prefix s p \<and> timestamp_at (drop (length p) s)")
    case True
    then obtain r where "s = p @ r" by (auto simp: has_prefix_iff)
    then show ?thesis using hit [of r] True by simp
  qed (use miss Cons in simp)
qed (use empty in simp)

lemma replace_timestamps_same:
  assumes "timestamp new"
  shows "same_but_digits s (replace_timestamps p new s)"
proof (induction "length s" arbitrary: s rule: less_induct)
  case less
  show ?case
  proof (cases rule: timestamp_cases [where s = s and p = p])
    case empty
    then show ?thesis by (simp add: replace_timestamps.simps same_but_digits_refl)
  next
    case (hit r)
    have "same_but_digits (take 16 r) new"
      using timestamps_same [OF hit(2), of new] assms by (simp add: timestamp_def)
    moreover have "same_but_digits (drop 16 r) (replace_timestamps p new (drop 16 r))"
      by (rule less) (use hit in \<open>auto simp: timestamp_at_def\<close>)
    ultimately have "same_but_digits (take 16 r @ drop 16 r) (new @ replace_timestamps p new (drop 16 r))"
      by (rule same_but_digits_append)
    then show ?thesis
      using same_but_digits_append [OF same_but_digits_refl [of p]] hit by (simp add: replace_timestamps_hit)
  next
    case (miss c t)
    have "same_but_digits t (replace_timestamps p new t)" by (rule less) (simp add: miss)
    from same_but_digits_append [OF same_but_digits_refl [of "[c]"] this] miss
    show ?thesis by (simp add: replace_timestamps_miss)
  qed
qed

lemma replace_timestamps_again:
  assumes "timestamp old" "\<not> list_ex isDigit p"
  shows "replace_timestamps p new (replace_timestamps p old s) = replace_timestamps p new s"
proof (induction "length s" arbitrary: s rule: less_induct)
  case less
  show ?case
  proof (cases rule: timestamp_cases [where s = s and p = p])
    case empty
    then show ?thesis by (simp add: replace_timestamps.simps)
  next
    case (hit r)
    let ?r = "old @ replace_timestamps p old (drop 16 r)"
    have "timestamp_at ?r" "drop 16 ?r = replace_timestamps p old (drop 16 r)"
      using assms(1) by (auto simp: timestamp_def timestamp_at_def nth_append)
    moreover have "replace_timestamps p new (replace_timestamps p old (drop 16 r)) = replace_timestamps p new (drop 16 r)"
      by (rule less) (use hit in \<open>auto simp: timestamp_at_def\<close>)
    ultimately show ?thesis using hit by (simp add: replace_timestamps_hit)
  next
    case (miss c t)
    let ?s = "c # replace_timestamps p old t"
    have same: "same_but_digits s ?s"
      using replace_timestamps_same [OF assms(1), of s p] miss by (simp add: replace_timestamps_miss)
    then have "same_but_digits ?s s"
      unfolding same_but_digits_def by (auto simp: list_all2_conv_all_nth)
    then have "has_prefix ?s p \<Longrightarrow> has_prefix s p" by (rule has_prefix_same [OF _ assms(2)])
    moreover have "same_but_digits (drop n s) (drop n ?s)" for n
      using same unfolding same_but_digits_def by (rule list_all2_dropI)
    then have "timestamp_at (drop (length p) ?s) \<longleftrightarrow> timestamp_at (drop (length p) s)"
      using timestamp_at_same by blast
    ultimately have "\<not> (has_prefix ?s p \<and> timestamp_at (drop (length p) ?s))" using miss by auto
    then have "replace_timestamps p new ?s = c # replace_timestamps p new (replace_timestamps p old t)"
      by (rule replace_timestamps_miss)
    moreover have "replace_timestamps p new (replace_timestamps p old t) = replace_timestamps p new t"
      by (rule less) (simp add: miss)
    ultimately show ?thesis using miss by (simp add: replace_timestamps_miss)
  qed
qed



end
