(* ===== verification/Debian_Packages.thy ===== *)
theory Debian_Packages
  imports Go_Path Go_Bufio Go_Json "HOL-Library.AList"
begin

text \<open>
  What the tools read of Debian packages: the copyright file out of a .deb (oci/debian/deb), the
  licence that file declares (oci/debian/copyright), and the versions of a lockfile
  (oci/debian/lockfile). The ar and tar readers and the decompressors are parameters, each a
  function from a stream to what its calls return in order.
\<close>

section \<open>Reading a .deb\<close>

definition maxCopyrightBytes :: int where
  "maxCopyrightBytes = 8 * 1048576"

datatype deb_error = ErrNoCopyright | ErrNoDataArchive | DebFailure string

text \<open>A member is a name and its content; the content of a tar entry may fail to be read.\<close>

record 's deb_readers =
  dr_ar :: "string \<Rightarrow> (string \<times> string) result list"
  dr_plain :: "string \<Rightarrow> 's"
  dr_gzip :: "string \<Rightarrow> 's result"
  dr_xz :: "string \<Rightarrow> 's result"
  dr_zstd :: "string \<Rightarrow> 's result"
  dr_tar :: "'s \<Rightarrow> (string \<times> string result) result list"

definition decompress :: "'s deb_readers \<Rightarrow> string \<Rightarrow> string \<Rightarrow> 's result" where
  "decompress x name content =
     (let ext = Ext name
      in if ext = ''.tar'' then Inr (dr_plain x content)
         else if ext = ''.gz'' then dr_gzip x content
         else if ext = ''.xz'' then dr_xz x content
         else if ext = ''.zst'' then dr_zstd x content
         else Inl (''unsupported data archive compression '' @ ext))"

definition isCopyright :: "string \<Rightarrow> bool" where
  "isCopyright name =
     (let name = trim_prefix name ''./''
      in has_prefix name ''usr/share/doc/'' \<and> Base name = ''copyright'')"

fun copyright_entry :: "(string \<times> string result) result list \<Rightarrow> deb_error + string" where
  "copyright_entry [] = Inl ErrNoCopyright"
| "copyright_entry (Inl err # entries) = Inl (DebFailure (''reading data archive: '' @ err))"
| "copyright_entry (Inr (name, content) # entries) =
     (if isCopyright name
      then (case content of
              Inl err \<Rightarrow> Inl (DebFailure err)
            | Inr b \<Rightarrow> Inr (limit_read maxCopyrightBytes b))
      else copyright_entry entries)"

definition copyrightFrom :: "'s deb_readers \<Rightarrow> 's \<Rightarrow> deb_error + string" where
  "copyrightFrom x data = copyright_entry (dr_tar x data)"

fun data_member :: "'s deb_readers \<Rightarrow> (string \<times> string) result list \<Rightarrow> deb_error + string" where
  "data_member x [] = Inl ErrNoDataArchive"
| "data_member x (Inl err # members) = Inl (DebFailure (''reading ar archive: '' @ err))"
| "data_member x (Inr (header, content) # members) =
     (let name = trim_right header ''/ ''
      in if \<not> has_prefix name ''data.tar'' then data_member x members
         else
           (case decompress x name content of
              Inl err \<Rightarrow> Inl (DebFailure err)
            | Inr data \<Rightarrow> copyrightFrom x data))"

definition Copyright :: "'s deb_readers \<Rightarrow> string \<Rightarrow> deb_error + string" where
  "Copyright x deb = data_member x (dr_ar x deb)"

section \<open>The licence a copyright file declares\<close>

datatype licence_error = ErrNotMachineReadable | ErrNoOverallLicense | LicenceFailure string

record License =
  lic_Name :: string
  lic_SPDX :: string

record dep5_field =
  fd_inline :: string
  fd_continuation :: "string list"

definition no_field :: dep5_field where
  "no_field = \<lparr>fd_inline = [], fd_continuation = []\<rparr>"

definition field_value :: "dep5_field \<Rightarrow> string" where
  "field_value f =
     trim_space (join '' '' (if fd_inline f \<noteq> [] then fd_inline f # fd_continuation f else fd_continuation f))"

definition field_name :: "dep5_field \<Rightarrow> string" where
  "field_name f =
     (if fd_inline f \<noteq> [] then fd_inline f
      else case fd_continuation f of [] \<Rightarrow> [] | c # _ \<Rightarrow> c)"

text \<open>One line of a paragraph, on the field it may continue and the fields so far.\<close>

definition field_line :: "string \<Rightarrow> string \<times> (string \<Rightarrow> dep5_field option) \<Rightarrow> string \<times> (string \<Rightarrow> dep5_field option)" where
  "field_line line st =
     (case st of (key, vals) \<Rightarrow>
        if line = [] then st
        else if hd line = CHR '' '' \<or> hd line = CHR 0x09 then
          (if key = [] then st
           else let entry = (case vals key of Some f \<Rightarrow> f | None \<Rightarrow> no_field)
                in (key, vals(key \<mapsto> entry\<lparr>fd_continuation := fd_continuation entry @ [trim_space line]\<rparr>)))
        else
          (case cut_byte line CHR '':'' of
             None \<Rightarrow> ([], vals)
           | Some (name, val) \<Rightarrow>
               (let key = to_lower (trim_space name)
                in (key, vals(key \<mapsto> \<lparr>fd_inline = trim_space val, fd_continuation = []\<rparr>)))))"

definition dep5_fields :: "string \<Rightarrow> string \<Rightarrow> dep5_field" where
  "dep5_fields paragraph key =
     (case snd (foldl (\<lambda>st line. field_line line st) ([], Map.empty) (split_byte paragraph CHR 0x0A)) key of
        Some f \<Rightarrow> f
      | None \<Rightarrow> no_field)"

definition coversWholePackage :: "string \<Rightarrow> bool" where
  "coversWholePackage files \<longleftrightarrow> ''*'' \<in> set (fields_of files)"

definition spdx_table :: "(string \<times> string) list" where
  "spdx_table =
     [(''Apache-2.0'', ''Apache-2.0''), (''Artistic'', ''Artistic-1.0''),
      (''BSD-2-clause'', ''BSD-2-Clause''), (''BSD-2-Clause'', ''BSD-2-Clause''),
      (''BSD-3-clause'', ''BSD-3-Clause''), (''BSD-3-Clause'', ''BSD-3-Clause''),
      (''BSD-4-clause'', ''BSD-4-Clause''), (''0BSD'', ''0BSD''), (''CC0-1.0'', ''CC0-1.0''),
      (''Expat'', ''MIT''), (''MIT/X11'', ''MIT''), (''GFDL-1.3+'', ''GFDL-1.3-or-later''),
      (''GPL-2'', ''GPL-2.0-only''), (''GPL-2.0+'', ''GPL-2.0-or-later''), (''GPL-3.0+'', ''GPL-3.0-or-later''),
      (''LGPL-2.0+'', ''LGPL-2.0-or-later''), (''LGPL-3.0+'', ''LGPL-3.0-or-later''),
      (''GPL-2.0-only'', ''GPL-2.0-only''), (''GPL-2.0-or-later'', ''GPL-2.0-or-later''),
      (''GPL-3.0-only'', ''GPL-3.0-only''), (''GPL-3.0-or-later'', ''GPL-3.0-or-later''),
      (''LGPL-2.1-only'', ''LGPL-2.1-only''), (''LGPL-2.1-or-later'', ''LGPL-2.1-or-later''),
      (''GPL-2+'', ''GPL-2.0-or-later''), (''GPL-3'', ''GPL-3.0-only''), (''GPL-3+'', ''GPL-3.0-or-later''),
      (''ISC'', ''ISC''), (''LGPL-2'', ''LGPL-2.0-only''), (''LGPL-2+'', ''LGPL-2.0-or-later''),
      (''LGPL-2.1'', ''LGPL-2.1-only''), (''LGPL-2.1+'', ''LGPL-2.1-or-later''),
      (''LGPL-3'', ''LGPL-3.0-only''), (''LGPL-3+'', ''LGPL-3.0-or-later''), (''MIT'', ''MIT''),
      (''MPL-2.0'', ''MPL-2.0''), (''Zlib'', ''Zlib'')]"

definition spdx :: "string \<Rightarrow> string" where
  "spdx name = (case map_of spdx_table name of Some i \<Rightarrow> i | None \<Rightarrow> [])"

fun overall_license :: "string list \<Rightarrow> licence_error + License" where
  "overall_license [] = Inl ErrNoOverallLicense"
| "overall_license (p # ps) =
     (if \<not> coversWholePackage (field_value (dep5_fields p ''files'')) then overall_license ps
      else
        (let name = field_name (dep5_fields p ''license'')
         in if name = [] then overall_license ps
            else Inr \<lparr>lic_Name = name, lic_SPDX = spdx name\<rparr>))"

definition copyright_Parse :: "string result \<Rightarrow> licence_error + License" where
  "copyright_Parse content =
     (case content of
        Inl err \<Rightarrow> Inl (LicenceFailure (''reading copyright file: '' @ err))
      | Inr b \<Rightarrow>
          (let document = limit_read maxCopyrightBytes b
           in if \<not> has_prefix document ''Format:'' then Inl ErrNotMachineReadable
              else overall_license (split_str [CHR 0x0A, CHR 0x0A] [] document)))"

section \<open>The versions of a lockfile\<close>

record locked_package =
  lp_Arch :: string
  lp_Key :: string
  lp_Name :: string
  lp_SHA256 :: string
  lp_URLs :: "string list"
  lp_Version :: string

definition dec_locked_package :: "locked_package decoder" where
  "dec_locked_package =
     dec_struct (\<lambda>fs.
       Option.bind (dec_field fs ''arch'' dec_string) (\<lambda>arch.
       Option.bind (dec_field fs ''key'' dec_string) (\<lambda>key.
       Option.bind (dec_field fs ''name'' dec_string) (\<lambda>name.
       Option.bind (dec_field fs ''sha256'' dec_string) (\<lambda>sha.
       Option.bind (dec_field fs ''urls'' (dec_list dec_string)) (\<lambda>urls.
       Option.bind (dec_field fs ''version'' dec_string) (\<lambda>version.
       Some \<lparr>lp_Arch = arch, lp_Key = key, lp_Name = name, lp_SHA256 = sha, lp_URLs = urls,
             lp_Version = version\<rparr>)))))))"

definition ParseFile :: "string result \<Rightarrow> locked_package list result" where
  "ParseFile content =
     (case content of
        Inl err \<Rightarrow> Inl (''failed to read lock file: '' @ err)
      | Inr b \<Rightarrow>
          (case unmarshal (dec_struct (\<lambda>fs. dec_field fs ''packages'' (dec_list dec_locked_package))) b of
             None \<Rightarrow> Inl ''failed to parse lock file''
           | Some packages \<Rightarrow> Inr packages))"

text \<open>
  The maps are association lists; their order is one of the orders in which Go may range over
  them. \<open>VersionsByArch\<close> maps an architecture to the versions by package.
\<close>

type_synonym 'a by_name = "(string \<times> 'a) list"

definition map_entry_of :: "'a by_name by_name \<Rightarrow> string \<Rightarrow> 'a by_name" where
  "map_entry_of m k = (case map_of m k of Some e \<Rightarrow> e | None \<Rightarrow> [])"

definition put2 :: "string \<Rightarrow> string \<Rightarrow> 'a \<Rightarrow> 'a by_name by_name \<Rightarrow> 'a by_name by_name" where
  "put2 k l v m = AList.update k (AList.update l v (map_entry_of m k)) m"

definition VersionsByArch :: "locked_package list \<Rightarrow> string by_name by_name" where
  "VersionsByArch packages = foldl (\<lambda>m p. put2 (lp_Arch p) (lp_Name p) (lp_Version p) m) [] packages"

text \<open>The versions by package and architecture, from an order of the maps of \<open>VersionsByArch\<close>.\<close>

definition pkgVersions :: "string by_name by_name \<Rightarrow> string by_name by_name" where
  "pkgVersions byArch =
     foldl (\<lambda>m (arch, name, version). put2 name arch version m) []
       (concat (map (\<lambda>(arch, packages). map (\<lambda>(name, version). (arch, name, version)) packages) byArch))"

text \<open>The first version that is not empty, and whether all that follow agree with it.\<close>

fun first_version :: "string \<Rightarrow> string list \<Rightarrow> string \<times> bool" where
  "first_version first [] = (first, True)"
| "first_version first (v # vs) =
     (if first = [] then first_version v vs
      else if v \<noteq> first then (first, False)
      else first_version first vs)"

definition name_versions :: "string \<Rightarrow> string by_name \<Rightarrow> string by_name" where
  "name_versions name archVersions =
     (case first_version [] (map snd archVersions) of (first, allSame) \<Rightarrow>
        if allSame then [(name, first)]
        else map (\<lambda>(arch, v). (name @ '' ('' @ arch @ '')'', v)) archVersions)"

definition lockfile_Versions :: "string by_name by_name \<Rightarrow> string by_name" where
  "lockfile_Versions byName =
     foldl (\<lambda>m (k, v). AList.update k v m) []
       (concat (map (\<lambda>(name, archVersions). name_versions name archVersions) byName))"

section \<open>A machine-readable file is read as it is written\<close>

text \<open>A field as written: its name, its text on the line, its continuation lines.\<close>

type_synonym dep5_line = "string \<times> string \<times> string list"

definition field_lines :: "dep5_line \<Rightarrow> string list" where
  "field_lines f = (case f of (key, inline, conts) \<Rightarrow> (key @ '': '' @ inline) # map (Cons CHR '' '') conts)"

definition dep5_paragraph :: "dep5_line list \<Rightarrow> string" where
  "dep5_paragraph fs = join [CHR 0x0A] (concat (map field_lines fs))"

definition dep5_ok :: "dep5_line \<Rightarrow> bool" where
  "dep5_ok f \<longleftrightarrow>
     (case f of (key, inline, conts) \<Rightarrow>
        key \<noteq> [] \<and> hd key \<noteq> CHR '' '' \<and> hd key \<noteq> CHR 0x09 \<and> CHR '':'' \<notin> set key \<and> CHR 0x0A \<notin> set key \<and>
        to_lower (trim_space key) \<noteq> [] \<and> trim_space inline = inline \<and> CHR 0x0A \<notin> set inline \<and>
        list_all (\<lambda>c. trim_space c = c \<and> CHR 0x0A \<notin> set c) conts)"

definition field_key :: "dep5_line \<Rightarrow> string" where
  "field_key f = to_lower (trim_space (fst f))"

definition field_of :: "dep5_line \<Rightarrow> dep5_field" where
  "field_of f = \<lparr>fd_inline = fst (snd f), fd_continuation = snd (snd f)\<rparr>"

lemma trim_space_leading: "trim_space (CHR '' '' # s) = trim_space s"
proof -
  have w: "rune_width (CHR '' '' # s) = 1" by (simp add: rune_width_def byte_def)
  have "runes (CHR '' '' # s) = [CHR '' ''] # runes s" by (subst runes.simps) (simp add: w)
  then show ?thesis by (simp add: trim_space_def is_space_rune_def byte_def)
qed

lemma field_line_continuation:
  assumes "key \<noteq> []" "trim_space c = c" "vals key = Some f"
  shows "field_line (CHR '' '' # c) (key, vals) = (key, vals(key \<mapsto> f\<lparr>fd_continuation := fd_continuation f @ [c]\<rparr>))"
  using assms by (simp add: field_line_def trim_space_leading)

lemma field_line_continuations:
  assumes "key \<noteq> []" "list_all (\<lambda>c. trim_space c = c) conts"
  shows "vals key = Some f \<Longrightarrow>
    foldl (\<lambda>st line. field_line line st) (key, vals) (map (Cons CHR '' '') conts)
      = (key, vals(key \<mapsto> f\<lparr>fd_continuation := fd_continuation f @ conts\<rparr>))"
  using assms(2)
proof (induction conts arbitrary: vals f)
  case (Cons c conts)
  then show ?case using assms(1)
    by (cases f) (simp add: field_line_continuation fun_upd_def fun_eq_iff)
qed auto

lemma cut_byte_first: "c \<notin> set a \<Longrightarrow> cut_byte (a @ c # b) c = Some (a, b)"
  by (induction a) auto

lemma field_lines_read:
  assumes "dep5_ok f"
  shows "foldl (\<lambda>st line. field_line line st) (k, vals) (field_lines f) = (field_key f, vals(field_key f \<mapsto> field_of f))"
proof -
  obtain key inline conts where f: "f = (key, inline, conts)" by (cases f)
  have "field_line (key @ '': '' @ inline) (k, vals)
      = (field_key f, vals(field_key f \<mapsto> \<lparr>fd_inline = inline, fd_continuation = []\<rparr>))"
    using assms cut_byte_first [of "CHR '':''" key "CHR '' '' # inline"]
    by (simp add: f field_line_def dep5_ok_def field_key_def hd_append trim_space_leading Let_def)
  moreover have "field_key f \<noteq> []" "list_all (\<lambda>c. trim_space c = c) conts"
    using assms by (auto simp: f dep5_ok_def field_key_def list_all_iff)
  ultimately show ?thesis
    using field_line_continuations [of "field_key f" conts] by (simp add: f field_lines_def field_of_def)
qed

lemma fields_read:
  assumes "list_all dep5_ok fs"
  shows "snd (foldl (\<lambda>st line. field_line line st) (k, vals) (concat (map field_lines fs)))
    = vals ++ map_of (rev (map (\<lambda>f. (field_key f, field_of f)) fs))"
  using assms
proof (induction fs arbitrary: k vals)
  case (Cons f fs)
  then show ?case by (simp add: field_lines_read map_add_def fun_eq_iff split: option.split)
qed simp

lemma dep5_fields_paragraph:
  assumes "list_all dep5_ok fs" "fs \<noteq> []" "distinct (map field_key fs)"
  shows "dep5_fields (dep5_paragraph fs) key =
    (case map_of (map (\<lambda>f. (field_key f, field_of f)) fs) key of Some f \<Rightarrow> f | None \<Rightarrow> no_field)"
proof -
  let ?lines = "concat (map field_lines fs)"
  have "?lines \<noteq> []" using assms(2) by (cases fs) (auto simp: field_lines_def split: prod.splits)
  moreover have "\<forall>l \<in> set ?lines. CHR 0x0A \<notin> set l"
    using assms(1) by (fastforce simp: field_lines_def dep5_ok_def list_all_iff)
  ultimately have "split_byte (dep5_paragraph fs) CHR 0x0A = ?lines"
    unfolding dep5_paragraph_def by (intro split_byte_join) auto
  moreover have "map_of (rev (map (\<lambda>f. (field_key f, field_of f)) fs)) = map_of (map (\<lambda>f. (field_key f, field_of f)) fs)"
    using assms(3) by (subst map_of_inject_set) (simp_all add: rev_map [symmetric] comp_def)
  ultimately show ?thesis by (simp add: dep5_fields_def fields_read [OF assms(1)])
qed

section \<open>The licence of a file of stanzas\<close>

text \<open>Text without an empty line in it, and no newline at its end.\<close>

fun no_blank :: "string \<Rightarrow> bool" where
  "no_blank [] = True"
| "no_blank [c] = (c \<noteq> CHR 0x0A)"
| "no_blank (c # d # s) = ((c \<noteq> CHR 0x0A \<or> d \<noteq> CHR 0x0A) \<and> no_blank (d # s))"

lemma split_blank:
  "split_str [CHR 0x0A, CHR 0x0A] acc [] = [rev acc]"
  "split_str [CHR 0x0A, CHR 0x0A] acc (CHR 0x0A # CHR 0x0A # s) = rev acc # split_str [CHR 0x0A, CHR 0x0A] [] s"
  "c \<noteq> CHR 0x0A \<Longrightarrow> split_str [CHR 0x0A, CHR 0x0A] acc (c # s) = split_str [CHR 0x0A, CHR 0x0A] (c # acc) s"
  "d \<noteq> CHR 0x0A \<Longrightarrow> split_str [CHR 0x0A, CHR 0x0A] acc (c # d # s) = split_str [CHR 0x0A, CHR 0x0A] (c # acc) (d # s)"
  by (subst split_str.simps; simp add: has_prefix_def)+

lemma split_str_no_blank:
  "no_blank p \<Longrightarrow> split_str [CHR 0x0A, CHR 0x0A] acc (p @ CHR 0x0A # CHR 0x0A # s)
     = (rev acc @ p) # split_str [CHR 0x0A, CHR 0x0A] [] s"
  by (induction p arbitrary: acc rule: no_blank.induct) (auto simp: split_blank)

lemma split_str_no_blank_end: "no_blank p \<Longrightarrow> split_str [CHR 0x0A, CHR 0x0A] acc p = [rev acc @ p]"
  by (induction p arbitrary: acc rule: no_blank.induct) (auto simp: split_blank)

lemma split_str_join:
  "ps \<noteq> [] \<Longrightarrow> list_all no_blank ps \<Longrightarrow> split_str [CHR 0x0A, CHR 0x0A] [] (join [CHR 0x0A, CHR 0x0A] ps) = ps"
proof (induction ps)
  case (Cons p ps)
  then show ?case by (cases ps) (simp_all add: split_str_no_blank split_str_no_blank_end)
qed simp

lemma no_blank_append:
  "no_blank a \<Longrightarrow> a \<noteq> [] \<Longrightarrow> no_blank b \<Longrightarrow> b \<noteq> [] \<Longrightarrow> hd b \<noteq> CHR 0x0A \<Longrightarrow> no_blank (a @ CHR 0x0A # b)"
  by (induction a rule: no_blank.induct) (auto simp: neq_Nil_conv)

lemma no_blank_line: "CHR 0x0A \<notin> set l \<Longrightarrow> no_blank l"
  by (induction l rule: no_blank.induct) auto

lemma no_blank_lines:
  "ls \<noteq> [] \<Longrightarrow> list_all (\<lambda>l. l \<noteq> [] \<and> CHR 0x0A \<notin> set l) ls \<Longrightarrow>
     no_blank (join [CHR 0x0A] ls) \<and> join [CHR 0x0A] ls \<noteq> [] \<and> hd (join [CHR 0x0A] ls) \<noteq> CHR 0x0A"
proof (induction ls)
  case (Cons l ls)
  have l: "no_blank l" "l \<noteq> []" "hd l \<noteq> CHR 0x0A"
    using Cons.prems(2) no_blank_line [of l] by (cases l; auto)+
  show ?case
  proof (cases "ls = []")
    case False
    then have "no_blank (join [CHR 0x0A] ls)" "join [CHR 0x0A] ls \<noteq> []" "hd (join [CHR 0x0A] ls) \<noteq> CHR 0x0A"
      using Cons by simp_all
    then show ?thesis using l False no_blank_append by (simp add: join_Cons hd_append)
  qed (use l in simp)
qed simp

definition stanza_ok :: "dep5_line list \<Rightarrow> bool" where
  "stanza_ok fs \<longleftrightarrow> fs \<noteq> [] \<and> list_all dep5_ok fs \<and> distinct (map field_key fs)"

lemma stanza_no_blank: "stanza_ok fs \<Longrightarrow> no_blank (dep5_paragraph fs)"
proof -
  assume ok: "stanza_ok fs"
  have "concat (map field_lines fs) \<noteq> []"
    using ok by (cases fs) (auto simp: stanza_ok_def field_lines_def split: prod.splits)
  moreover have "list_all (\<lambda>l. l \<noteq> [] \<and> CHR 0x0A \<notin> set l) (concat (map field_lines fs))"
    using ok by (fastforce simp: stanza_ok_def field_lines_def dep5_ok_def list_all_iff)
  ultimately show ?thesis unfolding dep5_paragraph_def using no_blank_lines by blast
qed

text \<open>A stanza's field of a name, and the licence the stanzas declare for the whole package.\<close>

definition stanza_field :: "dep5_line list \<Rightarrow> string \<Rightarrow> dep5_field" where
  "stanza_field fs key =
     (case find (\<lambda>f. field_key f = key) fs of Some f \<Rightarrow> field_of f | None \<Rightarrow> no_field)"

definition declares :: "dep5_line list \<Rightarrow> bool" where
  "declares fs \<longleftrightarrow> ''*'' \<in> set (fields_of (field_value (stanza_field fs ''files''))) \<and>
     field_name (stanza_field fs ''license'') \<noteq> []"

lemma map_of_find:
  "(case map_of (map (\<lambda>f. (k f, v f)) fs) key of Some x \<Rightarrow> x | None \<Rightarrow> d) =
   (case find (\<lambda>f. k f = key) fs of Some f \<Rightarrow> v f | None \<Rightarrow> d)"
  by (induction fs) auto

lemma dep5_fields_stanza: "stanza_ok fs \<Longrightarrow> dep5_fields (dep5_paragraph fs) key = stanza_field fs key"
  by (simp add: stanza_ok_def dep5_fields_paragraph map_of_find stanza_field_def)

lemma overall_license_stanzas:
  "list_all stanza_ok ss \<Longrightarrow> overall_license (map dep5_paragraph ss) =
     (case find declares ss of
        None \<Rightarrow> Inl ErrNoOverallLicense
      | Some fs \<Rightarrow> (let name = field_name (stanza_field fs ''license'')
                   in Inr \<lparr>lic_Name = name, lic_SPDX = spdx name\<rparr>))"
  by (induction ss) (auto simp: dep5_fields_stanza declares_def coversWholePackage_def Let_def)

lemma limit_read_all: "int (length s) \<le> n \<Longrightarrow> limit_read n s = s"
  by (induction n s rule: limit_read.induct) auto

text \<open>
  C31: a machine-readable copyright file is read as it is written: whatever its stanzas say, in
  whatever case the field names are, on one line or several, and whatever licence texts are
  quoted in it, the licence found is the short name of the first stanza that covers all files
  and names one, with the SPDX identifier of that name if it has one.
\<close>

theorem copyright_Parse_stanzas:
  assumes "ss \<noteq> []" "list_all stanza_ok ss" "has_prefix (dep5_paragraph (hd ss)) ''Format:''"
    and "int (length (join [CHR 0x0A, CHR 0x0A] (map dep5_paragraph ss))) \<le> maxCopyrightBytes"
  shows "copyright_Parse (Inr (join [CHR 0x0A, CHR 0x0A] (map dep5_paragraph ss))) =
    (case find declares ss of
       None \<Rightarrow> Inl ErrNoOverallLicense
     | Some fs \<Rightarrow> (let name = field_name (stanza_field fs ''license'')
                  in Inr \<lparr>lic_Name = name, lic_SPDX = spdx name\<rparr>))"
proof -
  let ?doc = "join [CHR 0x0A, CHR 0x0A] (map dep5_paragraph ss)"
  have "list_all no_blank (map dep5_paragraph ss)"
    using assms(2) stanza_no_blank by (auto simp: list_all_iff)
  then have "split_str [CHR 0x0A, CHR 0x0A] [] ?doc = map dep5_paragraph ss"
    using assms(1) by (intro split_str_join) simp_all
  moreover obtain r where "dep5_paragraph (hd ss) = ''Format:'' @ r"
    using assms(3) unfolding has_prefix_iff by blast
  then have "has_prefix ?doc ''Format:''"
    using assms(1) by (cases ss; cases "tl ss") (auto simp: has_prefix_iff)
  ultimately show ?thesis
    using limit_read_all [OF assms(4)] overall_license_stanzas [OF assms(2)]
    by (simp add: copyright_Parse_def Let_def)
qed


definition sample_stanzas :: "dep5_line list list" where
  "sample_stanzas =
     [[(''Format'', ''dep5'', [])],
      [(''Files'', ''src/*'', []), (''License'', ''ISC'', [''text''])],
      [(''Files'', [], [''*'', ''doc'']), (''License'', ''Expat'', [''text''])]]"

lemma sample_stanzas_ok:
  "list_all stanza_ok sample_stanzas"
  "has_prefix (dep5_paragraph (hd sample_stanzas)) ''Format:''"
  "int (length (join [CHR 0x0A, CHR 0x0A] (map dep5_paragraph sample_stanzas))) \<le> maxCopyrightBytes"
  "find declares sample_stanzas = Some [(''Files'', [], [''*'', ''doc'']), (''License'', ''Expat'', [''text''])]"
  "field_name (stanza_field [(''Files'', [], [''*'', ''doc'']), (''License'', ''Expat'', [''text''])] ''license'') = ''Expat''"
  "spdx ''Expat'' = ''MIT''"
  by code_simp+

theorem copyright_Parse_stanzas_witness:
  "copyright_Parse (Inr (join [CHR 0x0A, CHR 0x0A] (map dep5_paragraph sample_stanzas)))
     = Inr \<lparr>lic_Name = ''Expat'', lic_SPDX = ''MIT''\<rparr>"
proof -
  have "sample_stanzas \<noteq> []" by (simp add: sample_stanzas_def)
  from copyright_Parse_stanzas [OF this sample_stanzas_ok(1-3)] show ?thesis
    by (simp add: sample_stanzas_ok(4,5,6) Let_def)
qed


section \<open>The versions of a lockfile\<close>

lemma map_of_put2:
  "map_of (map_entry_of (put2 k l v m) k') l' =
     (if k' = k \<and> l' = l then Some v else map_of (map_entry_of m k') l')"
  by (simp add: put2_def map_entry_of_def update_conv)

lemma VersionsByArch_from:
  "map_of (map_entry_of (foldl (\<lambda>m p. put2 (lp_Arch p) (lp_Name p) (lp_Version p) m) m ps) arch) name =
     (case find (\<lambda>p. lp_Arch p = arch \<and> lp_Name p = name) (rev ps) of
        Some p \<Rightarrow> Some (lp_Version p)
      | None \<Rightarrow> map_of (map_entry_of m arch) name)"
proof (induction ps rule: rev_induct)
  case (snoc p ps)
  then show ?case by (auto simp: map_of_put2)
qed simp

text \<open>The version of a package on an architecture is that of its last entry in the lockfile.\<close>

lemma VersionsByArch_last:
  "map_of (map_entry_of (VersionsByArch packages) arch) name =
     map_option lp_Version (find (\<lambda>p. lp_Arch p = arch \<and> lp_Name p = name) (rev packages))"
  unfolding VersionsByArch_def VersionsByArch_from by (simp add: map_entry_of_def split: option.split)

lemma first_version_agree:
  "first \<noteq> [] \<Longrightarrow> first_version first vs = (first, list_all (\<lambda>v. v = first) vs)"
  by (induction vs) auto

text \<open>
  Where no version is empty, a package with one version on all its architectures has one entry
  and any other has one of its own for each, so the order of the map does not show.
\<close>

lemma name_versions_exact:
  assumes "v \<noteq> []"
  shows "name_versions name ((arch, v) # vs) =
    (if list_all (\<lambda>(_, w). w = v) vs then [(name, v)]
     else map (\<lambda>(arch, w). (name @ '' ('' @ arch @ '')'', w)) ((arch, v) # vs))"
  using assms by (simp add: name_versions_def first_version_agree list_all_iff case_prod_unfold)

text \<open>An empty version is passed over at the front of the order and is a difference after it.\<close>

theorem empty_version_depends_on_order:
  "name_versions ''p'' [(''a'', ''''), (''b'', ''1'')] = [(''p'', ''1'')]"
  "name_versions ''p'' [(''b'', ''1''), (''a'', '''')] = [(''p (b)'', ''1''), (''p (a)'', '''')]"
  by code_simp+

end
