(* ===== verification/Go_Pem.thy ===== *)
theory Go_Pem
  imports Go_Prelude
begin

text \<open>
  Packages \<open>encoding/base64\<close> (the standard alphabet, padded) and \<open>encoding/pem\<close>. \<open>pem_Decode\<close> is
  what \<open>pem.Decode\<close> finds in a text whose only line that starts with END is its last one, which is
  how the program calls it: the search for a later block cannot find one. A block's headers are
  read over and not kept.
\<close>

section \<open>Base64\<close>

definition b64_char :: "nat \<Rightarrow> char" where
  "b64_char n = char_of (if n < 26 then n + 65 else if n < 52 then n + 71 else if n < 62 then n - 4
                         else if n = 62 then 43 else 47)"

definition b64_val :: "char \<Rightarrow> nat option" where
  "b64_val c =
     (let b = byte c
      in if 65 \<le> b \<and> b \<le> 90 then Some (nat (b - 65))
         else if 97 \<le> b \<and> b \<le> 122 then Some (nat (b - 71))
         else if 48 \<le> b \<and> b \<le> 57 then Some (nat (b + 4))
         else if b = 43 then Some 62
         else if b = 47 then Some 63
         else None)"

fun b64_encode :: "string \<Rightarrow> string" where
  "b64_encode (x # y # z # s) =
     (let a = nat (byte x); b = nat (byte y); c = nat (byte z)
      in b64_char (a div 4) # b64_char (a mod 4 * 16 + b div 16) # b64_char (b mod 16 * 4 + c div 64)
         # b64_char (c mod 64) # b64_encode s)"
| "b64_encode [x, y] =
     (let a = nat (byte x); b = nat (byte y)
      in [b64_char (a div 4), b64_char (a mod 4 * 16 + b div 16), b64_char (b mod 16 * 4), CHR ''=''])"
| "b64_encode [x] =
     (let a = nat (byte x) in [b64_char (a div 4), b64_char (a mod 4 * 16), CHR ''='', CHR ''=''])"
| "b64_encode [] = []"

text \<open>
  Groups of four digits, the last one padded; what the bits beyond the last byte are is not looked
  at. The decoder skips line ends wherever they are.
\<close>

fun b64_quads :: "string \<Rightarrow> string option" where
  "b64_quads [] = Some []"
| "b64_quads (c1 # c2 # c3 # c4 # s) =
     (case (b64_val c1, b64_val c2) of
        (Some a, Some b) \<Rightarrow>
          (if c3 = CHR ''='' \<and> c4 = CHR ''='' \<and> s = [] then Some [char_of (a * 4 + b div 16)]
           else
             (case b64_val c3 of
                None \<Rightarrow> None
              | Some c \<Rightarrow>
                  (if c4 = CHR ''='' \<and> s = []
                   then Some [char_of (a * 4 + b div 16), char_of (b mod 16 * 16 + c div 4)]
                   else
                     (case (b64_val c4, b64_quads s) of
                        (Some d, Some r) \<Rightarrow>
                          Some (char_of (a * 4 + b div 16) # char_of (b mod 16 * 16 + c div 4)
                                # char_of (c mod 4 * 64 + d) # r)
                      | _ \<Rightarrow> None))))
      | _ \<Rightarrow> None)"
| "b64_quads _ = None"

definition b64_decode :: "string \<Rightarrow> string option" where
  "b64_decode s = b64_quads (filter (\<lambda>c. c \<noteq> CHR 0x0A \<and> c \<noteq> CHR 0x0D) s)"

lemma b64_val_char: "n < 64 \<Longrightarrow> b64_val (b64_char n) = Some n"
  by (auto simp: b64_val_def b64_char_def byte_char_of Let_def)

lemma byte_nat: "nat (byte c) < 256" "char_of (nat (byte c)) = c"
proof -
  show "nat (byte c) < 256" using byte_bounds [of c] by (simp add: nat_less_iff)
  show "char_of (nat (byte c)) = c" by (simp add: byte_def)
qed

lemma b64_pad: "b64_val CHR ''='' = None"
  by (simp add: b64_val_def byte_def)

lemma b64_char_not_pad: "n < 64 \<Longrightarrow> b64_char n \<noteq> CHR ''=''"
  using b64_val_char [of n] b64_pad by auto

lemma b64_round: "b64_quads (b64_encode s) = Some s"
proof (induction s rule: b64_encode.induct)
  case (1 x y z s)
  define a where "a = nat (byte x)"
  define b where "b = nat (byte y)"
  define c where "c = nat (byte z)"
  have r: "a < 256" "b < 256" "c < 256" "char_of a = x" "char_of b = y" "char_of c = z"
    by (simp_all add: a_def b_def c_def byte_nat)
  have v: "a div 4 < 64" "a mod 4 * 16 + b div 16 < 64" "b mod 16 * 4 + c div 64 < 64" "c mod 64 < 64"
    using r by auto
  have "(a mod 4 * 16 + b div 16) div 16 = a mod 4" "(a mod 4 * 16 + b div 16) mod 16 = b div 16"
    "(b mod 16 * 4 + c div 64) div 4 = b mod 16" "(b mod 16 * 4 + c div 64) mod 4 = c div 64"
    using r by auto
  then show ?case
    using 1 v by (simp add: Let_def a_def [symmetric] b_def [symmetric] c_def [symmetric] b64_val_char
        b64_char_not_pad r)
next
  case (2 x y)
  define a where "a = nat (byte x)"
  define b where "b = nat (byte y)"
  have r: "a < 256" "b < 256" "char_of a = x" "char_of b = y" by (simp_all add: a_def b_def byte_nat)
  have v: "a div 4 < 64" "a mod 4 * 16 + b div 16 < 64" "b mod 16 * 4 < 64"
    using r by auto
  have "(a mod 4 * 16 + b div 16) div 16 = a mod 4" "(a mod 4 * 16 + b div 16) mod 16 = b div 16"
    using r by auto
  then show ?case
    using v by (simp add: Let_def a_def [symmetric] b_def [symmetric] b64_val_char b64_char_not_pad r)
next
  case (3 x)
  define a where "a = nat (byte x)"
  have "a < 256" "char_of a = x" by (simp_all add: a_def byte_nat)
  then show ?case by (simp add: Let_def a_def [symmetric] b64_val_char)
qed simp

text \<open>What base64 is written with.\<close>

definition b64_alphabet :: "char \<Rightarrow> bool" where
  "b64_alphabet c \<longleftrightarrow> c = CHR ''='' \<or> b64_val c \<noteq> None"

lemma b64_encode_alphabet: "list_all b64_alphabet (b64_encode s)"
proof (induction s rule: b64_encode.induct)
  case (1 x y z s)
  have "nat (byte x) < 256" "nat (byte y) < 256" "nat (byte z) < 256" by (simp_all add: byte_nat)
  then have "nat (byte x) div 4 < 64" "nat (byte x) mod 4 * 16 + nat (byte y) div 16 < 64"
    "nat (byte y) mod 16 * 4 + nat (byte z) div 64 < 64" by auto
  then show ?case using 1 by (simp add: Let_def b64_alphabet_def b64_val_char)
next
  case (2 x y)
  have "nat (byte x) < 256" "nat (byte y) < 256" by (simp_all add: byte_nat)
  then have "nat (byte x) div 4 < 64" "nat (byte x) mod 4 * 16 + nat (byte y) div 16 < 64"
    "nat (byte y) mod 16 * 4 < 64" by auto
  then show ?case by (simp add: Let_def b64_alphabet_def b64_val_char)
next
  case (3 x)
  have "nat (byte x) div 4 < 64" "nat (byte x) mod 4 * 16 < 64" using byte_nat(1) [of x] by auto
  then show ?case by (simp add: Let_def b64_alphabet_def b64_val_char)
qed simp

lemma b64_alphabet_not:
  "b64_alphabet c \<Longrightarrow> c \<noteq> CHR 0x0A" "b64_alphabet c \<Longrightarrow> c \<noteq> CHR 0x0D" "b64_alphabet c \<Longrightarrow> c \<noteq> CHR '' ''"
  "b64_alphabet c \<Longrightarrow> c \<noteq> CHR 0x09" "b64_alphabet c \<Longrightarrow> c \<noteq> CHR ''-''" "b64_alphabet c \<Longrightarrow> c \<noteq> CHR '':''"
  by (auto simp: b64_alphabet_def b64_val_def byte_def)

section \<open>PEM blocks\<close>

record pem_block =
  pb_Type :: string
  pb_Bytes :: string

definition pemBegin :: string where "pemBegin = ''-----BEGIN ''"
definition pemEnd :: string where "pemEnd = CHR 0x0A # ''-----END ''"
definition pemDashes :: string where "pemDashes = ''-----''"

fun last_index_str :: "string \<Rightarrow> string \<Rightarrow> nat option" where
  "last_index_str [] p = (if p = [] then Some 0 else None)"
| "last_index_str (x # xs) p =
     (case last_index_str xs p of
        Some i \<Rightarrow> Some (Suc i)
      | None \<Rightarrow> if has_prefix (x # xs) p then Some 0 else None)"

text \<open>The next line without its end and trailing blanks, the text after it, and what it took.\<close>

definition get_line :: "string \<Rightarrow> string \<times> string \<times> nat" where
  "get_line s =
     (case index_byte s CHR 0x0A of
        None \<Rightarrow> (trim_right s [CHR '' '', CHR 0x09], [], length s)
      | Some i \<Rightarrow> (trim_right (trim_suffix (take i s) [CHR 0x0D]) [CHR '' '', CHR 0x09], drop (Suc i) s, Suc i))"

lemma get_line_shorter: "s \<noteq> [] \<Longrightarrow> get_line s = (l, r, n) \<Longrightarrow> length r < length s"
  by (auto simp: get_line_def split: option.splits)

text \<open>Past the headers, with where the end now is and whether there were any.\<close>

function pem_headers :: "string \<Rightarrow> int \<Rightarrow> bool \<Rightarrow> (string \<times> int \<times> bool) option" where
  "pem_headers rest endIndex found =
     (if rest = [] then None
      else
        (case get_line rest of (line, next, consumed) \<Rightarrow>
           (case cut_byte line CHR '':'' of
              None \<Rightarrow> Some (rest, endIndex, found)
            | Some _ \<Rightarrow> pem_headers next (endIndex - int consumed) True)))"
  by pat_completeness auto
termination
  by (relation "measure (\<lambda>(rest, _). length rest)") (auto dest: get_line_shorter [OF _ sym])

declare pem_headers.simps [simp del]

definition pem_block_at :: "string \<Rightarrow> int \<Rightarrow> pem_block option" where
  "pem_block_at rest endIndex =
     (case get_line rest of (typeLine, rest, consumed) \<Rightarrow>
        if \<not> has_suffix typeLine pemDashes then None
        else
          (let typ = take (length typeLine - 5) typeLine
           in case pem_headers rest (endIndex - int consumed) False of
                None \<Rightarrow> None
              | Some (rest, endIndex, headers) \<Rightarrow>
                  (let trailer = drop (nat (endIndex + 10)) rest; n = length typ + 5
                   in if headers \<and> endIndex < 0 \<or> length trailer < n \<or> \<not> has_prefix (take n trailer) typ
                        \<or> \<not> has_suffix (take n trailer) pemDashes \<or> fst (get_line (drop n trailer)) \<noteq> []
                      then None
                      else if endIndex \<le> 0 then Some \<lparr>pb_Type = typ, pb_Bytes = []\<rparr>
                      else
                        map_option (\<lambda>bytes. \<lparr>pb_Type = typ, pb_Bytes = bytes\<rparr>)
                          (b64_decode (filter (\<lambda>c. c \<noteq> CHR '' '' \<and> c \<noteq> CHR 0x09)
                             (take (nat endIndex) rest))))))"

definition pem_Decode :: "string \<Rightarrow> pem_block option" where
  "pem_Decode data =
     (case index_str data pemEnd of
        None \<Rightarrow> None
      | Some e \<Rightarrow>
          (case last_index_str (take e data) pemBegin of
             None \<Rightarrow> None
           | Some b \<Rightarrow>
               if 0 < b \<and> data ! (b - 1) \<noteq> CHR 0x0A then None
               else pem_block_at (drop (b + 11) data) (int e - int b - 11)))"

text \<open>Lines of 64 digits.\<close>

function break_lines :: "string \<Rightarrow> string list" where
  "break_lines s = (if s = [] then [] else take 64 s # break_lines (drop 64 s))"
  by pat_completeness auto
termination by (relation "measure length") auto

declare break_lines.simps [simp del]

definition with_newlines :: "string list \<Rightarrow> string" where
  "with_newlines ls = concat (map (\<lambda>l. l @ [CHR 0x0A]) ls)"

definition pem_Encode :: "pem_block \<Rightarrow> string" where
  "pem_Encode b =
     pemBegin @ pb_Type b @ pemDashes @ [CHR 0x0A] @ with_newlines (break_lines (b64_encode (pb_Bytes b)))
       @ ''-----END '' @ pb_Type b @ pemDashes @ [CHR 0x0A]"


section \<open>A block is read as it was written\<close>

lemma index_str_skip:
  "c \<notin> set a \<Longrightarrow> index_str (a @ s) (c # p) = map_option ((+) (length a)) (index_str s (c # p))"
proof (induction a)
  case Nil
  show ?case by (cases "index_str s (c # p)") simp_all
next
  case (Cons x a)
  then show ?case by (cases "index_str s (c # p)") (auto simp: has_prefix_def)
qed

lemma last_index_str_none: "c \<in> set p \<Longrightarrow> c \<notin> set s \<Longrightarrow> last_index_str s p = None"
proof (induction s)
  case (Cons x s)
  have "\<not> has_prefix (x # s) p"
  proof
    assume "has_prefix (x # s) p"
    then obtain r where "x # s = p @ r" by (auto simp: has_prefix_iff)
    with Cons.prems show False by (metis UnCI set_append)
  qed
  with Cons show ?case by simp
qed auto

text \<open>The digits of a block, line by line.\<close>

definition b64_lines :: "string list \<Rightarrow> bool" where
  "b64_lines ls \<longleftrightarrow> list_all (\<lambda>l. l \<noteq> [] \<and> list_all b64_alphabet l) ls"

lemma concat_break_lines: "concat (break_lines s) = s"
  by (induction s rule: break_lines.induct) (subst break_lines.simps, auto)

lemma break_lines_not_empty: "list_all (\<lambda>l. l \<noteq> []) (break_lines s)"
  by (induction s rule: break_lines.induct) (subst break_lines.simps, auto)

lemma b64_lines_break: "b64_lines (break_lines (b64_encode s))"
proof -
  have "\<forall>c \<in> set (concat (break_lines (b64_encode s))). b64_alphabet c"
    using b64_encode_alphabet [of s] unfolding concat_break_lines by (simp add: list_all_iff)
  then show ?thesis
    using break_lines_not_empty [of "b64_encode s"] by (fastforce simp: b64_lines_def list_all_iff)
qed

lemma with_newlines_simps [simp]:
  "with_newlines [] = []"
  "with_newlines (l # ls) = l @ CHR 0x0A # with_newlines ls"
  by (simp_all add: with_newlines_def)

lemma with_newlines_filter: "b64_lines ls \<Longrightarrow> filter (\<lambda>c. c \<noteq> CHR 0x0A \<and> c \<noteq> CHR 0x0D) (with_newlines ls) = concat ls"
proof (induction ls)
  case (Cons l ls)
  then have "filter (\<lambda>c. c \<noteq> CHR 0x0A \<and> c \<noteq> CHR 0x0D) l = l"
    by (auto simp: b64_lines_def list_all_iff filter_id_conv b64_alphabet_not)
  with Cons show ?case by (simp add: b64_lines_def)
qed simp

lemma with_newlines_chars: "b64_lines ls \<Longrightarrow> c \<in> set (with_newlines ls) \<Longrightarrow> b64_alphabet c \<or> c = CHR 0x0A"
  by (induction ls) (auto simp: b64_lines_def list_all_iff)

text \<open>The end of a block is found right after its digits.\<close>

lemma pem_end_found:
  "b64_lines ls \<Longrightarrow>
     index_str (CHR 0x0A # with_newlines ls @ ''-----END '' @ r) pemEnd = Some (length (with_newlines ls))"
proof (induction ls)
  case Nil
  then show ?case by (simp add: pemEnd_def has_prefix_def)
next
  case (Cons l ls)
  then obtain c k where l: "l = c # k" "b64_alphabet c" "list_all b64_alphabet k" "b64_lines ls"
    by (cases l) (auto simp: b64_lines_def)
  have miss: "\<not> has_prefix (CHR 0x0A # l @ s) pemEnd" for s
    using b64_alphabet_not(5) [OF l(2)] by (simp add: l(1) pemEnd_def has_prefix_def)
  have "CHR 0x0A \<notin> set l" using l b64_alphabet_not(1) by (auto simp: list_all_iff)
  then have "index_str (l @ CHR 0x0A # with_newlines ls @ ''-----END '' @ r) pemEnd
      = Some (length l + length (with_newlines ls))"
    using Cons.IH [OF l(4)] unfolding pemEnd_def by (simp add: index_str_skip)
  then show ?case using miss by simp
qed

lemma cut_byte_None: "c \<notin> set s \<Longrightarrow> cut_byte s c = None"
  by (induction s) auto

lemma set_trim_right: "set (trim_right s cs) \<subseteq> set s"
  unfolding trim_right_def using set_dropWhileD by fastforce

lemma set_get_line: "set (fst (get_line s)) \<subseteq> set s"
proof -
  have "set (trim_suffix t u) \<subseteq> set t" for t u :: string
    by (auto simp: trim_suffix_def dest: in_set_takeD)
  then show ?thesis
    using set_trim_right by (auto simp: get_line_def split: option.split) (meson in_set_takeD subsetD)+
qed

lemma no_headers: "CHR '':'' \<notin> set rest \<Longrightarrow> rest \<noteq> [] \<Longrightarrow> pem_headers rest e f = Some (rest, e, f)"
proof -
  assume a: "CHR '':'' \<notin> set rest" "rest \<noteq> []"
  obtain l n k where g: "get_line rest = (l, n, k)" by (cases "get_line rest")
  then have "CHR '':'' \<notin> set l" using a set_get_line [of rest] by auto
  then show ?thesis using a g by (subst pem_headers.simps) (simp add: cut_byte_None)
qed


text \<open>What follows the type of a certificate block, for any digits.\<close>

definition certEnd :: string where "certEnd = ''-----END CERTIFICATE-----'' @ [CHR 0x0A]"

lemma get_line_type:
  "get_line (''CERTIFICATE-----'' @ CHR 0x0A # s) = (''CERTIFICATE-----'', s, 17)"
  by (simp add: get_line_def trim_suffix_def has_suffix_def trim_right_def)

lemma cert_trailer:
  "get_line [CHR 0x0A] = ([], [], 1)"
  by (simp add: get_line_def trim_suffix_def has_suffix_def trim_right_def)

lemma with_newlines_last: "ls \<noteq> [] \<Longrightarrow> with_newlines ls = butlast (with_newlines ls) @ [CHR 0x0A]"
  by (induction ls rule: rev_induct) (simp_all add: with_newlines_def butlast_append)

lemma with_newlines_nil: "with_newlines ls = [] \<longleftrightarrow> ls = []"
  by (cases ls) simp_all

lemma pem_block_at_cert:
  assumes "b64_lines ls" "b64_quads (concat ls) = Some bytes"
  shows "pem_block_at (''CERTIFICATE-----'' @ CHR 0x0A # with_newlines ls @ certEnd)
      (16 + int (length (with_newlines ls))) = Some \<lparr>pb_Type = ''CERTIFICATE'', pb_Bytes = bytes\<rparr>"
proof -
  let ?body = "with_newlines ls"
  have "CHR '':'' \<notin> set (?body @ certEnd)" "?body @ certEnd \<noteq> []"
    using with_newlines_chars [OF assms(1)] b64_alphabet_not(6) by (auto simp: certEnd_def)
  note headers = no_headers [OF this]
  have n: "nat (int (length ?body) - 1 + 10) = length ?body + 9" by simp
  have drop: "drop (length ?body + 9) (?body @ certEnd) = ''CERTIFICATE-----'' @ [CHR 0x0A]"
    by (simp add: certEnd_def)
  have bytes: "(if int (length ?body) - 1 \<le> 0 then Some \<lparr>pb_Type = ''CERTIFICATE'', pb_Bytes = []\<rparr>
     else map_option (\<lambda>bytes. \<lparr>pb_Type = ''CERTIFICATE'', pb_Bytes = bytes\<rparr>)
       (b64_decode (filter (\<lambda>c. c \<noteq> CHR '' '' \<and> c \<noteq> CHR 0x09)
          (take (nat (int (length ?body) - 1)) (?body @ certEnd)))))
    = Some \<lparr>pb_Type = ''CERTIFICATE'', pb_Bytes = bytes\<rparr>"
  proof (cases "ls = []")
    case True
    then show ?thesis using assms(2) by simp
  next
    case False
    then obtain l k where l: "ls = l # k" "l \<noteq> []" using assms(1) by (cases ls) (auto simp: b64_lines_def)
    have butlast: "take (nat (int (length ?body) - 1)) (?body @ certEnd) = butlast ?body"
    proof -
      have "nat (int (length ?body) - 1) = length ?body - 1" by linarith
      then show ?thesis by (simp add: butlast_conv_take)
    qed
    have c: "b64_alphabet c \<or> c = CHR 0x0A" if "c \<in> set (butlast ?body)" for c
      using that with_newlines_chars [OF assms(1)] by (meson in_set_butlastD)
    have blanks: "filter (\<lambda>c. c \<noteq> CHR '' '' \<and> c \<noteq> CHR 0x09) (butlast ?body) = butlast ?body"
      by (rule filter_True) (use c b64_alphabet_not(3,4) in fastforce)
    have "filter (\<lambda>c. c \<noteq> CHR 0x0A \<and> c \<noteq> CHR 0x0D) (butlast ?body @ [CHR 0x0A]) = concat ls"
      using with_newlines_filter [OF assms(1)] with_newlines_last [OF False] by metis
    then have "b64_decode (butlast ?body) = Some bytes"
      using assms(2) by (simp add: b64_decode_def)
    moreover have "1 < int (length ?body)" using l by (cases "l") simp_all
    ultimately show ?thesis by (simp only: butlast blanks) simp
  qed
  have e: "16 + int (length ?body) - int 17 = int (length ?body) - 1" by simp
  have ctype: "has_suffix ''CERTIFICATE-----'' pemDashes"
    "take (length ''CERTIFICATE-----'' - 5) ''CERTIFICATE-----'' = ''CERTIFICATE''"
    "length ''CERTIFICATE'' + 5 = 16"
    by (simp_all add: has_suffix_def pemDashes_def)
  have trailer: "length (''CERTIFICATE-----'' @ [CHR 0x0A]) = 17"
    "take 16 (''CERTIFICATE-----'' @ [CHR 0x0A]) = ''CERTIFICATE-----''"
    "drop 16 (''CERTIFICATE-----'' @ [CHR 0x0A]) = [CHR 0x0A]"
    "has_prefix ''CERTIFICATE-----'' ''CERTIFICATE''"
    by (simp_all add: has_prefix_def)
  show ?thesis
    unfolding pem_block_at_def get_line_type prod.case e headers option.case Let_def ctype n drop trailer
      cert_trailer bytes
    by (simp add: ctype(1))
qed

lemma take_after: "length a = k \<Longrightarrow> take (k + n) (a @ x) = a @ take n x"
  by auto

theorem pem_Decode_Encode:
  "pem_Decode (pem_Encode \<lparr>pb_Type = ''CERTIFICATE'', pb_Bytes = bytes\<rparr>)
     = Some \<lparr>pb_Type = ''CERTIFICATE'', pb_Bytes = bytes\<rparr>"
proof -
  let ?ls = "break_lines (b64_encode bytes)"
  let ?body = "with_newlines ?ls"
  let ?T = "''-----BEGIN CERTIFICATE-----'' @ CHR 0x0A # ?body @ certEnd"
  have T: "pem_Encode \<lparr>pb_Type = ''CERTIFICATE'', pb_Bytes = bytes\<rparr> = ?T"
    by (simp add: pem_Encode_def pemBegin_def pemDashes_def certEnd_def)
  have E: "certEnd = ''-----END '' @ ''CERTIFICATE-----'' @ [CHR 0x0A]" by (simp add: certEnd_def)
  have "length ''-----BEGIN CERTIFICATE-----'' = 27" "CHR 0x0A \<notin> set ''-----BEGIN CERTIFICATE-----''"
    by simp_all
  then have "index_str ?T pemEnd = map_option ((+) 27) (index_str (CHR 0x0A # ?body @ certEnd) pemEnd)"
    unfolding pemEnd_def by (metis index_str_skip)
  then have found: "index_str ?T pemEnd = Some (27 + length ?body)"
    unfolding E using pem_end_found [OF b64_lines_break] by simp
  define u where "u = take (length ?body) (CHR 0x0A # ?body @ certEnd)"
  have "set u \<subseteq> set (CHR 0x0A # ?body)"
    unfolding u_def by (cases "length ?body") (auto dest: in_set_takeD)
  then have "CHR '' '' \<notin> set (''CERTIFICATE-----'' @ u)"
    using with_newlines_chars [OF b64_lines_break] b64_alphabet_not(3) by fastforce
  then have "last_index_str (''CERTIFICATE-----'' @ u) pemBegin = None"
    by (intro last_index_str_none [of "CHR '' ''"]) (simp_all add: pemBegin_def)
  then have "last_index_str (''-----BEGIN CERTIFICATE-----'' @ u) pemBegin = Some 0"
    by (simp add: pemBegin_def has_prefix_def)
  moreover have "take (27 + length ?body) ?T = ''-----BEGIN CERTIFICATE-----'' @ u"
    unfolding u_def by (rule take_after) simp
  ultimately have start: "last_index_str (take (27 + length ?body) ?T) pemBegin = Some 0" by simp
  have drop: "drop (0 + 11) ?T = ''CERTIFICATE-----'' @ CHR 0x0A # ?body @ certEnd" by simp
  have e: "int (27 + length ?body) - int 0 - 11 = 16 + int (length ?body)" by simp
  have "pem_Decode ?T = pem_block_at (drop (0 + 11) ?T) (int (27 + length ?body) - int 0 - 11)"
    unfolding pem_Decode_def found option.case start by simp
  also have "\<dots> = Some \<lparr>pb_Type = ''CERTIFICATE'', pb_Bytes = bytes\<rparr>"
    unfolding drop e by (intro pem_block_at_cert b64_lines_break) (simp add: concat_break_lines b64_round)
  finally show ?thesis unfolding T .
qed

interpretation certificates: round_trip pem_Encode pem_Decode "\<lambda>b. pb_Type b = ''CERTIFICATE''"
proof
  fix b :: pem_block assume "pb_Type b = ''CERTIFICATE''"
  then have "b = \<lparr>pb_Type = ''CERTIFICATE'', pb_Bytes = pb_Bytes b\<rparr>" by simp
  then show "pem_Decode (pem_Encode b) = Some b" using pem_Decode_Encode [of "pb_Bytes b"] by simp
qed

end
