(* ===== verification/Go_Asn1.thy ===== *)
theory Go_Asn1
  imports Go_Prelude
begin

text \<open>
  Package \<open>encoding/asn1\<close> (DER) for the types the program unmarshals: raw values, the X.509
  \<open>Extension\<close> of crypto/x509/pkix and a sequence of object identifiers. \<open>None\<close> is an error; what
  follows a value is given back with it.
\<close>

section \<open>Tag and length\<close>

record asn1_head =
  ah_Class :: int
  ah_Tag :: int
  ah_Compound :: bool
  ah_Length :: int

definition ClassUniversal :: int where "ClassUniversal = 0"
definition ClassContextSpecific :: int where "ClassContextSpecific = 2"
definition TagBoolean :: int where "TagBoolean = 1"
definition TagOctetString :: int where "TagOctetString = 4"
definition TagOID :: int where "TagOID = 6"
definition TagSequence :: int where "TagSequence = 16"

lemmas asn1_tags = ClassUniversal_def ClassContextSpecific_def TagBoolean_def TagOctetString_def
  TagOID_def TagSequence_def

text \<open>At most five digits of seven bits, the first not a zero, in 31 bits.\<close>

fun base128 :: "nat \<Rightarrow> int \<Rightarrow> string \<Rightarrow> (int \<times> string) option" where
  "base128 shifted acc [] = None"
| "base128 shifted acc (c # s) =
     (if shifted = 5 \<or> shifted = 0 \<and> byte c = 128 then None
      else
        (let v = acc * 128 + byte c mod 128
         in if byte c < 128 then (if 2147483647 < v then None else Some (v, s))
            else base128 (Suc shifted) v s))"

fun long_length :: "nat \<Rightarrow> int \<Rightarrow> string \<Rightarrow> (int \<times> string) option" where
  "long_length 0 acc s = (if acc < 128 then None else Some (acc, s))"
| "long_length (Suc n) acc [] = None"
| "long_length (Suc n) acc (c # s) =
     (if 8388608 \<le> acc then None
      else let v = acc * 256 + byte c in if v = 0 then None else long_length n v s)"

definition asn1_length :: "string \<Rightarrow> (int \<times> string) option" where
  "asn1_length s =
     (case s of
        [] \<Rightarrow> None
      | c # r \<Rightarrow>
          if byte c < 128 then Some (byte c, r)
          else if byte c = 128 then None
          else long_length (nat (byte c - 128)) 0 r)"

definition parseTagAndLength :: "string \<Rightarrow> (asn1_head \<times> string) option" where
  "parseTagAndLength s =
     (case s of
        [] \<Rightarrow> None
      | c # r \<Rightarrow>
          (let short_tag = byte c mod 32
           in case (if short_tag = 31 then base128 0 0 r else Some (short_tag, r)) of
                None \<Rightarrow> None
              | Some (tag, r) \<Rightarrow>
                  if short_tag = 31 \<and> tag < 31 then None
                  else map_option (\<lambda>(len, r).
                         (\<lparr>ah_Class = byte c div 64, ah_Tag = tag, ah_Compound = byte c div 32 mod 2 = 1,
                           ah_Length = len\<rparr>, r)) (asn1_length r)))"

section \<open>Values\<close>

record asn1_value =
  av_Class :: int
  av_Tag :: int
  av_Bytes :: string
  av_FullBytes :: string

definition unmarshal_raw :: "string \<Rightarrow> (asn1_value \<times> string) option" where
  "unmarshal_raw s =
     (case parseTagAndLength s of
        None \<Rightarrow> None
      | Some (h, r) \<Rightarrow>
          if int (length r) < ah_Length h then None
          else
            (let n = nat (ah_Length h)
             in Some (\<lparr>av_Class = ah_Class h, av_Tag = ah_Tag h, av_Bytes = take n r,
                       av_FullBytes = take (length s - length r + n) s\<rparr>, drop n r)))"

text \<open>A value of a universal type: its content and what follows.\<close>

definition unmarshal_typed :: "int \<Rightarrow> bool \<Rightarrow> string \<Rightarrow> (string \<times> string) option" where
  "unmarshal_typed tag compound s =
     (case parseTagAndLength s of
        None \<Rightarrow> None
      | Some (h, r) \<Rightarrow>
          if ah_Class h \<noteq> ClassUniversal \<or> ah_Tag h \<noteq> tag \<or> ah_Compound h \<noteq> compound
             \<or> int (length r) < ah_Length h then None
          else Some (take (nat (ah_Length h)) r, drop (nat (ah_Length h)) r))"

text \<open>An optional BOOLEAN is false where another value or the end stands in its place.\<close>

definition unmarshal_optional_bool :: "string \<Rightarrow> (bool \<times> string) option" where
  "unmarshal_optional_bool s =
     (if s = [] then Some (False, s)
      else
        (case parseTagAndLength s of
           None \<Rightarrow> None
         | Some (h, r) \<Rightarrow>
             if ah_Class h \<noteq> ClassUniversal \<or> ah_Tag h \<noteq> TagBoolean \<or> ah_Compound h then Some (False, s)
             else if int (length r) < ah_Length h \<or> ah_Length h \<noteq> 1 then None
             else if byte (hd r) = 0 then Some (False, tl r)
             else if byte (hd r) = 255 then Some (True, tl r)
             else None))"

lemma base128_shorter: "base128 k acc s = Some (v, r) \<Longrightarrow> length r < length s"
  by (induction k acc s rule: base128.induct) (auto simp: Let_def split: if_splits)

lemma long_length_shorter: "long_length n acc s = Some (v, r) \<Longrightarrow> length r \<le> length s"
  by (induction n acc s rule: long_length.induct) (auto simp: Let_def split: if_splits)

lemma asn1_length_shorter: "asn1_length s = Some (v, r) \<Longrightarrow> length r < length s"
  by (auto simp: asn1_length_def split: list.splits if_splits dest: long_length_shorter)

lemma parseTagAndLength_shorter: "parseTagAndLength s = Some (h, r) \<Longrightarrow> length r < length s"
  by (fastforce simp: parseTagAndLength_def Let_def split: list.splits option.splits if_splits
      dest: base128_shorter asn1_length_shorter)

lemma unmarshal_typed_shorter: "unmarshal_typed t c s = Some (v, r) \<Longrightarrow> length r < length s"
  by (auto simp: unmarshal_typed_def split: option.splits if_splits dest!: parseTagAndLength_shorter)

section \<open>Object identifiers\<close>

type_synonym oid = "int list"

function oid_arcs :: "string \<Rightarrow> oid option" where
  "oid_arcs s =
     (if s = [] then Some []
      else
        (case base128 0 0 s of
           None \<Rightarrow> None
         | Some (v, r) \<Rightarrow> map_option (Cons v) (oid_arcs r)))"
  by pat_completeness auto
termination
  by (relation "measure length") (auto dest: base128_shorter)

declare oid_arcs.simps [simp del]

definition parseObjectIdentifier :: "string \<Rightarrow> oid option" where
  "parseObjectIdentifier s =
     (case oid_arcs s of
        Some (v # arcs) \<Rightarrow> Some (if v < 80 then v div 40 # v mod 40 # arcs else 2 # (v - 80) # arcs)
      | _ \<Rightarrow> None)"

function oid_values :: "string \<Rightarrow> oid list option" where
  "oid_values s =
     (if s = [] then Some []
      else
        (case unmarshal_typed TagOID False s of
           None \<Rightarrow> None
         | Some (v, r) \<Rightarrow>
             Option.bind (parseObjectIdentifier v) (\<lambda>i. map_option (Cons i) (oid_values r))))"
  by pat_completeness auto
termination
  by (relation "measure length") (auto dest: unmarshal_typed_shorter)

declare oid_values.simps [simp del]

definition unmarshal_oids :: "string \<Rightarrow> oid list option" where
  "unmarshal_oids s = Option.bind (unmarshal_typed TagSequence True s) (\<lambda>(body, _). oid_values body)"

record extension =
  ext_Id :: oid
  ext_Critical :: bool
  ext_Value :: string

text \<open>More fields after the value are passed over, as in every struct.\<close>

definition unmarshal_extension :: "string \<Rightarrow> extension option" where
  "unmarshal_extension s =
     Option.bind (unmarshal_typed TagSequence True s) (\<lambda>(body, _).
     Option.bind (unmarshal_typed TagOID False body) (\<lambda>(i, r).
     Option.bind (parseObjectIdentifier i) (\<lambda>i.
     Option.bind (unmarshal_optional_bool r) (\<lambda>(critical, r).
     Option.bind (unmarshal_typed TagOctetString False r) (\<lambda>(v, _).
       Some \<lparr>ext_Id = i, ext_Critical = critical, ext_Value = v\<rparr>)))))"

section \<open>What was encoded is decoded\<close>

text \<open>The DER of a value with an identifier octet that holds its tag, and of a length.\<close>

fun be256 :: "nat \<Rightarrow> string" where
  "be256 n = (if n = 0 then [] else be256 (n div 256) @ [char_of (n mod 256)])"

declare be256.simps [simp del]

definition der_length :: "nat \<Rightarrow> string" where
  "der_length n = (if n < 128 then [char_of n] else char_of (128 + length (be256 n)) # be256 n)"

definition der :: "nat \<Rightarrow> string \<Rightarrow> string" where
  "der t content = char_of t # der_length (length content) @ content"

lemma be256_step: "0 < n \<Longrightarrow> be256 n = be256 (n div 256) @ [char_of (n mod 256)]"
  by (subst be256.simps) simp

lemma be256_zero: "be256 0 = []"
  by (subst be256.simps) simp

lemma two_bytes: "int (n div 256) * 256 + int (n mod 256) = int n"
  by (metis div_mult_mod_eq of_nat_add of_nat_mult of_nat_numeral)

lemma long_length_be256:
  "m < 2 ^ 31 \<Longrightarrow> long_length (length (be256 m) + k) 0 (be256 m @ r) = long_length k (int m) r"
proof (induction m arbitrary: k r rule: be256.induct)
  case (1 m)
  show ?case
  proof (cases "m = 0")
    case False
    have small: "m div 256 < 8388608" using "1.prems" by auto
    have "long_length (length (be256 m) + k) 0 (be256 m @ r)
        = long_length (length (be256 (m div 256)) + Suc k) 0 (be256 (m div 256) @ char_of (m mod 256) # r)"
      using False by (simp add: be256_step)
    also have "\<dots> = long_length (Suc k) (int (m div 256)) (char_of (m mod 256) # r)"
      using False "1.prems" by (intro "1.IH") auto
    also have "\<dots> = long_length k (int m) r"
      using small False two_bytes [of m] by (simp add: byte_char_of Let_def)
    finally show ?thesis .
  qed (simp add: be256_zero)
qed

lemma length_be256: "m < 256 ^ n \<Longrightarrow> length (be256 m) \<le> n"
proof (induction n arbitrary: m)
  case (Suc n)
  then have "m div 256 < 256 ^ n" by (simp add: less_mult_imp_div_less mult.commute)
  with Suc.IH show ?case by (cases "m = 0") (auto simp: be256_step be256_zero)
qed (simp add: be256_zero)

lemma asn1_length_der:
  assumes "n < 2 ^ 31"
  shows "asn1_length (der_length n @ r) = Some (int n, r)"
proof (cases "n < 128")
  case True
  then show ?thesis by (simp add: asn1_length_def der_length_def byte_char_of)
next
  case False
  have "length (be256 n) \<le> 4" using assms by (intro length_be256) simp
  moreover have "0 < length (be256 n)" using False by (simp add: be256_step)
  ultimately have b: "byte (char_of (128 + length (be256 n))) = 128 + int (length (be256 n))"
    "be256 n \<noteq> []"
    by (auto simp: byte_char_of)
  have "long_length (length (be256 n)) 0 (be256 n @ r) = Some (int n, r)"
    using long_length_be256 [OF assms, of 0 r] False by simp
  then show ?thesis
    using False b by (simp add: asn1_length_def der_length_def)
qed

text \<open>Identifier octets that hold their tag.\<close>

definition short_tag :: "nat \<Rightarrow> bool" where
  "short_tag t \<longleftrightarrow> t < 256 \<and> t mod 32 \<noteq> 31"

definition der_ok :: "nat \<Rightarrow> string \<Rightarrow> bool" where
  "der_ok t content \<longleftrightarrow> short_tag t \<and> length content < 2 ^ 31"

lemma parseTagAndLength_der:
  assumes "der_ok t c"
  shows "parseTagAndLength (der t c @ r) =
    Some (\<lparr>ah_Class = int (t div 64), ah_Tag = int (t mod 32), ah_Compound = (t div 32 mod 2 = 1),
           ah_Length = int (length c)\<rparr>, c @ r)"
proof -
  have "int t mod 32 \<noteq> 31" "byte (char_of t) = int t"
    using assms by (simp_all add: der_ok_def short_tag_def byte_char_of) presburger
  moreover have "(int t div 32 mod 2 = 1) = (t div 32 mod 2 = 1)"
    by (metis of_nat_1 of_nat_eq_iff of_nat_numeral zdiv_int zmod_int)
  ultimately show ?thesis
    using assms asn1_length_der [of "length c" "c @ r"]
    by (simp add: parseTagAndLength_def der_def der_ok_def Let_def zdiv_int zmod_int)
qed

lemma length_der: "length (der t c) = 1 + length (der_length (length c)) + length c"
  by (simp add: der_def)

lemma unmarshal_raw_der:
  assumes "der_ok t c"
  shows "unmarshal_raw (der t c @ r) =
    Some (\<lparr>av_Class = int (t div 64), av_Tag = int (t mod 32), av_Bytes = c, av_FullBytes = der t c\<rparr>, r)"
  unfolding unmarshal_raw_def parseTagAndLength_der [OF assms] by (simp add: Let_def length_der)

lemma unmarshal_typed_der:
  assumes "der_ok t c" "int (t mod 32) = tag" "t div 64 = 0" "(t div 32 mod 2 = 1) = compound"
  shows "unmarshal_typed tag compound (der t c @ r) = Some (c, r)"
  unfolding unmarshal_typed_def parseTagAndLength_der [OF assms(1)] using assms
  by (simp add: ClassUniversal_def)

end
