(* ===== verification/Ca_Bundle.thy ===== *)
theory Ca_Bundle
  imports Go_Pem Go_Asn1 Go_Bufio Go_Crypto Go_Time Go_Tar
begin

text \<open>
  bazel/modules/rules_rpm/rpm/tools/ca-bundle/main.go: the PEM bundle of the certificates that a
  p11-kit trust file anchors for server authentication at a given time, in a tar. Files and the
  reader of the content tar are the fields of \<open>ca_world\<close>; PEM, DER and the tar writer are those of
  the library theories. Flags are checked as the command does.
\<close>

section \<open>Trust objects\<close>

record p11_object =
  po_attrs :: "string \<Rightarrow> string option"
  po_pems :: "pem_block list"

definition po_attr :: "p11_object \<Rightarrow> string \<Rightarrow> string" where
  "po_attr ob k = (case po_attrs ob k of Some v \<Rightarrow> v | None \<Rightarrow> [])"

text \<open>The pointer \<open>cur\<close> of the code is to the last object, and nil while there is none.\<close>

record p11_state =
  ps_objects :: "p11_object list"
  ps_pemLines :: "string list"
  ps_inPEM :: bool

definition p11_header :: string where "p11_header = ''[p11-kit-object-v1]''"

definition update_cur :: "(p11_object \<Rightarrow> p11_object) \<Rightarrow> p11_state \<Rightarrow> p11_state" where
  "update_cur f st =
     st\<lparr>ps_objects := butlast (ps_objects st) @ [f (last (ps_objects st))]\<rparr>"

definition cur_label :: "p11_state \<Rightarrow> string" where
  "cur_label st = po_attr (last (ps_objects st)) ''label''"

definition p11_line :: "string \<Rightarrow> p11_state \<Rightarrow> p11_state result" where
  "p11_line line st =
     (if ps_inPEM st then
        (let st = st\<lparr>ps_pemLines := ps_pemLines st @ [line]\<rparr>
         in if has_prefix line ''-----END '' then
              (case pem_Decode (join [CHR 0x0A] (ps_pemLines st) @ [CHR 0x0A]) of
                 None \<Rightarrow> Inl (''undecodable PEM block in object '' @ cur_label st)
               | Some block \<Rightarrow>
                   Inr ((update_cur (\<lambda>ob. ob\<lparr>po_pems := po_pems ob @ [block]\<rparr>) st)\<lparr>ps_inPEM := False\<rparr>))
            else Inr st)
      else if line = p11_header then
        Inr (st\<lparr>ps_objects := ps_objects st @ [\<lparr>po_attrs = Map.empty, po_pems = []\<rparr>]\<rparr>)
      else if has_prefix line ''-----BEGIN '' then
        (if ps_objects st = [] then Inl ''PEM block before any object header''
         else Inr (st\<lparr>ps_pemLines := [line], ps_inPEM := True\<rparr>))
      else if ps_objects st = [] \<or> line = [] \<or> has_prefix line ''#'' then Inr st
      else
        (case cut_byte line CHR '':'' of
           None \<Rightarrow> Inl (''attribute line without ':' in object '' @ cur_label st @ '': '' @ line)
         | Some (key, val) \<Rightarrow>
             Inr (update_cur (\<lambda>ob. ob\<lparr>po_attrs := (po_attrs ob)(key \<mapsto> trim_space val)\<rparr>) st)))"

fun p11_lines :: "string list \<Rightarrow> p11_state \<Rightarrow> p11_state result" where
  "p11_lines [] st = Inr st"
| "p11_lines (l # ls) st = and_then (p11_line l st) (p11_lines ls)"

definition p11_maxLine :: int where "p11_maxLine = 16 * 1024 * 1024"

definition p11_start :: p11_state where
  "p11_start = \<lparr>ps_objects = [], ps_pemLines = [], ps_inPEM = False\<rparr>"

definition parseP11Kit :: "string \<Rightarrow> p11_object list result" where
  "parseP11Kit src =
     and_then (p11_lines (scan_lines p11_maxLine src) p11_start) (\<lambda>st.
       if \<not> scan_ok p11_maxLine src then Inl ''bufio.Scanner: token too long''
       else if ps_inPEM st then Inl ''unterminated PEM block''
       else Inr (ps_objects st))"

section \<open>Usage and age\<close>

definition oidExtKeyUsage :: oid where "oidExtKeyUsage = [2, 5, 29, 37]"
definition oidServerAuth :: oid where "oidServerAuth = [1, 3, 6, 1, 5, 5, 7, 3, 1]"
definition oidAnyExtendedKey :: oid where "oidAnyExtendedKey = [2, 5, 29, 37, 0]"

definition oid_String :: "oid \<Rightarrow> string" where
  "oid_String i = join ''.'' (map itoa_int i)"

definition p11_quoted :: "string \<Rightarrow> bool" where
  "p11_quoted s \<longleftrightarrow> 2 \<le> length s \<and> hd s = CHR 0x22 \<and> last s = CHR 0x22"

definition p11_unquoted :: "string \<Rightarrow> string" where
  "p11_unquoted s = butlast (tl s)"

fun p11_unescape :: "string \<Rightarrow> string result" where
  "p11_unescape [] = Inr []"
| "p11_unescape (c # s) =
     (if c \<noteq> CHR ''%'' then and_then (p11_unescape s) (\<lambda>r. Inr (c # r))
      else
        (case s of
           a # b # r \<Rightarrow>
             (case hex_decode [a, b] of
                None \<Rightarrow> Inl ''bad %XX escape''
              | Some x \<Rightarrow> and_then (p11_unescape r) (\<lambda>r. Inr (x @ r)))
         | _ \<Rightarrow> Inl ''truncated %XX escape''))"

definition decodeP11Value :: "string \<Rightarrow> string result" where
  "decodeP11Value s = (if p11_quoted s then p11_unescape (p11_unquoted s) else Inl (''value is not quoted: '' @ s))"

definition maxLeafLifetime :: int where
  "maxLeafLifetime = 398 * 24 * 3600 * 1000000000"

text \<open>
  \<open>time.Parse\<close> with the layouts \<open>060102150405Z\<close> and \<open>20060102150405Z\<close>. A year of two characters
  may carry a sign; from 69 on it is of the twentieth century.
\<close>

definition year_of_two :: "string \<Rightarrow> (int \<times> string) option" where
  "year_of_two s =
     (case s of
        a # b # r \<Rightarrow>
          if \<not> isDigit b then None
          else
            map_option (\<lambda>y. (if 69 \<le> y then y + 1900 else y + 2000, r))
              (if isDigit a then Some (10 * digit_val a + digit_val b)
               else if a = CHR ''+'' then Some (digit_val b)
               else if a = CHR ''-'' then Some (- digit_val b)
               else None)
      | _ \<Rightarrow> None)"

definition parse_after_year :: "int \<times> string \<Rightarrow> time option" where
  "parse_after_year yv =
     (case yv of (y, v) \<Rightarrow>
     Option.bind (two_digits v) (\<lambda>(m, v).
     if m < 1 \<or> 12 < m then None else
     Option.bind (two_digits v) (\<lambda>(d, v).
     Option.bind (one_or_two_digits v) (\<lambda>(h, v).
     if 24 \<le> h then None else
     Option.bind (two_digits v) (\<lambda>(mi, v).
     if 60 \<le> mi then None else
     Option.bind (two_digits v) (\<lambda>(s, v).
     if 60 \<le> s \<or> v \<noteq> ''Z'' \<or> d < 1 \<or> month_lengths (is_leap y) ! nat (m - 1) < d then None
     else Some (instant y m d h mi s 0)))))))"

definition parse_asn1_time :: "string \<Rightarrow> time option" where
  "parse_asn1_time raw =
     (if length raw = 13 then Option.bind (year_of_two raw) parse_after_year
      else if length raw = 15 then Option.bind (four_digits raw) parse_after_year
      else None)"

definition distrustedForServersAt :: "string \<Rightarrow> time \<Rightarrow> bool result" where
  "distrustedForServersAt val now =
     (if val = [] \<or> val = [CHR 0x22, CHR ''%'', CHR ''0'', CHR ''0'', CHR 0x22] then Inr False
      else if \<not> p11_quoted val then Inl (''nss-server-distrust-after is not quoted: '' @ val)
      else
        (case parse_asn1_time (p11_unquoted val) of
           None \<Rightarrow> Inl (''nss-server-distrust-after '' @ val)
         | Some date \<Rightarrow> Inr (date + maxLeafLifetime < now)))"

section \<open>The key of a certificate\<close>

text \<open>The values named, one after the other; the result is the last one.\<close>

fun asn1_fields :: "string list \<Rightarrow> string \<Rightarrow> asn1_value \<Rightarrow> asn1_value result" where
  "asn1_fields [] rest field = Inr field"
| "asn1_fields (name # names) rest field =
     (case unmarshal_raw rest of
        None \<Rightarrow> Inl name
      | Some (field, rest) \<Rightarrow> asn1_fields names rest field)"

definition spki_fields :: "string list" where
  "spki_fields = [''signature'', ''issuer'', ''validity'', ''subject'', ''subjectPublicKeyInfo'']"

definition subjectPublicKeyInfo :: "string \<Rightarrow> string result" where
  "subjectPublicKeyInfo cert =
     (case unmarshal_raw cert of
        None \<Rightarrow> Inl ''certificate''
      | Some (outer, _) \<Rightarrow>
          (case unmarshal_raw (av_Bytes outer) of
             None \<Rightarrow> Inl ''tbsCertificate''
           | Some (tbs, _) \<Rightarrow>
               (case unmarshal_raw (av_Bytes tbs) of
                  None \<Rightarrow> Inl ''tbsCertificate''
                | Some (field, rest) \<Rightarrow>
                    and_then
                      (if av_Class field = ClassContextSpecific \<and> av_Tag field = 0 then
                         (case unmarshal_raw rest of
                            None \<Rightarrow> Inl ''serialNumber''
                          | Some (field, rest) \<Rightarrow> Inr (field, rest))
                       else Inr (field, rest)) (\<lambda>(field, rest).
                    and_then (asn1_fields spki_fields rest field) (\<lambda>field. Inr (av_FullBytes field))))))"

section \<open>The bundle\<close>

definition labelled :: "p11_object \<Rightarrow> 'a result \<Rightarrow> 'a result" where
  "labelled ob r =
     (case r of Inl err \<Rightarrow> Inl (''object '' @ po_attr ob ''label'' @ '': '' @ err) | Inr x \<Rightarrow> Inr x)"

definition restricts_usage :: "p11_object \<Rightarrow> bool" where
  "restricts_usage ob \<longleftrightarrow>
     po_attr ob ''class'' = ''x-certificate-extension'' \<and> po_attr ob ''object-id'' = oid_String oidExtKeyUsage"

definition usage_allowed :: "p11_object \<Rightarrow> bool result" where
  "usage_allowed ob =
     labelled ob (and_then (decodeP11Value (po_attr ob ''value'')) (\<lambda>val.
       case unmarshal_extension val of
         None \<Rightarrow> Inl ''extension''
       | Some ext \<Rightarrow>
           (case unmarshal_oids (ext_Value ext) of
              None \<Rightarrow> Inl ''ExtKeyUsage''
            | Some usages \<Rightarrow> Inr (list_ex (\<lambda>u. u = oidServerAuth \<or> u = oidAnyExtendedKey) usages))))"

definition set_keys :: "bool \<Rightarrow> pem_block list \<Rightarrow> (string \<Rightarrow> bool option) \<Rightarrow> string \<Rightarrow> bool option" where
  "set_keys allowed blocks m =
     foldl (\<lambda>m b. if pb_Type b = ''PUBLIC KEY'' then m(hex_encode (pb_Bytes b) \<mapsto> allowed) else m) m blocks"

fun serverAuthByKey ::
  "p11_object list \<Rightarrow> (string \<Rightarrow> bool option) \<Rightarrow> (string \<Rightarrow> bool option) result" where
  "serverAuthByKey [] m = Inr m"
| "serverAuthByKey (ob # obs) m =
     (if \<not> restricts_usage ob then serverAuthByKey obs m
      else and_then (usage_allowed ob) (\<lambda>allowed. serverAuthByKey obs (set_keys allowed (po_pems ob) m)))"

fun anchor_blocks :: "(string \<Rightarrow> bool option) \<Rightarrow> p11_object \<Rightarrow> pem_block list \<Rightarrow> string \<Rightarrow> string result" where
  "anchor_blocks byKey ob [] bundle = Inr bundle"
| "anchor_blocks byKey ob (b # bs) bundle =
     (if pb_Type b \<noteq> ''CERTIFICATE'' then anchor_blocks byKey ob bs bundle
      else
        and_then (labelled ob (subjectPublicKeyInfo (pb_Bytes b))) (\<lambda>spki.
          if byKey (hex_encode spki) = Some False then anchor_blocks byKey ob bs bundle
          else anchor_blocks byKey ob bs
                 (bundle @ pem_Encode \<lparr>pb_Type = ''CERTIFICATE'', pb_Bytes = pb_Bytes b\<rparr>)))"

fun anchor_objects :: "(string \<Rightarrow> bool option) \<Rightarrow> time \<Rightarrow> p11_object list \<Rightarrow> string \<Rightarrow> string result" where
  "anchor_objects byKey now [] bundle = Inr bundle"
| "anchor_objects byKey now (ob # obs) bundle =
     (if po_attr ob ''trusted'' \<noteq> ''true'' \<or> po_attr ob ''x-distrusted'' = ''true''
      then anchor_objects byKey now obs bundle
      else
        and_then (labelled ob (distrustedForServersAt (po_attr ob ''nss-server-distrust-after'') now)) (\<lambda>dead.
          if dead then anchor_objects byKey now obs bundle
          else and_then (anchor_blocks byKey ob (po_pems ob) bundle) (anchor_objects byKey now obs)))"

definition extractServerAnchors :: "string \<Rightarrow> time \<Rightarrow> string result" where
  "extractServerAnchors src now =
     and_then (parseP11Kit src) (\<lambda>objects.
     and_then (serverAuthByKey objects Map.empty) (\<lambda>byKey.
     anchor_objects byKey now objects []))"

section \<open>The command\<close>

definition trustSourcePath :: string where
  "trustSourcePath = ''./usr/share/pki/ca-trust-source/ca-bundle.trust.p11-kit''"
definition bundlePath :: string where
  "bundlePath = ''./etc/pki/ca-trust/extracted/pem/tls-ca-bundle.pem''"
definition bundleTarget :: string where
  "bundleTarget = ''/etc/pki/ca-trust/extracted/pem/tls-ca-bundle.pem''"

definition bundle_header :: "string \<Rightarrow> int \<Rightarrow> int \<Rightarrow> typeflag \<Rightarrow> string \<Rightarrow> tar_header" where
  "bundle_header name mode len flag target =
     \<lparr>th_Name = name, th_Mode = mode, th_Size = len, th_Typeflag = flag, th_Linkname = target,
      th_ModTime = 0, th_Uid = 0, th_Gid = 0\<rparr>"

definition bundle_link :: "string \<Rightarrow> tar_header" where
  "bundle_link name = bundle_header name 511 0 TypeSymlink bundleTarget"

definition writeBundleTar :: "string \<Rightarrow> tar_archive result" where
  "writeBundleTar bundle =
     and_then (WriteHeader (bundle_header bundlePath 420 (int (length bundle)) TypeReg []) []) (\<lambda>w.
     and_then (tar_Write bundle w) (\<lambda>w.
     and_then (WriteHeader (bundle_link ''./etc/pki/tls/certs/ca-bundle.crt'') w) (\<lambda>w.
     and_then (WriteHeader (bundle_link ''./etc/pki/tls/cert.pem'') w) tar_Close)))"

record ca_world =
  cw_ReadFile :: "string \<Rightarrow> string result"
  cw_OpenTar :: "string \<Rightarrow> (string \<times> string result) result list result"
  cw_Create :: "string \<Rightarrow> unit result"
  cw_Close :: "unit result"

fun tar_entry :: "string \<Rightarrow> string \<Rightarrow> (string \<times> string result) result list \<Rightarrow> string result" where
  "tar_entry path name [] = Inl (path @ '' has no '' @ name)"
| "tar_entry path name (Inl err # es) = Inl (''read '' @ path @ '': '' @ err)"
| "tar_entry path name (Inr (n, content) # es) = (if n = name then content else tar_entry path name es)"

definition readTarEntry :: "ca_world \<Rightarrow> string \<Rightarrow> string \<Rightarrow> string result" where
  "readTarEntry x path name = and_then (cw_OpenTar x path) (tar_entry path name)"

definition readNow :: "ca_world \<Rightarrow> string \<Rightarrow> time result" where
  "readNow x path =
     and_then (cw_ReadFile x path) (\<lambda>b.
       case parse_RFC3339 (trim_space b) of None \<Rightarrow> Inl (path @ '': cannot parse'') | Some now \<Rightarrow> Inr now)"

definition ca_run :: "ca_world \<Rightarrow> string \<Rightarrow> string \<Rightarrow> time \<Rightarrow> tar_archive result" where
  "ca_run x contentTar outPath now =
     and_then (readTarEntry x contentTar trustSourcePath) (\<lambda>src.
     and_then
       (case extractServerAnchors src now of
          Inl err \<Rightarrow> Inl (''parse '' @ trustSourcePath @ '': '' @ err)
        | Inr bundle \<Rightarrow> Inr bundle) (\<lambda>bundle.
     and_then (cw_Create x outPath) (\<lambda>_.
     and_then (writeBundleTar bundle) (\<lambda>w.
     and_then (cw_Close x) (\<lambda>_. Inr w)))))"

text \<open>The exit status, and the archive when the run succeeds.\<close>

definition ca_main :: "ca_world \<Rightarrow> string \<Rightarrow> string \<Rightarrow> string \<Rightarrow> nat \<times> tar_archive option" where
  "ca_main x contentTar out nowFile =
     (if contentTar = [] \<or> out = [] \<or> nowFile = [] then (2, None)
      else
        (case and_then (readNow x nowFile) (ca_run x contentTar out) of
           Inl err \<Rightarrow> (1, None)
         | Inr w \<Rightarrow> (0, Some w)))"


section \<open>Which certificates are anchors\<close>

text \<open>The restrictions that name a key: the last one in the file holds.\<close>

definition restrictions :: "p11_object list \<Rightarrow> string \<Rightarrow> p11_object list" where
  "restrictions objects spki =
     filter (\<lambda>ob. restricts_usage ob \<and> \<lparr>pb_Type = ''PUBLIC KEY'', pb_Bytes = spki\<rparr> \<in> set (po_pems ob)) objects"

definition for_servers :: "p11_object list \<Rightarrow> string \<Rightarrow> bool" where
  "for_servers objects spki \<longleftrightarrow>
     (let rs = restrictions objects spki in rs = [] \<or> usage_allowed (last rs) = Inr True)"

definition anchor :: "p11_object list \<Rightarrow> time \<Rightarrow> p11_object \<Rightarrow> pem_block \<Rightarrow> bool" where
  "anchor objects now ob b \<longleftrightarrow>
     po_attr ob ''trusted'' = ''true'' \<and> po_attr ob ''x-distrusted'' \<noteq> ''true'' \<and>
     distrustedForServersAt (po_attr ob ''nss-server-distrust-after'') now = Inr False \<and>
     pb_Type b = ''CERTIFICATE'' \<and>
     (case subjectPublicKeyInfo (pb_Bytes b) of Inl err \<Rightarrow> False | Inr spki \<Rightarrow> for_servers objects spki)"

definition anchors :: "p11_object list \<Rightarrow> time \<Rightarrow> pem_block list" where
  "anchors objects now = concat (map (\<lambda>ob. filter (anchor objects now ob) (po_pems ob)) objects)"

lemma labelled_Inr [simp]: "labelled ob r = Inr x \<longleftrightarrow> r = Inr x"
  by (simp add: labelled_def split: sum.split)

lemma set_keys_lookup:
  "set_keys allowed bs m (hex_encode k) =
     (if \<lparr>pb_Type = ''PUBLIC KEY'', pb_Bytes = k\<rparr> \<in> set bs then Some allowed else m (hex_encode k))"
proof (induction bs arbitrary: m)
  case (Cons b bs)
  have b: "(\<lparr>pb_Type = ''PUBLIC KEY'', pb_Bytes = k\<rparr> = b) = (pb_Type b = ''PUBLIC KEY'' \<and> pb_Bytes b = k)"
    by (cases b) auto
  have h: "hex_encode (pb_Bytes b) = hex_encode k \<longleftrightarrow> pb_Bytes b = k" by (rule hex.enc_eq) simp_all
  have "set_keys allowed (b # bs) m = set_keys allowed bs
      (if pb_Type b = ''PUBLIC KEY'' then m(hex_encode (pb_Bytes b) \<mapsto> allowed) else m)"
    unfolding set_keys_def foldl.simps by simp
  then show ?case using b h Cons.IH
    by (cases "pb_Type b = ''PUBLIC KEY''"; cases "pb_Bytes b = k") simp_all
qed (simp add: set_keys_def)

lemma serverAuthByKey_lookup:
  "serverAuthByKey obs m = Inr m' \<Longrightarrow>
     (restrictions obs k = [] \<longrightarrow> m' (hex_encode k) = m (hex_encode k)) \<and>
     (restrictions obs k \<noteq> [] \<longrightarrow>
        (\<exists>a. usage_allowed (last (restrictions obs k)) = Inr a \<and> m' (hex_encode k) = Some a))"
proof (induction obs arbitrary: m)
  case (Cons ob obs)
  show ?case
  proof (cases "restricts_usage ob")
    case False
    then have "restrictions (ob # obs) k = restrictions obs k" by (simp add: restrictions_def)
    with Cons False show ?thesis by simp
  next
    case True
    then obtain a where a: "usage_allowed ob = Inr a"
      "serverAuthByKey obs (set_keys a (po_pems ob) m) = Inr m'"
      using Cons.prems by auto
    have r: "restrictions (ob # obs) k =
       (if \<lparr>pb_Type = ''PUBLIC KEY'', pb_Bytes = k\<rparr> \<in> set (po_pems ob) then ob # restrictions obs k
        else restrictions obs k)"
      using True by (simp add: restrictions_def)
    show ?thesis using Cons.IH [OF a(2)] a(1) unfolding r set_keys_lookup by (cases "restrictions obs k = []") simp_all
  qed
qed (simp add: restrictions_def)

lemma for_servers_lookup:
  assumes "serverAuthByKey obs Map.empty = Inr m"
  shows "m (hex_encode k) = Some False \<longleftrightarrow> \<not> for_servers obs k"
  using serverAuthByKey_lookup [OF assms, of k]
  by (cases "restrictions obs k = []") (auto simp: for_servers_def Let_def)

definition certificate :: "string \<Rightarrow> pem_block" where
  "certificate bytes = \<lparr>pb_Type = ''CERTIFICATE'', pb_Bytes = bytes\<rparr>"

lemma certificate_of: "pb_Type b = ''CERTIFICATE'' \<Longrightarrow> certificate (pb_Bytes b) = b"
  by (cases b) (simp add: certificate_def)

definition pem_bundle :: "pem_block list \<Rightarrow> string" where
  "pem_bundle bs = concat (map pem_Encode bs)"

lemma pem_bundle_simps [simp]:
  "pem_bundle [] = []" "pem_bundle (b # bs) = pem_Encode b @ pem_bundle bs"
  "pem_bundle (bs @ cs) = pem_bundle bs @ pem_bundle cs"
  by (simp_all add: pem_bundle_def)

lemma anchor_blocks_bundle:
  assumes "serverAuthByKey objects Map.empty = Inr m"
    and "po_attr ob ''trusted'' = ''true''" "po_attr ob ''x-distrusted'' \<noteq> ''true''"
    and "distrustedForServersAt (po_attr ob ''nss-server-distrust-after'') now = Inr False"
  shows "anchor_blocks m ob bs acc = Inr acc' \<Longrightarrow>
    acc' = acc @ pem_bundle (filter (anchor objects now ob) bs)"
proof (induction bs arbitrary: acc)
  case (Cons b bs)
  show ?case
  proof (cases "pb_Type b = ''CERTIFICATE''")
    case False
    then have "\<not> anchor objects now ob b" by (simp add: anchor_def)
    with Cons False show ?thesis by simp
  next
    case True
    then obtain spki where s: "subjectPublicKeyInfo (pb_Bytes b) = Inr spki" using Cons.prems by auto
    have "anchor objects now ob b \<longleftrightarrow> m (hex_encode spki) \<noteq> Some False"
      using assms True s for_servers_lookup [OF assms(1), of spki] by (simp add: anchor_def)
    moreover have "pem_Encode \<lparr>pb_Type = ''CERTIFICATE'', pb_Bytes = pb_Bytes b\<rparr> = pem_Encode b"
      using certificate_of [OF True] by (simp add: certificate_def)
    ultimately show ?thesis
      using Cons.prems Cons.IH [of acc] Cons.IH [of "acc @ pem_Encode b"] True s
      by (cases "anchor objects now ob b") simp_all
  qed
qed simp

lemma anchor_objects_bundle:
  assumes "serverAuthByKey objects Map.empty = Inr m"
  shows "anchor_objects m now obs acc = Inr acc' \<Longrightarrow>
    acc' = acc @ pem_bundle (concat (map (\<lambda>ob. filter (anchor objects now ob) (po_pems ob)) obs))"
proof (induction obs arbitrary: acc)
  case (Cons ob obs)
  let ?live = "po_attr ob ''trusted'' = ''true'' \<and> po_attr ob ''x-distrusted'' \<noteq> ''true''"
  let ?dead = "distrustedForServersAt (po_attr ob ''nss-server-distrust-after'') now"
  have none: "filter (anchor objects now ob) (po_pems ob) = []" if "\<not> ?live \<or> ?dead = Inr True"
    using that by (auto simp: anchor_def)
  show ?case
  proof (cases "?live \<and> ?dead \<noteq> Inr True")
    case False
    with Cons none show ?thesis by (cases ?live) auto
  next
    case True
    then obtain b where d: "?dead = Inr False"
      and b: "anchor_blocks m ob (po_pems ob) acc = Inr b" "anchor_objects m now obs b = Inr acc'"
      using Cons.prems by auto
    then show ?thesis
      using anchor_blocks_bundle [OF assms _ _ d b(1)] True Cons.IH [OF b(2)] by simp
  qed
qed simp

lemma extractServerAnchors_bundle:
  assumes "extractServerAnchors src now = Inr bundle"
  shows "\<exists>objects. parseP11Kit src = Inr objects \<and> bundle = pem_bundle (anchors objects now)"
  using assms anchor_objects_bundle by (fastforce simp: extractServerAnchors_def anchors_def)


section \<open>The bundle read back\<close>

definition cert_lines :: "pem_block \<Rightarrow> string list" where
  "cert_lines b =
     ''-----BEGIN CERTIFICATE-----'' # break_lines (b64_encode (pb_Bytes b)) @ [''-----END CERTIFICATE-----'']"

lemma with_newlines_append [simp]: "with_newlines (as @ bs) = with_newlines as @ with_newlines bs"
  by (simp add: with_newlines_def)

lemma pem_Encode_lines: "pem_Encode (certificate bytes) = with_newlines (cert_lines (certificate bytes))"
  by (simp add: pem_Encode_def cert_lines_def certificate_def pemBegin_def pemDashes_def)

lemma join_newline: "ls \<noteq> [] \<Longrightarrow> join [CHR 0x0A] ls @ [CHR 0x0A] = with_newlines ls"
  by (induction ls rule: induct_list012) simp_all

lemma raw_lines_with_newlines:
  "list_all (\<lambda>l. CHR 0x0A \<notin> set l) ls \<Longrightarrow> raw_lines (with_newlines ls) = ls"
proof (induction ls)
  case (Cons l ls)
  have "raw_lines ((l @ [CHR 0x0A]) @ with_newlines ls) = raw_lines (l @ [CHR 0x0A]) @ raw_lines (with_newlines ls)"
    by (rule raw_lines_append) simp
  moreover have "raw_lines (l @ [CHR 0x0A]) = [l]"
    using Cons.prems by (simp add: raw_lines_def split_byte_sep split_byte_no_sep)
  ultimately show ?case using Cons by simp
qed (simp add: raw_lines_def)

lemma break_lines_length: "list_all (\<lambda>l. length l \<le> 64) (break_lines s)"
  by (induction s rule: break_lines.induct) (subst break_lines.simps, auto)

text \<open>A line the scanner keeps as it is.\<close>

definition plain_line :: "string \<Rightarrow> bool" where
  "plain_line l \<longleftrightarrow> CHR 0x0A \<notin> set l \<and> \<not> has_suffix l [CHR 0x0D] \<and> int (length l) < p11_maxLine"

lemma scan_plain_lines:
  assumes "list_all plain_line ls"
  shows "scan_lines p11_maxLine (with_newlines ls) = ls" "scan_ok p11_maxLine (with_newlines ls)"
proof -
  have r: "raw_lines (with_newlines ls) = ls"
    using assms by (intro raw_lines_with_newlines) (auto simp: list_all_iff plain_line_def)
  show ok: "scan_ok p11_maxLine (with_newlines ls)"
    using assms by (auto simp: scan_ok_def r list_all_iff plain_line_def fits_buffer_def)
  show "scan_lines p11_maxLine (with_newlines ls) = ls"
    using assms unfolding scan_ok_lines [OF ok] r
    by (intro map_idI) (auto simp: list_all_iff plain_line_def trim_suffix_def)
qed

lemma digits_plain: "l \<in> set (break_lines (b64_encode s)) \<Longrightarrow> plain_line l \<and> \<not> has_prefix l ''-----END ''"
proof -
  assume l: "l \<in> set (break_lines (b64_encode s))"
  then have a: "l \<noteq> []" "\<forall>c \<in> set l. b64_alphabet c" "length l \<le> 64"
    using b64_lines_break [of s] break_lines_length [of "b64_encode s"]
    by (auto simp: b64_lines_def list_all_iff)
  then have n: "c \<notin> set l" if "\<not> b64_alphabet c" for c using that by blast
  have "\<not> b64_alphabet CHR 0x0D" "\<not> b64_alphabet CHR 0x0A" "\<not> b64_alphabet CHR ''-''"
    using b64_alphabet_not by metis+
  note n [OF this(1)] n [OF this(2)] n [OF this(3)]
  moreover from this(1) have "\<not> has_suffix l [CHR 0x0D]" by (auto simp: has_suffix_iff)
  moreover have "\<not> has_prefix l ''-----END ''"
    using n [OF \<open>\<not> b64_alphabet CHR ''-''\<close>] by (cases l) (auto simp: has_prefix_def)
  ultimately show ?thesis using a(3) by (simp add: plain_line_def p11_maxLine_def)
qed

lemma cert_lines_plain: "list_all plain_line (cert_lines b)"
proof -
  have "list_all plain_line (break_lines (b64_encode (pb_Bytes b)))"
    unfolding list_all_iff using digits_plain by blast
  moreover have "plain_line ''-----BEGIN CERTIFICATE-----''" "plain_line ''-----END CERTIFICATE-----''"
    by (simp_all add: plain_line_def has_suffix_def p11_maxLine_def)
  ultimately show ?thesis by (simp only: cert_lines_def list_all_append list.pred_inject simp_thms)
qed

lemma p11_lines_append: "p11_lines (as @ bs) st = and_then (p11_lines as st) (p11_lines bs)"
  by (induction as arbitrary: st) (auto simp: and_then_def split: sum.split)

lemma p11_digits:
  assumes "ps_inPEM st"
  shows "set ls \<subseteq> set (break_lines (b64_encode s)) \<Longrightarrow>
    p11_lines ls st = Inr (st\<lparr>ps_pemLines := ps_pemLines st @ ls\<rparr>)"
  using assms
proof (induction ls arbitrary: st)
  case (Cons l ls)
  then have "p11_line l st = Inr (st\<lparr>ps_pemLines := ps_pemLines st @ [l]\<rparr>)"
    using digits_plain [of l s] by (simp add: p11_line_def Let_def)
  with Cons show ?case by simp
qed simp

lemma p11_certificate:
  assumes "ps_objects st \<noteq> []" "\<not> ps_inPEM st"
  shows "p11_lines (cert_lines (certificate bytes)) st =
    Inr ((update_cur (\<lambda>ob. ob\<lparr>po_pems := po_pems ob @ [certificate bytes]\<rparr>) st)
         \<lparr>ps_pemLines := cert_lines (certificate bytes), ps_inPEM := False\<rparr>)"
proof -
  let ?ls = "break_lines (b64_encode bytes)" and ?b = "''-----BEGIN CERTIFICATE-----''" and ?e = "''-----END CERTIFICATE-----''"
  have b: "p11_line ?b st = Inr (st\<lparr>ps_pemLines := [?b], ps_inPEM := True\<rparr>)"
    using assms by (simp add: p11_line_def p11_header_def has_prefix_def)
  have "join [CHR 0x0A] ((?b # ?ls) @ [?e]) @ [CHR 0x0A] = pem_Encode (certificate bytes)"
    unfolding pem_Encode_lines by (subst join_newline) (simp_all add: cert_lines_def certificate_def)
  then have d: "pem_Decode (join [CHR 0x0A] ((?b # ?ls) @ [?e]) @ [CHR 0x0A]) = Some (certificate bytes)"
    unfolding certificate_def by (simp only: pem_Decode_Encode)
  have e: "p11_line ?e (st\<lparr>ps_inPEM := True, ps_pemLines := ?b # ?ls\<rparr>) =
    Inr ((update_cur (\<lambda>ob. ob\<lparr>po_pems := po_pems ob @ [certificate bytes]\<rparr>) st)
         \<lparr>ps_pemLines := (?b # ?ls) @ [?e], ps_inPEM := False\<rparr>)"
    unfolding p11_line_def using d by (simp add: has_prefix_def update_cur_def del: append_Cons)
  have c: "cert_lines (certificate bytes) = [?b] @ ?ls @ [?e]" by (simp add: cert_lines_def certificate_def)
  show ?thesis unfolding c p11_lines_append using b e p11_digits [of "st\<lparr>ps_pemLines := [?b], ps_inPEM := True\<rparr>" ?ls bytes]
    by simp
qed

lemma p11_certificates:
  "list_all (\<lambda>b. pb_Type b = ''CERTIFICATE'') bs \<Longrightarrow> ps_objects st = [ob] \<Longrightarrow> \<not> ps_inPEM st \<Longrightarrow>
    \<exists>st'. p11_lines (concat (map cert_lines bs)) st = Inr st' \<and> \<not> ps_inPEM st' \<and>
      ps_objects st' = [ob\<lparr>po_pems := po_pems ob @ bs\<rparr>]"
proof (induction bs arbitrary: st ob)
  case (Cons b bs)
  then have "pb_Type b = ''CERTIFICATE''" by simp
  then obtain bytes where b: "b = certificate bytes" using certificate_of by metis
  have "p11_lines (cert_lines b) st =
    Inr ((update_cur (\<lambda>ob. ob\<lparr>po_pems := po_pems ob @ [b]\<rparr>) st)\<lparr>ps_pemLines := cert_lines b, ps_inPEM := False\<rparr>)"
    unfolding b using Cons.prems by (intro p11_certificate) simp_all
  then show ?case
    using Cons.prems(1) Cons.IH [of "(update_cur (\<lambda>ob. ob\<lparr>po_pems := po_pems ob @ [b]\<rparr>) st)
        \<lparr>ps_pemLines := cert_lines b, ps_inPEM := False\<rparr>" "ob\<lparr>po_pems := po_pems ob @ [b]\<rparr>"] Cons.prems(2)
    by (simp add: p11_lines_append update_cur_def)
qed simp

lemma pem_bundle_lines:
  "list_all (\<lambda>b. pb_Type b = ''CERTIFICATE'') bs \<Longrightarrow> pem_bundle bs = with_newlines (concat (map cert_lines bs))"
proof (induction bs)
  case (Cons b bs)
  then have "pem_Encode b = with_newlines (cert_lines b)"
    using pem_Encode_lines [of "pb_Bytes b"] certificate_of [of b] by simp
  with Cons show ?case by simp
qed simp

lemma parse_bundle:
  assumes "list_all (\<lambda>b. pb_Type b = ''CERTIFICATE'') bs"
  shows "parseP11Kit (p11_header @ CHR 0x0A # pem_bundle bs) = Inr [\<lparr>po_attrs = Map.empty, po_pems = bs\<rparr>]"
proof -
  let ?ls = "p11_header # concat (map cert_lines bs)"
  have src: "p11_header @ CHR 0x0A # pem_bundle bs = with_newlines ?ls"
    using pem_bundle_lines [OF assms] by simp
  have "list_all plain_line ?ls"
    using cert_lines_plain by (fastforce simp: list_all_iff plain_line_def p11_header_def has_suffix_def p11_maxLine_def)
  note scan = scan_plain_lines [OF this]
  have "p11_line p11_header p11_start = Inr (p11_start\<lparr>ps_objects := [\<lparr>po_attrs = Map.empty, po_pems = []\<rparr>]\<rparr>)"
    by (simp add: p11_line_def p11_start_def)
  moreover obtain st where "p11_lines (concat (map cert_lines bs))
      (p11_start\<lparr>ps_objects := [\<lparr>po_attrs = Map.empty, po_pems = []\<rparr>]\<rparr>) = Inr st"
    "\<not> ps_inPEM st" "ps_objects st = [\<lparr>po_attrs = Map.empty, po_pems = bs\<rparr>]"
    using p11_certificates [OF assms, of "p11_start\<lparr>ps_objects := [\<lparr>po_attrs = Map.empty, po_pems = []\<rparr>]\<rparr>"
        "\<lparr>po_attrs = Map.empty, po_pems = []\<rparr>"] by (auto simp: p11_start_def)
  ultimately show ?thesis unfolding parseP11Kit_def src scan(1) using scan(2) by simp
qed

lemma anchors_certificates: "list_all (\<lambda>b. pb_Type b = ''CERTIFICATE'') (anchors objects now)"
  by (auto simp: anchors_def anchor_def list_all_iff)

text \<open>
  C6: the bundle holds the anchors and nothing else: read back, block by block, it is the list of
  the certificates of trusted objects that are not distrusted, whose distrust date for servers
  is not a leaf's lifetime in the past, and whose key no restriction names or the last one that does
  allows server authentication; each once, in the order of the trust file, byte for byte.
\<close>

theorem extractServerAnchors_exact:
  assumes "extractServerAnchors src now = Inr b"
  shows "\<exists>objects. parseP11Kit src = Inr objects \<and>
    parseP11Kit (p11_header @ CHR 0x0A # b) = Inr [\<lparr>po_attrs = Map.empty, po_pems = anchors objects now\<rparr>]"
proof -
  obtain objects where "parseP11Kit src = Inr objects" "b = pem_bundle (anchors objects now)"
    using extractServerAnchors_bundle [OF assms] by blast
  then show ?thesis using parse_bundle [OF anchors_certificates] by blast
qed


section \<open>The parts\<close>

text \<open>
  C32: the key found in a certificate is the DER of its SubjectPublicKeyInfo, octet for octet,
  whatever the other fields hold (a negative serial number among them), with or without a version.
\<close>

theorem subjectPublicKeyInfo_der:
  assumes "version = [] \<or> version = der 160 v" "der_ok 160 v" "der_ok 2 serial"
    and "der_ok 48 sig" "der_ok 48 issuer" "der_ok 48 validity" "der_ok 48 subject" "der_ok 48 key"
    and "tbs = version @ der 2 serial @ der 48 sig @ der 48 issuer @ der 48 validity @ der 48 subject
           @ der 48 key @ extensions"
    and "der_ok 48 tbs" "der_ok 48 (der 48 tbs @ signature)"
  shows "subjectPublicKeyInfo (der 48 (der 48 tbs @ signature)) = Inr (der 48 key)"
proof -
  note raw = unmarshal_raw_der [OF assms(2)] unmarshal_raw_der [OF assms(3)] unmarshal_raw_der [OF assms(4)]
    unmarshal_raw_der [OF assms(5)] unmarshal_raw_der [OF assms(6)] unmarshal_raw_der [OF assms(7)]
    unmarshal_raw_der [OF assms(8)]
  note outer = unmarshal_raw_der [OF assms(10)] unmarshal_raw_der [OF assms(11), of "[]", simplified]
  show ?thesis
    using assms(1)
    by (simp add: subjectPublicKeyInfo_def outer)
      (elim disjE; simp add: raw assms(9) spki_fields_def ClassContextSpecific_def)
qed

theorem subjectPublicKeyInfo_der_witness:
  "subjectPublicKeyInfo (der 48 (der 48 (der 160 (der 2 [CHR 0x02]) @ der 2 [CHR 0xFF] @ der 48 [] @ der 48 []
      @ der 48 [] @ der 48 [] @ der 48 [CHR 0x05, CHR 0x00]) @ der 48 [])) = Inr (der 48 [CHR 0x05, CHR 0x00])"
  by (rule subjectPublicKeyInfo_der [where version = "der 160 (der 2 [CHR 0x02])" and v = "der 2 [CHR 0x02]"
        and serial = "[CHR 0xFF]" and sig = "[]" and issuer = "[]" and validity = "[]" and subject = "[]"
        and extensions = "[]" and signature = "der 48 []"])
    (simp_all add: der_ok_def short_tag_def der_def der_length_def)

text \<open>Whichever bytes are written as escapes, the value read is the same.\<close>

definition p11_escape :: "(char \<times> bool) list \<Rightarrow> string" where
  "p11_escape cs =
     concat (map (\<lambda>(c, esc). if esc \<or> c = CHR ''%'' then CHR ''%'' # hex_encode [c] else [c]) cs)"

lemma p11_unescape_escape: "p11_unescape (p11_escape cs) = Inr (map fst cs)"
proof (induction cs)
  case (Cons x cs)
  obtain c esc where x: "x = (c, esc)" by (cases x)
  obtain a b where h: "hex_encode [c] = [a, b]" by (simp add: hex_encode_def)
  then have "hex_decode [a, b] = Some [c]" using hex_decode_encode [of "[c]"] by simp
  with Cons show ?case by (simp add: p11_escape_def x h)
qed (simp add: p11_escape_def)

lemma decodeP11Value_escape: "decodeP11Value (CHR 0x22 # p11_escape cs @ [CHR 0x22]) = Inr (map fst cs)"
  by (simp add: decodeP11Value_def p11_quoted_def p11_unquoted_def p11_unescape_escape)

text \<open>An anchor that has aged out stays out.\<close>

lemma distrusted_later:
  "distrustedForServersAt val now = Inr True \<Longrightarrow> now \<le> now' \<Longrightarrow> distrustedForServersAt val now' = Inr True"
  by (auto simp: distrustedForServersAt_def split: if_splits option.splits)

lemma anchors_later: "now \<le> now' \<Longrightarrow> set (anchors objects now') \<subseteq> set (anchors objects now)"
proof -
  assume "now \<le> now'"
  then have "distrustedForServersAt val now' = Inr False \<Longrightarrow> distrustedForServersAt val now = Inr False" for val
    by (auto simp: distrustedForServersAt_def split: if_splits option.splits)
  then show ?thesis by (auto simp: anchors_def anchor_def)
qed

section \<open>A concrete trust file\<close>

definition sample_cert :: "char \<Rightarrow> pem_block" where
  "sample_cert k =
     certificate (der 48 (der 48 (der 2 [CHR 0x01] @ der 48 [] @ der 48 [] @ der 48 [] @ der 48 [] @ der 48 [k])))"

definition sample_restriction :: "char \<Rightarrow> string" where
  "sample_restriction k =
     with_newlines [p11_header, ''class: x-certificate-extension'', ''object-id: 2.5.29.37'',
       ''value: '' @ [CHR 0x22]
         @ p11_escape (map (\<lambda>c. (c, True))
             (der 48 (der 6 [CHR 0x55, CHR 0x1D, CHR 0x25]
                @ der 4 (der 48 (der 6 [CHR 0x2B, CHR 0x06, CHR 0x01, CHR 0x05, CHR 0x05, CHR 0x07, CHR 0x03,
                                        CHR 0x04]))))) @ [CHR 0x22]]
     @ pem_Encode \<lparr>pb_Type = ''PUBLIC KEY'', pb_Bytes = der 48 [k]\<rparr>"

text \<open>
  Three trusted certificates: one plain, one whose key is restricted to mail, one distrusted since 2000.
\<close>

definition sample_trust_source :: string where
  "sample_trust_source =
     with_newlines [p11_header, ''trusted: true''] @ pem_Encode (sample_cert CHR ''a'')
     @ with_newlines [p11_header, ''trusted: true'', ''nss-server-distrust-after: '' @ [CHR 0x22] @ ''%00'' @ [CHR 0x22]]
     @ pem_Encode (sample_cert CHR ''b'') @ sample_restriction CHR ''b''
     @ with_newlines [p11_header, ''trusted: true'', ''nss-server-distrust-after: '' @ [CHR 0x22] @ ''000101000000Z'' @ [CHR 0x22]]
     @ pem_Encode (sample_cert CHR ''c'')"

definition sample_now :: time where
  "sample_now = instant 2020 1 1 0 0 0 0"

lemma sample_source_anchors:
  "extractServerAnchors sample_trust_source sample_now = Inr (pem_Encode (sample_cert CHR ''a''))"
  by code_simp

theorem extractServerAnchors_exact_witness:
  "\<exists>objects. parseP11Kit sample_trust_source = Inr objects \<and>
    parseP11Kit (p11_header @ CHR 0x0A # pem_Encode (sample_cert CHR ''a''))
      = Inr [\<lparr>po_attrs = Map.empty, po_pems = anchors objects sample_now\<rparr>]"
  by (rule extractServerAnchors_exact [OF sample_source_anchors])

end
