(* ===== verification/Starlark.thy ===== *)
theory Starlark
  imports Go_Prelude
begin

text \<open>
  The syntax trees of github.com/bazelbuild/buildtools as far as the program builds or takes them
  apart: identifiers, strings, dictionaries, tuples, assignments, calls and attribute accesses,
  with every other node opaque. Parsing and formatting belong to that library and are parameters
  of the theories that use the trees.
\<close>

datatype expr =
    Ident string
  | StringExpr string
  | DictExpr bool "(expr \<times> expr) list"
  | TupleExpr bool "expr list"
  | AssignExpr expr string expr
  | CallExpr expr "expr list"
  | DotExpr expr string
  | OtherExpr string

text \<open>What a statement assigns to, and the statement with another right-hand side.\<close>

definition assigned_name :: "expr \<Rightarrow> string option" where
  "assigned_name s = (case s of AssignExpr (Ident n) op rhs \<Rightarrow> Some n | _ \<Rightarrow> None)"

definition set_RHS :: "expr \<Rightarrow> expr \<Rightarrow> expr" where
  "set_RHS rhs s = (case s of AssignExpr lhs op old \<Rightarrow> AssignExpr lhs op rhs | _ \<Rightarrow> s)"

definition right_hand_side :: "expr \<Rightarrow> expr option" where
  "right_hand_side s = (case s of AssignExpr lhs op rhs \<Rightarrow> Some rhs | _ \<Rightarrow> None)"

lemma assigned_name_set_RHS [simp]: "assigned_name (set_RHS rhs s) = assigned_name s"
  by (cases s) (simp_all add: assigned_name_def set_RHS_def split: expr.split)

lemma assigned_name_assign [simp]: "assigned_name (AssignExpr (Ident n) op rhs) = Some n"
  by (simp add: assigned_name_def)

lemma right_hand_side_set_RHS: "assigned_name s = Some n \<Longrightarrow> right_hand_side (set_RHS rhs s) = Some rhs"
  by (cases s) (simp_all add: assigned_name_def set_RHS_def right_hand_side_def)

lemma set_RHS_twice [simp]: "set_RHS rhs (set_RHS old s) = set_RHS rhs s"
  by (cases s) (simp_all add: set_RHS_def)

end
