(* ===== verification/Tool_Versions.thy ===== *)
theory Tool_Versions
  imports Starlark Go_Sort Go_Tar
begin

text \<open>
  bazel/toolversions/toolversions.go: the versions.bzl file of a tool published as releases. The
  parser and printer of Starlark files, the title case of golang.org/x/text and the file system are
  the fields of \<open>tool_world\<close>. A pointer into the statements of a file is the index of the statement.
\<close>

section \<open>Versions\<close>

fun compare_components :: "string list \<Rightarrow> string list \<Rightarrow> int option" where
  "compare_components (a # as) (b # bs) =
     (case (atoi a, atoi b) of
        (Some x, Some y) \<Rightarrow> if x \<noteq> y then Some (wrap64 (x - y)) else compare_components as bs
      | _ \<Rightarrow> if cmp_compare a b \<noteq> 0 then Some (cmp_compare a b) else compare_components as bs)"
| "compare_components _ _ = None"

definition CompareVersions :: "string \<Rightarrow> string \<Rightarrow> int" where
  "CompareVersions a b =
     (let ap = split_byte a CHR ''.''; bp = split_byte b CHR ''.''
      in case compare_components ap bp of Some c \<Rightarrow> c | None \<Rightarrow> int (length ap) - int (length bp))"

section \<open>The file\<close>

record tool_config =
  cfg_Tool :: string
  cfg_URLTemplate :: string

record artifact =
  art_Platform :: string
  art_Filename :: string
  art_SHA256 :: string

record tool_release =
  tr_Version :: string
  tr_Artifacts :: "artifact list"

definition identifierName :: "string \<Rightarrow> string" where
  "identifierName tool = replace_all tool ''-'' ''_''"

definition versionsVar :: "string \<Rightarrow> string" where
  "versionsVar tool = to_upper (identifierName tool) @ ''_VERSIONS''"

definition urlTemplateForStarlark :: "string \<Rightarrow> string" where
  "urlTemplateForStarlark goTmpl = replace_all goTmpl ''%s'' ''{}''"

definition quote3 :: string where "quote3 = [CHR 0x22, CHR 0x22, CHR 0x22]"

definition bootstrap :: "(string \<Rightarrow> string) \<Rightarrow> tool_config \<Rightarrow> string" where
  "bootstrap title cfg =
     (let url = urlTemplateForStarlark (cfg_URLTemplate cfg); tool = cfg_Tool cfg
      in join [CHR 0x0A]
           [quote3 @ title tool @ '' version definitions with filenames and checksums.'',
            [],
            ''Binaries are published to GitHub Releases at:'',
            [],
            ''    '' @ url,
            [],
            ''Format: '' @ [CHR 0x22] @ ''VERSION-PLATFORM'' @ [CHR 0x22] @ '': (filename, sha256)'',
            ''Platforms: darwin_amd64, darwin_arm64, linux_amd64, linux_arm64'',
            [],
            ''Regenerate with: bazel run //bazel/cmd/knife -- prebuilts update --tool '' @ tool,
            quote3,
            [],
            ''DEFAULT_VERSION = '' @ [CHR 0x22, CHR 0x22],
            [],
            versionsVar tool @ '' = {}'',
            [],
            ''def get_'' @ identifierName tool @ ''_url(version, filename):'',
            ''    '' @ quote3 @ ''Returns the download URL for a '' @ tool @ '' release.'' @ quote3,
            ''    return '' @ [CHR 0x22] @ url @ [CHR 0x22] @ ''.format(version, filename)'',
            []])"

definition artifact_entry :: "string \<Rightarrow> artifact \<Rightarrow> expr \<times> expr" where
  "artifact_entry version a =
     (StringExpr (version @ ''-'' @ art_Platform a),
      TupleExpr True [StringExpr (art_Filename a), StringExpr (art_SHA256 a)])"

definition release_entries :: "tool_release \<Rightarrow> (expr \<times> expr) list" where
  "release_entries r =
     map (artifact_entry (tr_Version r))
       (sort_less (\<lambda>a b. art_Platform a < art_Platform b) (tr_Artifacts r))"

definition releasesToDict :: "tool_release list \<Rightarrow> expr" where
  "releasesToDict releases =
     DictExpr True
       (concat (map release_entries
          (sort_stable (\<lambda>a b. CompareVersions (tr_Version a) (tr_Version b)) releases)))"

fun findAssign :: "expr list \<Rightarrow> string \<Rightarrow> nat option" where
  "findAssign [] name = None"
| "findAssign (s # ss) name =
     (if assigned_name s = Some name then Some 0 else map_option Suc (findAssign ss name))"

definition setAssign :: "expr list \<Rightarrow> string \<Rightarrow> expr \<Rightarrow> expr list" where
  "setAssign f name rhs =
     (case findAssign f name of
        Some i \<Rightarrow> f[i := set_RHS rhs (f ! i)]
      | None \<Rightarrow> f @ [AssignExpr (Ident name) ''='' rhs])"

definition setStringAssign :: "expr list \<Rightarrow> string \<Rightarrow> string \<Rightarrow> expr list" where
  "setStringAssign f name val = setAssign f name (StringExpr val)"

definition setDictAssign :: "expr list \<Rightarrow> string \<Rightarrow> expr \<Rightarrow> expr list" where
  "setDictAssign f name dict = setAssign f name dict"

datatype file_read = NoFile | Unreadable string | Content string

record tool_world =
  tv_Title :: "string \<Rightarrow> string"
  tv_Parse :: "string \<Rightarrow> string \<Rightarrow> expr list result"
  tv_Format :: "expr list \<Rightarrow> string"

definition tool_file :: "tool_config \<Rightarrow> tool_release list \<Rightarrow> string \<Rightarrow> expr list \<Rightarrow> expr list" where
  "tool_file cfg releases defaultVersion f =
     setDictAssign (setStringAssign f ''DEFAULT_VERSION'' defaultVersion)
       (versionsVar (cfg_Tool cfg)) (releasesToDict releases)"

text \<open>What is written to the path; the outcome of the write itself is the caller's.\<close>

definition Write ::
  "tool_world \<Rightarrow> string \<Rightarrow> file_read \<Rightarrow> tool_config \<Rightarrow> tool_release list \<Rightarrow> string \<Rightarrow> string result" where
  "Write x path existing cfg releases defaultVersion =
     (if cfg_Tool cfg = [] then Inl ''tool name is required''
      else if cfg_URLTemplate cfg = [] then Inl ''url template is required''
      else if releases = [] then Inl ''no releases provided''
      else if \<not> list_ex (\<lambda>r. tr_Version r = defaultVersion) releases
      then Inl (''default version '' @ defaultVersion @ '' not in releases'')
      else
        and_then
          (case existing of
             Unreadable err \<Rightarrow> Inl (''read '' @ path @ '': '' @ err)
           | NoFile \<Rightarrow> tv_Parse x path (bootstrap (tv_Title x) cfg)
           | Content s \<Rightarrow> tv_Parse x path (if s = [] then bootstrap (tv_Title x) cfg else s)) (\<lambda>f.
        Inr (tv_Format x (tool_file cfg releases defaultVersion f))))"

section \<open>The order of versions\<close>

text \<open>Versions whose components are numbers that fit an \<open>int\<close>, none with a minus sign.\<close>

definition numeric_component :: "string \<Rightarrow> bool" where
  "numeric_component s \<longleftrightarrow> (case atoi s of Some n \<Rightarrow> 0 \<le> n | None \<Rightarrow> False)"

definition numeric_version :: "string \<Rightarrow> bool" where
  "numeric_version v \<longleftrightarrow> list_all numeric_component (split_byte v CHR ''.'')"

definition version_numbers :: "string \<Rightarrow> int list" where
  "version_numbers v = map (\<lambda>s. the (atoi s)) (split_byte v CHR ''.'')"

lemma wrap64_diff: "in_int64 x \<Longrightarrow> in_int64 y \<Longrightarrow> 0 \<le> x \<Longrightarrow> 0 \<le> y \<Longrightarrow> wrap64 (x - y) = x - y"
  by (rule wrap64_id) (simp add: in_int64_def)

lemma Nil_less_iff [simp]: "([] :: int list) < xs \<longleftrightarrow> xs \<noteq> []"
  by (cases xs) auto

lemma compare_components_numbers:
  assumes "list_all numeric_component as" "list_all numeric_component bs"
  shows "sgn (case compare_components as bs of Some c \<Rightarrow> c | None \<Rightarrow> int (length as) - int (length bs))
    = sgn (cmp_compare (map (\<lambda>s. the (atoi s)) as) (map (\<lambda>s. the (atoi s)) bs))"
  using assms
proof (induction as bs rule: compare_components.induct)
  case (1 a as b bs)
  then obtain x y where xy: "atoi a = Some x" "atoi b = Some y" "0 \<le> x" "0 \<le> y"
    by (auto simp: numeric_component_def split: option.splits)
  have d: "wrap64 (x - y) = x - y"
    using xy atoi_range by (intro wrap64_diff) auto
  show ?case
  proof (cases "x = y")
    case True
    have "sgn (case compare_components as bs of Some c \<Rightarrow> c | None \<Rightarrow> int (length as) - int (length bs))
      = sgn (cmp_compare (map (\<lambda>s. the (atoi s)) as) (map (\<lambda>s. the (atoi s)) bs))"
      using 1 xy True by simp
    then show ?thesis using xy True by (cases "compare_components as bs") (simp_all add: cmp_compare_def)
  next
    case False
    then show ?thesis using xy d by (auto simp: cmp_compare_def sgn_if)
  qed
qed (auto simp: cmp_compare_def sgn_if)

lemma CompareVersions_numbers:
  "numeric_version a \<Longrightarrow> numeric_version b \<Longrightarrow>
     sgn (CompareVersions a b) = sgn (cmp_compare (version_numbers a) (version_numbers b))"
  using compare_components_numbers [of "split_byte a CHR ''.''" "split_byte b CHR ''.''"]
  by (simp add: CompareVersions_def numeric_version_def version_numbers_def Let_def)

interpretation numeric_order: three_way CompareVersions numeric_version
  by (rule three_way_sgn [OF three_way_key [of version_numbers]]) (rule CompareVersions_numbers)

text \<open>With a component that is no number among them, three versions can each come before the next.\<close>

theorem CompareVersions_cycle:
  "CompareVersions ''2'' ''10'' < 0" "CompareVersions ''10'' ''1a'' < 0" "CompareVersions ''1a'' ''2'' < 0"
  by code_simp+


section \<open>What is written\<close>

lemma findAssign_Some:
  "findAssign f name = Some i \<Longrightarrow> i < length f \<and> assigned_name (f ! i) = Some name"
  by (induction f arbitrary: i) (auto split: if_splits)

text \<open>The value a file gives to a name, at its first assignment, and what else the file says.\<close>

definition lookup_assign :: "expr list \<Rightarrow> string \<Rightarrow> expr option" where
  "lookup_assign f name = Option.bind (findAssign f name) (\<lambda>i. right_hand_side (f ! i))"

definition others :: "string list \<Rightarrow> expr list \<Rightarrow> expr list" where
  "others names f = filter (\<lambda>s. \<forall>n. assigned_name s = Some n \<longrightarrow> n \<notin> set names) f"

lemma setAssign_Cons:
  "setAssign (s # f) name rhs =
     (if assigned_name s = Some name then set_RHS rhs s # f else s # setAssign f name rhs)"
  by (auto simp: setAssign_def split: option.split)

lemma findAssign_setAssign:
  "findAssign (setAssign f name rhs) n =
     (if n = name \<and> findAssign f name = None then Some (length f) else findAssign f n)"
  by (induction f) (auto simp: setAssign_Cons option.map_comp comp_def, simp_all add: setAssign_def)

lemma lookup_setAssign:
  "lookup_assign (setAssign f name rhs) n = (if n = name then Some rhs else lookup_assign f n)"
proof (induction f)
  case Nil
  then show ?case by (simp add: lookup_assign_def setAssign_def right_hand_side_def)
next
  case (Cons s f)
  have c: "lookup_assign (t # g) k = (if assigned_name t = Some k then right_hand_side t else lookup_assign g k)" for t g k
    by (cases "findAssign g k") (simp_all add: lookup_assign_def)
  show ?case unfolding setAssign_Cons using Cons by (cases "n = name") (auto simp: c right_hand_side_set_RHS)
qed

lemma others_setAssign: "name \<in> set names \<Longrightarrow> others names (setAssign f name rhs) = others names f"
  by (induction f) (simp_all add: setAssign_Cons others_def, simp add: setAssign_def)

lemma setAssign_twice: "setAssign (setAssign f name old) name rhs = setAssign f name rhs"
  by (induction f) (simp_all add: setAssign_Cons, simp add: setAssign_def set_RHS_def)

lemma setAssign_commute:
  "m \<noteq> n \<Longrightarrow> findAssign f m \<noteq> None \<Longrightarrow>
     setAssign (setAssign f n b) m a = setAssign (setAssign f m a) n b"
  by (induction f) (auto simp: setAssign_Cons)


lemma versionsVar_not_default: "versionsVar tool \<noteq> ''DEFAULT_VERSION''"
proof -
  have "last (versionsVar tool) = CHR ''S''" by (simp add: versionsVar_def)
  then show ?thesis by auto
qed

lemma tool_file_twice: "tool_file cfg releases v (tool_file cfg releases v f) = tool_file cfg releases v f"
proof -
  let ?g = "setAssign f ''DEFAULT_VERSION'' (StringExpr v)" and ?n = "versionsVar (cfg_Tool cfg)"
  have "setAssign (setAssign ?g ?n (releasesToDict releases)) ''DEFAULT_VERSION'' (StringExpr v)
      = setAssign (setAssign ?g ''DEFAULT_VERSION'' (StringExpr v)) ?n (releasesToDict releases)"
    using versionsVar_not_default [of "cfg_Tool cfg", symmetric]
    by (intro setAssign_commute) (simp_all add: findAssign_setAssign)
  then show ?thesis by (simp add: tool_file_def setStringAssign_def setDictAssign_def setAssign_twice)
qed

text \<open>What the dictionary holds for an artifact of a release.\<close>

definition listed :: "tool_release list \<Rightarrow> expr \<times> expr \<Rightarrow> bool" where
  "listed releases kv \<longleftrightarrow> (\<exists>r a. r \<in> set releases \<and> a \<in> set (tr_Artifacts r) \<and> kv = artifact_entry (tr_Version r) a)"

lemma releasesToDict_entries:
  "\<exists>entries. releasesToDict releases = DictExpr True entries \<and> (\<forall>kv. kv \<in> set entries \<longleftrightarrow> listed releases kv)"
proof -
  have s: "set (sort_less lt xs) = set xs" for lt :: "artifact \<Rightarrow> artifact \<Rightarrow> bool" and xs
    by (metis mset_sort_less set_mset_mset)
  show ?thesis by (auto simp: releasesToDict_def listed_def release_entries_def s)
qed

text \<open>
  C33: a file is rewritten to what was asked for and is otherwise left as it was: its default
  version is one of the releases and the one given, its dictionary has an entry for every artifact
  of every release and no other, every statement that assigns neither stays where it was; and where
  the printed file parses to what was printed, a second run over it changes nothing.
\<close>

theorem Write_rewrites:
  assumes "tv_Parse x path s = Inr f" "s \<noteq> []" "Write x path (Content s) cfg releases v = Inr out"
    and "g = tool_file cfg releases v f" "tv_Parse x path (tv_Format x g) = Inr g" "tv_Format x g \<noteq> []"
  shows "\<exists>entries. out = tv_Format x g \<and> v \<in> set (map tr_Version releases) \<and>
    lookup_assign g ''DEFAULT_VERSION'' = Some (StringExpr v) \<and>
    lookup_assign g (versionsVar (cfg_Tool cfg)) = Some (DictExpr True entries) \<and>
    (\<forall>kv. kv \<in> set entries \<longleftrightarrow> listed releases kv) \<and>
    others [''DEFAULT_VERSION'', versionsVar (cfg_Tool cfg)] g = others [''DEFAULT_VERSION'', versionsVar (cfg_Tool cfg)] f \<and>
    Write x path (Content out) cfg releases v = Inr out"
proof -
  have f: "out = tv_Format x g" "list_ex (\<lambda>r. tr_Version r = v) releases"
    using assms(1-4) by (auto simp: Write_def split: if_splits)
  obtain entries where e: "releasesToDict releases = DictExpr True entries"
    "\<forall>kv. kv \<in> set entries \<longleftrightarrow> listed releases kv"
    using releasesToDict_entries by blast
  note defs = assms(4) tool_file_def setStringAssign_def setDictAssign_def
  have look: "lookup_assign g ''DEFAULT_VERSION'' = Some (StringExpr v)"
    "lookup_assign g (versionsVar (cfg_Tool cfg)) = Some (DictExpr True entries)"
    using versionsVar_not_default [of "cfg_Tool cfg"] by (auto simp: defs lookup_setAssign e)
  have rest: "others [''DEFAULT_VERSION'', versionsVar (cfg_Tool cfg)] g
      = others [''DEFAULT_VERSION'', versionsVar (cfg_Tool cfg)] f"
    by (simp add: defs others_setAssign)
  have "Write x path (Content out) cfg releases v = Inr out"
    using assms f by (auto simp: Write_def tool_file_twice split: if_splits)
  moreover have "v \<in> set (map tr_Version releases)" using f(2) by (auto simp: list_ex_iff)
  ultimately show ?thesis using f(1) look rest e(2) by blast
qed

text \<open>The dictionary is in the order of the versions when those are numbers.\<close>

lemma releases_sorted:
  assumes "\<And>r. r \<in> set releases \<Longrightarrow> numeric_version (tr_Version r)"
  shows "sorted_wrt (\<lambda>a b. CompareVersions (tr_Version a) (tr_Version b) \<le> 0)
    (sort_stable (\<lambda>a b. CompareVersions (tr_Version a) (tr_Version b)) releases)"
  using assms
  by (intro three_way.sort_sorted [OF three_way_pullback [OF numeric_order.three_way_axioms]]) auto

section \<open>A concrete file\<close>

definition sample_releases :: "tool_release list" where
  "sample_releases =
     [\<lparr>tr_Version = ''10.0'', tr_Artifacts =
         [\<lparr>art_Platform = ''linux_amd64'', art_Filename = ''t-linux-amd64'', art_SHA256 = ''bb''\<rparr>]\<rparr>,
      \<lparr>tr_Version = ''9.0'', tr_Artifacts =
         [\<lparr>art_Platform = ''linux_amd64'', art_Filename = ''t-linux-amd64'', art_SHA256 = ''aa''\<rparr>]\<rparr>]"

definition sample_file :: "expr list" where
  "sample_file = [OtherExpr ''docstring'', AssignExpr (Ident ''DEFAULT_VERSION'') ''='' (StringExpr ''9.0'')]"

definition sample_config :: tool_config where
  "sample_config = \<lparr>cfg_Tool = ''t'', cfg_URLTemplate = ''https://x/%s/%s''\<rparr>"

definition sample_written :: "expr list" where
  "sample_written = tool_file sample_config sample_releases ''10.0'' sample_file"

text \<open>A printer and a parser that agree on this file.\<close>

definition sample_tools :: tool_world where
  "sample_tools = \<lparr>tv_Title = id, tv_Parse = (\<lambda>_ s. Inr (if s = ''old'' then sample_file else sample_written)),
     tv_Format = (\<lambda>_. ''new'')\<rparr>"

theorem Write_rewrites_witness:
  "\<exists>entries. ''new'' = tv_Format sample_tools sample_written \<and> ''10.0'' \<in> set (map tr_Version sample_releases) \<and>
    lookup_assign sample_written ''DEFAULT_VERSION'' = Some (StringExpr ''10.0'') \<and>
    lookup_assign sample_written (versionsVar (cfg_Tool sample_config)) = Some (DictExpr True entries) \<and>
    (\<forall>kv. kv \<in> set entries \<longleftrightarrow> listed sample_releases kv) \<and>
    others [''DEFAULT_VERSION'', versionsVar (cfg_Tool sample_config)] sample_written
      = others [''DEFAULT_VERSION'', versionsVar (cfg_Tool sample_config)] sample_file \<and>
    Write sample_tools ''versions.bzl'' (Content ''new'') sample_config sample_releases ''10.0'' = Inr ''new''"
  by (rule Write_rewrites [where s = "''old''" and f = sample_file])
    (simp_all add: sample_tools_def sample_written_def Write_def sample_config_def sample_releases_def)

end
