(* ===== verification/Knife.thy ===== *)
theory Knife
  imports Go_Path Go_Tar
begin

text \<open>
  What the commands of bazel/cmd/knife share: a path is taken relative to the workspace when
  bazel run names one (BUILD_WORKSPACE_DIRECTORY), and bazel/mod/mod.go runs \<open>bazel mod tidy\<close> there.
\<close>

definition workspace_path :: "string \<Rightarrow> string \<Rightarrow> string" where
  "workspace_path wsDir path =
     (if wsDir \<noteq> [] \<and> \<not> IsAbs path then path_Join [wsDir, path] else path)"

text \<open>A command as it is run: its words and its directory; the result has its combined output.\<close>

record process =
  pr_Args :: "string list"
  pr_Dir :: string

definition Tidy :: "(process \<Rightarrow> (string \<times> string) + string) \<Rightarrow> string \<Rightarrow> unit result" where
  "Tidy exec wsDir =
     (case exec \<lparr>pr_Args = [''bazel'', ''mod'', ''tidy'', ''--lockfile_mode=update''], pr_Dir = wsDir\<rparr> of
        Inl (err, output) \<Rightarrow> Inl (''bazel mod tidy failed: '' @ err @ [CHR 0x0A] @ ''Output: '' @ output)
      | Inr output \<Rightarrow> Inr ())"

end
