(* ===== verification/Go_Json_Laws.thy ===== *)
theory Go_Json_Laws
  imports Go_Json
begin

text \<open>
  What \<open>json.MarshalIndent\<close> writes, the reader of the package reads back: strings rune by rune,
  documents token by token. A string is well formed when it is UTF-8, a number when it is one of
  JSON's, a document when it nests no deeper than the reader allows.
\<close>

section \<open>Strings\<close>

definition rune_ok :: "string \<Rightarrow> bool" where
  "rune_ok r \<longleftrightarrow> (case r of [c] \<Rightarrow> byte c < 128 | _ \<Rightarrow> r \<noteq> [] \<and> list_all (\<lambda>c. 128 \<le> byte c) r)"

definition utf8_ok :: "string \<Rightarrow> bool" where
  "utf8_ok s \<longleftrightarrow> list_all rune_ok (runes s)"

lemma valid_utf8_ok: "utf8_ok s \<Longrightarrow> valid_utf8 s = s"
proof -
  assume "utf8_ok s"
  then have "map (\<lambda>r. case r of [c] \<Rightarrow> if byte c < 128 then r else replacement_char | _ \<Rightarrow> r) (runes s) = runes s"
    by (intro map_idI) (auto simp: utf8_ok_def list_all_iff rune_ok_def split: list.splits)
  then show ?thesis unfolding valid_utf8_def by (simp add: concat_runes)
qed

lemma hex_val_char: "d < 16 \<Longrightarrow> hex_val (hex_char_of d) = Some d"
  by (cases "d < 10") (simp_all add: hex_val_def hex_char_of_def byte_char_of Let_def nat_diff_distrib)

lemma hex_char_plain: "d < 16 \<Longrightarrow> 32 \<le> byte (hex_char_of d) \<and> hex_char_of d \<noteq> CHR 0x22 \<and> hex_char_of d \<noteq> CHR 0x5C"
proof -
  assume d: "d < 16"
  then have b: "byte (hex_char_of d) = (if d < 10 then 48 + int d else 87 + int d)"
    by (simp add: hex_char_of_def byte_char_of)
  moreover have "byte CHR 0x22 = 34" "byte CHR 0x5C = 92" by (simp_all add: byte_def)
  ultimately show ?thesis using d by (auto split: if_splits)
qed

lemma hex4_escape:
  assumes "n < 65536"
  shows "hex4 (hex_char_of (n div 4096)) (hex_char_of (n div 256 mod 16)) (hex_char_of (n div 16 mod 16))
    (hex_char_of (n mod 16)) = Some n"
proof -
  have "n div 4096 < 16" using assms by auto
  moreover have "((n div 4096 * 16 + n div 256 mod 16) * 16 + n div 16 mod 16) * 16 + n mod 16 = n"
  proof -
    have "n div 4096 * 16 + n div 256 mod 16 = n div 256"
      using div_mult_mod_eq [of "n div 256" 16] by (simp add: div_mult2_eq [symmetric])
    moreover have "n div 256 * 16 + n div 16 mod 16 = n div 16"
      using div_mult_mod_eq [of "n div 16" 16] by (simp add: div_mult2_eq [symmetric])
    ultimately show ?thesis by simp
  qed
  ultimately show ?thesis by (simp add: hex4_def hex_val_char)
qed

lemma unquote_escape:
  assumes "n < 0xD800"
  shows "unquote_runs None (unicode_escape n @ s) = map_option (\<lambda>r. utf8 n @ r) (unquote_runs None s)"
  using assms hex4_escape [of n] by (simp add: unicode_escape_def flush_half_def)

lemma lex_escape:
  assumes "n < 65536"
  shows "json_tokens (InString acc) (unicode_escape n @ s) = json_tokens (InString (rev (unicode_escape n) @ acc)) s"
proof -
  have "n div 4096 < 16" using assms by auto
  then show ?thesis
    using hex_char_plain [of "n div 4096"] hex_char_plain [of "n div 256 mod 16"]
      hex_char_plain [of "n div 16 mod 16"] hex_char_plain [of "n mod 16"]
    by (simp add: unicode_escape_def byte_def)
qed

lemma byte_char_nat: "char_of (nat (byte c)) = c"
  by (simp add: byte_def)

text \<open>A quoted rune is passed over by the lexer, and is the rune when it is unquoted.\<close>

lemma quote_byte_read:
  assumes "byte c < 128"
  shows "unquote_runs None (quote_byte c @ s) = map_option (Cons c) (unquote_runs None s)"
    and "json_tokens (InString acc) (quote_byte c @ s) = json_tokens (InString (rev (quote_byte c) @ acc)) s"
proof -
  have n: "nat (byte c) < 128" using assms by (simp add: nat_less_iff byte_bounds)
  then have u: "utf8 (nat (byte c)) = [c]" by (simp add: utf8_def byte_char_nat)
  have e: "unquote_runs None (unicode_escape (nat (byte c)) @ s) = map_option (Cons c) (unquote_runs None s)"
    "json_tokens (InString acc) (unicode_escape (nat (byte c)) @ s)
       = json_tokens (InString (rev (unicode_escape (nat (byte c))) @ acc)) s"
    using unquote_escape [of "nat (byte c)" s] lex_escape [of "nat (byte c)" acc s] n u by simp_all
  show "unquote_runs None (quote_byte c @ s) = map_option (Cons c) (unquote_runs None s)"
    using e(1) assms by (simp add: quote_byte_def simple_escape_def flush_half_def)
  show "json_tokens (InString acc) (quote_byte c @ s) = json_tokens (InString (rev (quote_byte c) @ acc)) s"
    using e(2) assms by (simp add: quote_byte_def byte_def)
qed

lemma high_bytes_read:
  "list_all (\<lambda>c. 128 \<le> byte c) r \<Longrightarrow> unquote_runs None (r @ s) = map_option (\<lambda>t. r @ t) (unquote_runs None s)"
  "list_all (\<lambda>c. 128 \<le> byte c) r \<Longrightarrow> json_tokens (InString acc) (r @ s) = json_tokens (InString (rev r @ acc)) s"
proof -
  have b: "c \<noteq> CHR 0x5C \<and> c \<noteq> CHR 0x22" if "128 \<le> byte c" for c
    using that by (auto simp: byte_def)
  show "list_all (\<lambda>c. 128 \<le> byte c) r \<Longrightarrow> unquote_runs None (r @ s) = map_option (\<lambda>t. r @ t) (unquote_runs None s)"
  proof (induction r)
    case Nil
    show ?case by (cases "unquote_runs None s") simp_all
  next
    case (Cons c r)
    then show ?case by (cases "unquote_runs None s") (auto simp: b flush_half_def)
  qed
  show "list_all (\<lambda>c. 128 \<le> byte c) r \<Longrightarrow> json_tokens (InString acc) (r @ s) = json_tokens (InString (rev r @ acc)) s"
    by (induction r arbitrary: acc) (auto simp: b)
qed

lemma quote_rune_read:
  assumes "rune_ok r"
  shows "unquote_runs None (quote_rune r @ s) = map_option (\<lambda>t. r @ t) (unquote_runs None s)"
    and "json_tokens (InString acc) (quote_rune r @ s) = json_tokens (InString (rev (quote_rune r) @ acc)) s"
proof -
  consider c where "r = [c]" "byte c < 128" | "length r \<noteq> 1" "list_all (\<lambda>c. 128 \<le> byte c) r"
    using assms by (auto simp: rune_ok_def split: list.splits)
  then have "unquote_runs None (quote_rune r @ s) = map_option (\<lambda>t. r @ t) (unquote_runs None s) \<and>
    json_tokens (InString acc) (quote_rune r @ s) = json_tokens (InString (rev (quote_rune r) @ acc)) s"
  proof cases
    case 1
    then show ?thesis using quote_byte_read by (simp add: quote_rune_def)
  next
    case 2
    then have q: "quote_rune r = (if r = utf8 0x2028 then unicode_escape 0x2028
        else if r = utf8 0x2029 then unicode_escape 0x2029 else r)"
      by (auto simp: quote_rune_def split: list.splits)
    show ?thesis
      unfolding q using unquote_escape [of "0x2028" s] unquote_escape [of "0x2029" s] lex_escape [of "0x2028" acc s]
        lex_escape [of "0x2029" acc s] high_bytes_read [OF 2(2)] by simp
  qed
  then show "unquote_runs None (quote_rune r @ s) = map_option (\<lambda>t. r @ t) (unquote_runs None s)"
    "json_tokens (InString acc) (quote_rune r @ s) = json_tokens (InString (rev (quote_rune r) @ acc)) s"
    by simp_all
qed

lemma quote_runes_read:
  assumes "list_all rune_ok rs"
  shows "unquote_runs None (concat (map quote_rune rs)) = Some (concat rs)"
    and "json_tokens (InString acc) (concat (map quote_rune rs) @ s)
      = json_tokens (InString (rev (concat (map quote_rune rs)) @ acc)) s"
  using assms
proof (induction rs arbitrary: acc)
  case Nil
  { case 1 show ?case by (simp add: flush_half_def) }
  { case 2 show ?case by simp }
next
  case (Cons r rs)
  { case 1 then show ?case using Cons by (simp add: quote_rune_read) }
  { case 2 then show ?case using Cons by (simp add: quote_rune_read) }
qed

lemma json_quote_read:
  assumes "utf8_ok k"
  shows "json_tokens Idle (json_quote k @ s) = map_option (Cons (TString k)) (json_tokens Idle s)"
proof -
  have sp: "\<not> json_space CHR 0x22" "\<not> json_punct CHR 0x22" by (simp_all add: json_space_def json_punct_def)
  note q = quote_runes_read [OF assms [unfolded utf8_ok_def]]
  show ?thesis
    unfolding json_quote_def using sp q(2) [of "[]" "CHR 0x22 # s"]
    by (simp add: q(1) concat_runes valid_utf8_ok [OF assms])
qed


section \<open>Documents\<close>

fun with_commas :: "token list list \<Rightarrow> token list" where
  "with_commas [] = []"
| "with_commas (x # xs) = x @ concat (map (Cons (TPunct CHR '','')) xs)"

fun tokens_of :: "json \<Rightarrow> token list" where
  "tokens_of JNull = [TWord ''null'']"
| "tokens_of (JBool b) = [TWord (if b then ''true'' else ''false'')]"
| "tokens_of (JNumber n) = [TWord n]"
| "tokens_of (JString s) = [TString s]"
| "tokens_of (JArray vs) = TPunct CHR ''['' # with_commas (map tokens_of vs) @ [TPunct CHR '']'']"
| "tokens_of (JObject kvs) =
     TPunct CHR ''{'' # with_commas (map (\<lambda>(k, v). TString k # TPunct CHR '':'' # tokens_of v) kvs)
       @ [TPunct CHR ''}'']"

definition word_char :: "char \<Rightarrow> bool" where
  "word_char c \<longleftrightarrow> \<not> json_space c \<and> \<not> json_punct c \<and> c \<noteq> CHR 0x22"

definition number_text :: "string \<Rightarrow> bool" where
  "number_text n \<longleftrightarrow> number_ok n \<and> n \<noteq> [] \<and> list_all word_char n"

fun json_ok :: "int \<Rightarrow> json \<Rightarrow> bool" where
  "json_ok d JNull = True"
| "json_ok d (JBool b) = True"
| "json_ok d (JNumber n) = number_text n"
| "json_ok d (JString s) = utf8_ok s"
| "json_ok d (JArray vs) = (0 < d \<and> (\<forall>v \<in> set vs. json_ok (d - 1) v))"
| "json_ok d (JObject kvs) = (0 < d \<and> (\<forall>(k, v) \<in> set kvs. utf8_ok k \<and> json_ok (d - 1) v))"

text \<open>What may stand behind a word.\<close>

definition delimited :: "string \<Rightarrow> bool" where
  "delimited s \<longleftrightarrow> (case s of [] \<Rightarrow> True | c # _ \<Rightarrow> json_space c \<or> json_punct c)"

lemma lex_word_rest:
  "list_all word_char w \<Longrightarrow> delimited s \<Longrightarrow>
     json_tokens (InWord acc) (w @ s) = map_option (Cons (TWord (rev acc @ w))) (json_tokens Idle s)"
proof (induction w arbitrary: acc)
  case Nil
  show ?case
  proof (cases s)
    case (Cons c r)
    then have "json_space c \<or> json_punct c" using Nil by (simp add: delimited_def)
    moreover have "json_space c \<Longrightarrow> \<not> json_punct c" by (auto simp: json_space_def json_punct_def)
    ultimately show ?thesis unfolding Cons by (cases "json_tokens Idle r") auto
  qed simp
qed (simp add: word_char_def)

lemma lex_word:
  "list_all word_char w \<Longrightarrow> w \<noteq> [] \<Longrightarrow> delimited s \<Longrightarrow>
     json_tokens Idle (w @ s) = map_option (Cons (TWord w)) (json_tokens Idle s)"
  using lex_word_rest [of "tl w" s "[hd w]"] by (cases w) (auto simp: word_char_def)

lemma lex_newline [simp]: "json_tokens Idle (newline_at d @ s) = json_tokens Idle s"
proof -
  have "json_tokens Idle (replicate n CHR '' '' @ s) = json_tokens Idle s" for n
    by (induction n) (simp_all add: json_space_def)
  then show ?thesis by (simp add: newline_at_def json_space_def)
qed

lemma delimited_newline [simp]: "delimited (newline_at d @ s)"
  by (simp add: newline_at_def delimited_def json_space_def)

lemma lex_punct [simp]:
  "json_punct c \<Longrightarrow> json_tokens Idle (c # s) = map_option (Cons (TPunct c)) (json_tokens Idle s)"
  by (auto simp: json_punct_def json_space_def)

lemma puncts [simp]:
  "json_punct CHR ''{''" "json_punct CHR ''}''" "json_punct CHR ''[''" "json_punct CHR '']''"
  "json_punct CHR '',''" "json_punct CHR '':''"
  by (simp_all add: json_punct_def)

declare json_tokens.simps [simp del]

definition reads_as :: "string \<Rightarrow> token list \<Rightarrow> bool" where
  "reads_as t ts \<longleftrightarrow> (\<forall>s. delimited s \<longrightarrow>
     json_tokens Idle (t @ s) = map_option (\<lambda>us. ts @ us) (json_tokens Idle s))"

lemma delimited_punct [simp]: "json_punct c \<Longrightarrow> delimited (c # s)"
  by (simp add: delimited_def)

lemma reads_as_nil: "reads_as [] []"
  unfolding reads_as_def
proof (intro allI impI)
  fix s show "json_tokens Idle ([] @ s) = map_option (\<lambda>us. [] @ us) (json_tokens Idle s)"
    by (cases "json_tokens Idle s") simp_all
qed

lemma reads_as_append:
  assumes "reads_as t ts" "reads_as u us" "\<And>s. delimited s \<Longrightarrow> delimited (u @ s)"
  shows "reads_as (t @ u) (ts @ us)"
  unfolding reads_as_def
proof (intro allI impI)
  fix s assume s: "delimited s"
  then have "json_tokens Idle (t @ u @ s) = map_option (\<lambda>v. ts @ v) (json_tokens Idle (u @ s))"
    using assms(1,3) by (simp add: reads_as_def)
  also have "json_tokens Idle (u @ s) = map_option (\<lambda>v. us @ v) (json_tokens Idle s)"
    using assms(2) s by (simp add: reads_as_def)
  finally show "json_tokens Idle ((t @ u) @ s) = map_option (\<lambda>v. (ts @ us) @ v) (json_tokens Idle s)"
    by (cases "json_tokens Idle s") simp_all
qed

lemma reads_as_token:
  assumes "\<And>s. delimited s \<Longrightarrow> json_tokens Idle (t @ s) = map_option (Cons k) (json_tokens Idle s)"
  shows "reads_as t [k]"
  unfolding reads_as_def
proof (intro allI impI)
  fix s assume "delimited s"
  then show "json_tokens Idle (t @ s) = map_option (\<lambda>us. [k] @ us) (json_tokens Idle s)"
    using assms by (cases "json_tokens Idle s") simp_all
qed

lemma reads_as_punct: "json_punct c \<Longrightarrow> reads_as [c] [TPunct c]"
  by (rule reads_as_token) simp

lemma reads_as_Cons:
  assumes "reads_as t ts" "json_punct c"
  shows "reads_as (c # t) (TPunct c # ts)"
  unfolding reads_as_def
proof (intro allI impI)
  fix s assume "delimited s"
  then show "json_tokens Idle ((c # t) @ s) = map_option (\<lambda>us. (TPunct c # ts) @ us) (json_tokens Idle s)"
    using assms by (cases "json_tokens Idle s") (simp_all add: reads_as_def)
qed

lemma reads_as_newline: "reads_as t ts \<Longrightarrow> reads_as (newline_at d @ t) ts"
  by (simp add: reads_as_def)

lemma reads_as_items:
  assumes "\<And>x. x \<in> set xs \<Longrightarrow> reads_as (f x) (g x)"
  shows "reads_as (join '','' (map f xs)) (with_commas (map g xs))"
  using assms
proof (induction xs rule: induct_list012)
  case 1
  show ?case by (simp add: reads_as_nil)
next
  case (2 x)
  then show ?case by simp
next
  case (3 x y zs)
  have "reads_as (join '','' (map f (y # zs))) (with_commas (map g (y # zs)))"
    using 3 by auto
  then have "reads_as ('','' @ join '','' (map f (y # zs))) ([TPunct CHR '',''] @ with_commas (map g (y # zs)))"
    using reads_as_Cons by simp
  then have "reads_as (f x @ '','' @ join '','' (map f (y # zs)))
      (g x @ [TPunct CHR '',''] @ with_commas (map g (y # zs)))"
    by (rule reads_as_append [OF 3(3) [of x, simplified]]) simp
  then show ?case by simp
qed

lemma reads_as_bracket:
  assumes "reads_as t ts" "json_punct a" "json_punct b"
  shows "reads_as (a # t @ newline_at d @ [b]) (TPunct a # ts @ [TPunct b])"
proof -
  have "reads_as (t @ newline_at d @ [b]) (ts @ [TPunct b])"
    using assms(1) reads_as_newline [OF reads_as_punct [OF assms(3)]] by (rule reads_as_append) simp
  then show ?thesis using assms(2) by (rule reads_as_Cons)
qed

lemma reads_as_member:
  assumes "utf8_ok k" "reads_as t ts"
  shows "reads_as (json_quote k @ '': '' @ t) (TString k # TPunct CHR '':'' # ts)"
proof -
  have "json_tokens Idle (CHR '' '' # s) = json_tokens Idle s" for s
    by (simp add: json_tokens.simps json_space_def)
  then have "reads_as ('' '' @ t) ts" using assms(2) by (simp add: reads_as_def)
  then have "reads_as ('':'' @ '' '' @ t) (TPunct CHR '':'' # ts)" using reads_as_Cons by simp
  then have "reads_as (json_quote k @ '':'' @ '' '' @ t) ([TString k] @ TPunct CHR '':'' # ts)"
    by (rule reads_as_append [OF reads_as_token [OF json_quote_read [OF assms(1)]]]) simp
  then show ?thesis by simp
qed

lemma marshal_reads_as: "json_ok d j \<Longrightarrow> reads_as (marshal_indent k j) (tokens_of j)"
proof (induction k j arbitrary: d rule: marshal_indent.induct)
  case (1 k)
  have "list_all word_char ''null''" by (simp add: word_char_def json_space_def json_punct_def)
  then have "reads_as ''null'' [TWord ''null'']" by (intro reads_as_token lex_word) simp_all
  then show ?case by simp
next
  case (2 k b)
  have "list_all word_char ''true''" "list_all word_char ''false''"
    by (simp_all add: word_char_def json_space_def json_punct_def)
  then have "reads_as ''true'' [TWord ''true'']" "reads_as ''false'' [TWord ''false'']"
    by (intro reads_as_token lex_word; simp)+
  then show ?case by simp
next
  case (3 k n)
  then have "reads_as n [TWord n]" by (intro reads_as_token lex_word) (simp_all add: number_text_def)
  then show ?case by simp
next
  case (4 k s)
  then have "reads_as (json_quote s) [TString s]" by (intro reads_as_token json_quote_read) simp
  then show ?case by simp
next
  case (5 k vs)
  show ?case
  proof (cases "vs = []")
    case True
    have "reads_as (''['' @ '']'') ([TPunct CHR ''[''] @ [TPunct CHR '']''])"
      by (intro reads_as_append reads_as_punct) simp_all
    then show ?thesis using True by simp
  next
    case False
    have "reads_as (newline_at (Suc k) @ marshal_indent (Suc k) v) (tokens_of v)" if "v \<in> set vs" for v
      using 5 False that by (intro reads_as_newline) auto
    from reads_as_bracket [OF reads_as_items [OF this], where a = "CHR ''[''" and b = "CHR '']''" and d = k] False
    show ?thesis by simp
  qed
next
  case (6 k kvs)
  show ?case
  proof (cases "kvs = []")
    case True
    have "reads_as (''{'' @ ''}'') ([TPunct CHR ''{''] @ [TPunct CHR ''}''])"
      by (intro reads_as_append reads_as_punct) simp_all
    then show ?thesis using True by simp
  next
    case False
    have "reads_as (newline_at (Suc k) @ json_quote key @ '': '' @ marshal_indent (Suc k) v)
        (TString key # TPunct CHR '':'' # tokens_of v)" if "(key, v) \<in> set kvs" for key v
      using 6 False that by (intro reads_as_newline reads_as_member) auto
    then have "reads_as (case kv of (key, v) \<Rightarrow> newline_at (Suc k) @ json_quote key @ '': '' @ marshal_indent (Suc k) v)
        (case kv of (key, v) \<Rightarrow> TString key # TPunct CHR '':'' # tokens_of v)" if "kv \<in> set kvs" for kv
      using that by (cases kv) simp
    from reads_as_bracket [OF reads_as_items [OF this], where a = "CHR ''{''" and b = "CHR ''}''" and d = k] False
    show ?thesis by simp
  qed
qed

section \<open>From tokens to a value\<close>

lemma number_not_word: "number_text n \<Longrightarrow> word_value n = Some (JNumber n)"
proof -
  assume n: "number_text n"
  then have "takeWhile isDigit (case n of c # r \<Rightarrow> if c = CHR ''-'' then r else n | [] \<Rightarrow> n) \<noteq> []"
    by (simp add: number_text_def number_ok_def Let_def)
  then have "n \<noteq> ''null''" "n \<noteq> ''true''" "n \<noteq> ''false''"
    by (auto simp: isDigit_def byte_def)
  then show ?thesis using n by (simp add: word_value_def number_text_def)
qed

text \<open>
  From a place where a value may stand, the tokens of a value lead to the place after it; the
  first value of an array opens its frame.
\<close>

definition opened :: "parse_mode \<Rightarrow> frame list \<Rightarrow> frame list" where
  "opened m st = (if m = PFirst then FArray [] # st else st)"

definition runs_to :: "int \<Rightarrow> token list \<Rightarrow> json \<Rightarrow> bool" where
  "runs_to n us j \<longleftrightarrow> (\<forall>st ts m. m = PValue \<or> m = PFirst \<longrightarrow>
     json_run (us @ ts) st n [] m = json_run ts (opened m st) n [] (PAfter j))"

lemma runs_toD:
  "runs_to n us j \<Longrightarrow> json_run (us @ ts) st n [] PValue = json_run ts st n [] (PAfter j)"
  "runs_to n us j \<Longrightarrow> json_run (us @ ts) st n [] PFirst = json_run ts (FArray [] # st) n [] (PAfter j)"
  by (simp_all add: runs_to_def opened_def)

lemma runs_to_elements:
  assumes "\<And>v. v \<in> set vs \<Longrightarrow> runs_to n (tokens_of v) v"
  shows "json_run (concat (map (\<lambda>v. TPunct CHR '','' # tokens_of v) vs) @ TPunct CHR '']'' # ts)
      (FArray acc # st) n [] (PAfter v)
    = json_run ts st (n + 1) [] (PAfter (JArray (rev acc @ v # vs)))"
  using assms
proof (induction vs arbitrary: acc v)
  case (Cons w vs)
  then have "runs_to n (tokens_of w) w" by simp
  then have "json_run (tokens_of w @ us) (FArray (v # acc) # st) n [] PValue
      = json_run us (FArray (v # acc) # st) n [] (PAfter w)" for us
    by (simp add: runs_to_def opened_def)
  then show ?case using Cons.IH [of "v # acc" w] Cons.prems by simp
qed simp

lemma runs_to_members:
  assumes "\<And>k v. (k, v) \<in> set kvs \<Longrightarrow> runs_to n (tokens_of v) v"
  shows "json_run (concat (map (\<lambda>(k, v). TPunct CHR '','' # TString k # TPunct CHR '':'' # tokens_of v) kvs)
        @ TPunct CHR ''}'' # ts) (FObject acc k # st) n [] (PAfter v)
    = json_run ts st (n + 1) [] (PAfter (JObject (rev acc @ (k, v) # kvs)))"
  using assms
proof (induction kvs arbitrary: acc k v)
  case (Cons kv kvs)
  obtain l w where kv: "kv = (l, w)" by (cases kv)
  then have "runs_to n (tokens_of w) w" using Cons.prems [of l w] by simp
  then have "json_run (tokens_of w @ us) (FObject ((k, v) # acc) l # st) n [] PValue
      = json_run us (FObject ((k, v) # acc) l # st) n [] (PAfter w)" for us
    by (simp add: runs_to_def opened_def)
  moreover have "runs_to n (tokens_of u) u" if "(i, u) \<in> set kvs" for i u
    using Cons.prems [of i u] that by simp
  ultimately show ?case using Cons.IH [of "(k, v) # acc" l w] by (simp add: kv)
qed simp

lemma runs_to_tokens: "json_ok n j \<Longrightarrow> runs_to n (tokens_of j) j"
proof (induction n j rule: json_ok.induct)
  case (1 d)
  show ?case by (auto simp: runs_to_def opened_def word_value_def)
next
  case (2 d b)
  show ?case by (auto simp: runs_to_def opened_def word_value_def)
next
  case (3 d n)
  then show ?case by (auto simp: runs_to_def opened_def number_not_word)
next
  case (4 d s)
  show ?case by (auto simp: runs_to_def opened_def)
next
  case (5 d vs)
  have v: "runs_to (d - 1) (tokens_of v) v" if "v \<in> set vs" for v
    using 5 that by simp
  show ?case
  proof (cases vs)
    case Nil
    then show ?thesis using 5 by (auto simp: runs_to_def opened_def Let_def)
  next
    case (Cons w ws)
    then have w: "runs_to (d - 1) (tokens_of w) w"
      and ws: "\<And>v. v \<in> set ws \<Longrightarrow> runs_to (d - 1) (tokens_of v) v" using v by simp_all
    note es = runs_to_elements [OF ws, where acc = "[]" and v = w, simplified]
    show ?thesis
      using 5(2) by (auto simp: runs_to_def opened_def Let_def comp_def Cons runs_toD(2) [OF w] es)
  qed
next
  case (6 d kvs)
  have v: "runs_to (d - 1) (tokens_of v) v" if "(k, v) \<in> set kvs" for k v
    using 6 that by fastforce
  show ?case
  proof (cases kvs)
    case Nil
    then show ?thesis using 6 by (auto simp: runs_to_def opened_def Let_def)
  next
    case (Cons kv ws)
    obtain k w where kv: "kv = (k, w)" by (cases kv)
    then have w: "runs_to (d - 1) (tokens_of w) w"
      and ws: "\<And>l v. (l, v) \<in> set ws \<Longrightarrow> runs_to (d - 1) (tokens_of v) v" using v Cons by auto
    note es = runs_to_members [OF ws, where acc = "[]" and v = w, simplified, unfolded case_prod_unfold]
    show ?thesis
      using 6(2)
      by (auto simp: runs_to_def opened_def Let_def comp_def Cons kv runs_toD(1) [OF w] es case_prod_unfold)
  qed
qed

lemma parse_marshal:
  assumes "json_ok max_depth j" "delimited s" "json_tokens Idle s = Some []"
  shows "parse_json (marshal_indent k j @ s) = Some j"
proof -
  have "json_tokens Idle (marshal_indent k j @ s) = Some (tokens_of j)"
    using marshal_reads_as [OF assms(1)] assms(2,3) by (simp add: reads_as_def)
  moreover have "json_run (tokens_of j @ []) [] max_depth [] PValue = Some j"
    unfolding runs_toD(1) [OF runs_to_tokens [OF assms(1)]] by simp
  ultimately show ?thesis by (simp add: parse_json_def)
qed

lemma parse_marshal_newline: "json_ok max_depth j \<Longrightarrow> parse_json (marshal_indent 0 j @ [CHR 0x0A]) = Some j"
  by (rule parse_marshal) (simp_all add: delimited_def json_tokens.simps json_space_def)

interpretation document: round_trip "\<lambda>j. marshal_indent 0 j @ [CHR 0x0A]" parse_json "json_ok max_depth"
  by unfold_locales (rule parse_marshal_newline)

end
