(* ===== verification/Tarballs.thy ===== *)
theory Tarballs
  imports Knife Go_Json_Laws Go_Bufio Go_Url
begin

text \<open>
  bazel/tarballs: the lockfile of the upstream runtimes (nodejs.org, Temurin) and its update to the
  newest releases; bazel/cmd/knife/cmd/tarballs/update.go is the command around it. A Go map is an
  association list in the order of its keys, without repetition; a nil map is not told from an
  empty one. The network is a function from a URL to a status and a body.
\<close>

section \<open>The lockfile\<close>

record archive_pin =
  ap_URL :: string
  ap_SHA256 :: string
  ap_StripPrefix :: string

record line_pin =
  ln_Major :: string
  ln_Version :: string
  ln_Build :: string
  ln_Archives :: "(string \<times> archive_pin) list"

record tarball_lock =
  tl_SchemaVersion :: int
  tl_Source :: string
  tl_Lines :: "line_pin list"

fun map_put :: "string \<Rightarrow> 'a \<Rightarrow> (string \<times> 'a) list \<Rightarrow> (string \<times> 'a) list" where
  "map_put k v [] = [(k, v)]"
| "map_put k v ((l, w) # m) =
     (if k < l then (k, v) # (l, w) # m else if k = l then (k, v) # m else (l, w) # map_put k v m)"

definition dec_map :: "'a decoder \<Rightarrow> (string \<times> 'a) list decoder" where
  "dec_map d j = map_option (foldl (\<lambda>m (k, v). map_put k v m) []) (dec_members d j)"

definition dec_archive :: "archive_pin decoder" where
  "dec_archive =
     dec_struct (\<lambda>fs.
       Option.bind (dec_field fs ''url'' dec_string) (\<lambda>url.
       Option.bind (dec_field fs ''sha256'' dec_string) (\<lambda>sha.
       Option.bind (dec_field fs ''strip_prefix'' dec_string) (\<lambda>strip.
         Some \<lparr>ap_URL = url, ap_SHA256 = sha, ap_StripPrefix = strip\<rparr>))))"

definition dec_line :: "line_pin decoder" where
  "dec_line =
     dec_struct (\<lambda>fs.
       Option.bind (dec_field fs ''major'' dec_string) (\<lambda>major.
       Option.bind (dec_field fs ''version'' dec_string) (\<lambda>version.
       Option.bind (dec_field fs ''build'' dec_string) (\<lambda>build.
       Option.bind (dec_field fs ''archives'' (dec_map dec_archive)) (\<lambda>archives.
         Some \<lparr>ln_Major = major, ln_Version = version, ln_Build = build, ln_Archives = archives\<rparr>)))))"

definition dec_lock :: "tarball_lock decoder" where
  "dec_lock =
     dec_struct (\<lambda>fs.
       Option.bind (dec_field fs ''schema_version'' dec_int) (\<lambda>schema.
       Option.bind (dec_field fs ''source'' dec_string) (\<lambda>source.
       Option.bind (dec_field fs ''lines'' (dec_list dec_line)) (\<lambda>lns.
         Some \<lparr>tl_SchemaVersion = schema, tl_Source = source, tl_Lines = lns\<rparr>))))"

definition schemaVersion :: int where "schemaVersion = 1"

definition ReadLock :: "string \<Rightarrow> string result \<Rightarrow> tarball_lock result" where
  "ReadLock path content =
     and_then content (\<lambda>raw.
       case unmarshal dec_lock raw of
         None \<Rightarrow> Inl (''parse '' @ path)
       | Some lock \<Rightarrow>
           if tl_SchemaVersion lock \<noteq> schemaVersion
           then Inl (path @ '': unsupported schema_version '' @ itoa_int (tl_SchemaVersion lock))
           else Inr lock)"

definition archive_json :: "archive_pin \<Rightarrow> json" where
  "archive_json a =
     JObject [(''url'', JString (ap_URL a)), (''sha256'', JString (ap_SHA256 a)),
              (''strip_prefix'', JString (ap_StripPrefix a))]"

text \<open>An empty build counter is left out.\<close>

definition line_json :: "line_pin \<Rightarrow> json" where
  "line_json l =
     JObject ([(''major'', JString (ln_Major l)), (''version'', JString (ln_Version l))]
       @ (if ln_Build l = [] then [] else [(''build'', JString (ln_Build l))])
       @ [(''archives'', JObject (map (\<lambda>(k, a). (k, archive_json a)) (ln_Archives l)))])"

definition tarball_lock_json :: "tarball_lock \<Rightarrow> json" where
  "tarball_lock_json l =
     JObject [(''schema_version'', JNumber (itoa_int (tl_SchemaVersion l))), (''source'', JString (tl_Source l)),
              (''lines'', JArray (map line_json (tl_Lines l)))]"

definition Lock_Write :: "tarball_lock \<Rightarrow> string" where
  "Lock_Write l = marshal_indent 0 (tarball_lock_json l) @ [CHR 0x0A]"

section \<open>Upstream\<close>

type_synonym http_client = "string \<Rightarrow> (int \<times> string result) result"

definition http_body :: "http_client \<Rightarrow> string \<Rightarrow> string result result" where
  "http_body x url =
     and_then (x url) (\<lambda>(status, body).
       if status \<noteq> 200 then Inl (''GET '' @ url @ '': '' @ itoa_int status) else Inr body)"

text \<open>
  A \<open>json.Decoder\<close> reads the first value of its input and no further; for an array or an object that
  is the shortest prefix that is a document.
\<close>

definition first_document :: "string \<Rightarrow> json option" where
  "first_document s =
     (case find (\<lambda>n. parse_json (take n s) \<noteq> None) [0..<Suc (length s)] of
        None \<Rightarrow> None
      | Some n \<Rightarrow> parse_json (take n s))"

definition getJSON :: "http_client \<Rightarrow> string \<Rightarrow> 'a decoder \<Rightarrow> 'a result" where
  "getJSON x url d =
     and_then (http_body x url) (\<lambda>body.
       case body of
         Inl err \<Rightarrow> Inl (''decode '' @ url @ '': '' @ err)
       | Inr b \<Rightarrow>
           (case Option.bind (first_document b) d of
              None \<Rightarrow> Inl (''decode '' @ url)
            | Some v \<Rightarrow> Inr v))"

section \<open>nodejs.org\<close>

definition nodeArches :: "(string \<times> string) list" where
  "nodeArches = [(''amd64'', ''x64''), (''arm64'', ''arm64'')]"

fun newest_on_line :: "string \<Rightarrow> string list \<Rightarrow> string" where
  "newest_on_line major [] = []"
| "newest_on_line major (v # vs) =
     (if has_prefix v (''v'' @ major @ ''.'') then trim_prefix v ''v'' else newest_on_line major vs)"

definition sum_line :: "(string \<Rightarrow> string option) \<Rightarrow> string \<Rightarrow> string \<Rightarrow> string option" where
  "sum_line sums line = (case fields_of line of [sha, file] \<Rightarrow> sums(file \<mapsto> sha) | _ \<Rightarrow> sums)"

definition shasums :: "http_client \<Rightarrow> string \<Rightarrow> string \<Rightarrow> (string \<Rightarrow> string option) result" where
  "shasums x base version =
     and_then (http_body x (base @ ''/v'' @ version @ ''/SHASUMS256.txt'')) (\<lambda>body.
     and_then body (\<lambda>b.
       if scan_ok 65536 b then Inr (foldl sum_line Map.empty (scan_lines 65536 b))
       else Inl ''bufio.Scanner: token too long''))"

fun node_archives ::
  "string \<Rightarrow> string \<Rightarrow> string \<Rightarrow> (string \<Rightarrow> string option) \<Rightarrow> (string \<times> string) list
     \<Rightarrow> (string \<times> archive_pin) list \<Rightarrow> (string \<times> archive_pin) list result" where
  "node_archives base major version sums [] archives = Inr archives"
| "node_archives base major version sums ((bazel, node) # arches) archives =
     (let stem = ''node-v'' @ version @ ''-linux-'' @ node; file = stem @ ''.tar.xz''
      in case sums file of
           None \<Rightarrow> Inl (''nodejs: '' @ file @ '' missing from SHASUMS256.txt of v'' @ version)
         | Some sha \<Rightarrow>
             node_archives base major version sums arches
               (map_put (''nodejs_'' @ major @ ''_'' @ bazel)
                  \<lparr>ap_URL = base @ ''/v'' @ version @ ''/'' @ file, ap_SHA256 = sha, ap_StripPrefix = stem\<rparr> archives))"

definition dec_node_release :: "string decoder" where
  "dec_node_release = dec_struct (\<lambda>fs. dec_field fs ''version'' dec_string)"

definition NodeJS_Latest :: "http_client \<Rightarrow> string \<Rightarrow> string \<Rightarrow> line_pin result" where
  "NodeJS_Latest x base major =
     and_then (getJSON x (base @ ''/index.json'') (dec_list dec_node_release)) (\<lambda>index.
       let version = newest_on_line major index
       in if version = [] then Inl (''nodejs: no release of the '' @ major @ '' line in index.json'')
          else
            and_then (shasums x base version) (\<lambda>sums.
            and_then (node_archives base major version sums nodeArches []) (\<lambda>archives.
              Inr \<lparr>ln_Major = major, ln_Version = version, ln_Build = [], ln_Archives = archives\<rparr>)))"

section \<open>Temurin\<close>

record temurin_asset =
  ta_ReleaseName :: string
  ta_Checksum :: string
  ta_Link :: string

definition dec_asset :: "temurin_asset decoder" where
  "dec_asset =
     dec_struct (\<lambda>fs.
       Option.bind (dec_field fs ''release_name'' dec_string) (\<lambda>name.
       Option.bind (dec_field fs ''binary'' (dec_struct (\<lambda>fs.
           dec_field fs ''package'' (dec_struct (\<lambda>fs.
             Option.bind (dec_field fs ''checksum'' dec_string) (\<lambda>sum.
             Option.bind (dec_field fs ''link'' dec_string) (\<lambda>link. Some (sum, link)))))))) (\<lambda>(sum, link).
         Some \<lparr>ta_ReleaseName = name, ta_Checksum = sum, ta_Link = link\<rparr>)))"

definition temurinArches :: "(string \<times> string) list" where
  "temurinArches = [(''amd64'', ''x64''), (''arm64'', ''aarch64'')]"

definition temurinImageTypes :: "string list" where
  "temurinImageTypes = [''jre'', ''jdk'']"

definition temurin_url :: "string \<Rightarrow> string \<Rightarrow> string \<Rightarrow> string \<Rightarrow> string" where
  "temurin_url base major imageType arch =
     base @ ''/assets/latest/'' @ major @ ''/hotspot?architecture='' @ QueryEscape arch
       @ ''&image_type='' @ QueryEscape imageType @ ''&os=linux&vendor=eclipse''"

definition latestAsset :: "http_client \<Rightarrow> string \<Rightarrow> string \<Rightarrow> string \<Rightarrow> string \<Rightarrow> temurin_asset result" where
  "latestAsset x base major imageType arch =
     and_then (getJSON x (temurin_url base major imageType arch) (dec_list dec_asset)) (\<lambda>assets.
       case assets of
         [a] \<Rightarrow> Inr a
       | _ \<Rightarrow> Inl (''temurin '' @ major @ '': expected one '' @ imageType @ '' '' @ arch @ '' asset, got ''
              @ itoa_int (int (length assets))))"

fun temurin_archives ::
  "http_client \<Rightarrow> string \<Rightarrow> string \<Rightarrow> (string \<times> string \<times> string) list \<Rightarrow> string \<Rightarrow> (string \<times> archive_pin) list
     \<Rightarrow> (string \<times> (string \<times> archive_pin) list) result" where
  "temurin_archives x base major [] release archives = Inr (release, archives)"
| "temurin_archives x base major ((imageType, bazel, arch) # rest) release archives =
     and_then (latestAsset x base major imageType arch) (\<lambda>a.
       if release \<noteq> [] \<and> ta_ReleaseName a \<noteq> release
       then Inl (''temurin '' @ major @ '': '' @ imageType @ '' '' @ arch @ '' is at '' @ ta_ReleaseName a
              @ '' while earlier assets are at '' @ release @ ''; release still rolling out'')
       else
         (let release = (if release = [] then ta_ReleaseName a else release)
          in temurin_archives x base major rest release
               (map_put (''temurin_'' @ imageType @ ''_'' @ major @ ''_'' @ bazel)
                  \<lparr>ap_URL = ta_Link a, ap_SHA256 = ta_Checksum a,
                   ap_StripPrefix = release @ (if imageType = ''jre'' then ''-jre'' else [])\<rparr> archives)))"

definition temurin_assets :: "(string \<times> string \<times> string) list" where
  "temurin_assets =
     concat (map (\<lambda>t. map (\<lambda>(bazel, arch). (t, bazel, arch)) temurinArches) temurinImageTypes)"

definition Temurin_Latest :: "http_client \<Rightarrow> string \<Rightarrow> string \<Rightarrow> line_pin result" where
  "Temurin_Latest x base major =
     and_then (temurin_archives x base major temurin_assets [] []) (\<lambda>(release, archives).
       case cut_byte (trim_prefix release ''jdk-'') CHR ''+'' of
         None \<Rightarrow> Inl (''temurin '' @ major @ '': unexpected release name '' @ release)
       | Some (version, build) \<Rightarrow>
           Inr \<lparr>ln_Major = major, ln_Version = version, ln_Build = build, ln_Archives = archives\<rparr>)"

section \<open>Updating\<close>

definition NewSource :: "http_client \<Rightarrow> string \<Rightarrow> (string \<Rightarrow> line_pin result) result" where
  "NewSource x name =
     (if name = ''nodejs'' then Inr (NodeJS_Latest x ''https://nodejs.org/dist'')
      else if name = ''temurin'' then Inr (Temurin_Latest x ''https://api.adoptium.net/v3'')
      else Inl (''unknown tarball source '' @ name))"

record line_change =
  lc_Major :: string
  lc_From :: string
  lc_To :: string

definition describe_line :: "line_pin \<Rightarrow> string" where
  "describe_line l = (if ln_Build l = [] then ln_Version l else ln_Version l @ ''+'' @ ln_Build l)"

definition Change_String :: "line_change \<Rightarrow> string" where
  "Change_String c = lc_Major c @ '': '' @ lc_From c @ '' -> '' @ lc_To c"

fun update_lines :: "(string \<Rightarrow> line_pin result) \<Rightarrow> line_pin list \<Rightarrow> (line_change list \<times> line_pin list) result" where
  "update_lines src [] = Inr ([], [])"
| "update_lines src (current # lns) =
     and_then (src (ln_Major current)) (\<lambda>latest.
     and_then (update_lines src lns) (\<lambda>(changes, lns').
       if current = latest then Inr (changes, current # lns')
       else
         Inr (\<lparr>lc_Major = ln_Major current, lc_From = describe_line current, lc_To = describe_line latest\<rparr> # changes,
              latest # lns')))"

definition tarballs_Update ::
  "(string \<Rightarrow> line_pin result) \<Rightarrow> tarball_lock \<Rightarrow> (line_change list \<times> tarball_lock) result" where
  "tarballs_Update src lock =
     and_then (update_lines src (tl_Lines lock)) (\<lambda>(changes, lns). Inr (changes, lock\<lparr>tl_Lines := lns\<rparr>))"

section \<open>The command\<close>

record tarballs_world =
  tw_Workspace :: string
  tw_Read :: "string \<Rightarrow> string result"
  tw_Write :: "string \<Rightarrow> string \<Rightarrow> unit result"
  tw_Get :: http_client
  tw_Exec :: "process \<Rightarrow> (string \<times> string) + string"

text \<open>The lines that changed; without any, nothing is written and nothing is run.\<close>

definition knife_tarballs_update :: "tarballs_world \<Rightarrow> string \<Rightarrow> string list result" where
  "knife_tarballs_update x lockFile =
     (let path = workspace_path (tw_Workspace x) lockFile
      in and_then (ReadLock path (tw_Read x path)) (\<lambda>lock.
         and_then (NewSource (tw_Get x) (tl_Source lock)) (\<lambda>src.
         and_then (tarballs_Update src lock) (\<lambda>(changes, lock').
           if changes = [] then Inr []
           else
             and_then (tw_Write x path (Lock_Write lock')) (\<lambda>_.
             and_then (case Tidy (tw_Exec x) (tw_Workspace x) of
                         Inl err \<Rightarrow> Inl (''failed to update lockfile: '' @ err)
                       | Inr u \<Rightarrow> Inr u) (\<lambda>_.
               Inr (map Change_String changes)))))))"


section \<open>A lockfile is read back as it was written\<close>

definition archive_ok :: "archive_pin \<Rightarrow> bool" where
  "archive_ok a \<longleftrightarrow> utf8_ok (ap_URL a) \<and> utf8_ok (ap_SHA256 a) \<and> utf8_ok (ap_StripPrefix a)"

definition line_ok :: "line_pin \<Rightarrow> bool" where
  "line_ok l \<longleftrightarrow> utf8_ok (ln_Major l) \<and> utf8_ok (ln_Version l) \<and> utf8_ok (ln_Build l) \<and>
     sorted_wrt (<) (map fst (ln_Archives l)) \<and> list_all (\<lambda>(k, a). utf8_ok k \<and> archive_ok a) (ln_Archives l)"

definition lock_ok :: "tarball_lock \<Rightarrow> bool" where
  "lock_ok l \<longleftrightarrow> tl_SchemaVersion l = schemaVersion \<and> utf8_ok (tl_Source l) \<and> list_all line_ok (tl_Lines l)"

definition lower_name :: "string \<Rightarrow> bool" where
  "lower_name s \<longleftrightarrow> to_lower s = s"

lemma equal_fold_lower: "lower_name a \<Longrightarrow> lower_name b \<Longrightarrow> equal_fold a b \<longleftrightarrow> a = b"
  by (simp add: lower_name_def equal_fold_def)

lemma lower_names:
  "lower_name ''url''" "lower_name ''sha256''" "lower_name ''strip_prefix''" "lower_name ''major''"
  "lower_name ''version''" "lower_name ''build''" "lower_name ''archives''" "lower_name ''schema_version''"
  "lower_name ''source''" "lower_name ''lines''"
  by code_simp+

lemmas dec_simps = dec_struct_def dec_field_def json_field_def equal_fold_lower lower_names dec_string_def

lemma dec_archive_json: "dec_archive (archive_json a) = Some a"
  by (simp add: dec_archive_def archive_json_def dec_simps)

lemma those_map_Some: "(\<And>x. x \<in> set xs \<Longrightarrow> f x = Some (g x)) \<Longrightarrow> those (map f xs) = Some (map g xs)"
  by (induction xs) auto

lemma map_put_last: "list_all (\<lambda>(l, w). l < k) m \<Longrightarrow> map_put k v m = m @ [(k, v)]"
  by (induction k v m rule: map_put.induct) auto

lemma foldl_map_put:
  "sorted_wrt (<) (map fst (m @ kvs)) \<Longrightarrow> foldl (\<lambda>m (k, v). map_put k v m) m kvs = m @ kvs"
proof (induction kvs arbitrary: m)
  case (Cons kv kvs)
  obtain k v where kv: "kv = (k, v)" by (cases kv)
  have "list_all (\<lambda>(l, w). l < k) m"
    using Cons.prems by (auto simp: kv sorted_wrt_append list_all_iff)
  then show ?case using Cons.IH [of "m @ [(k, v)]"] Cons.prems by (simp add: kv map_put_last)
qed simp

lemma dec_archives_json:
  assumes "sorted_wrt (<) (map fst kvs)"
  shows "dec_map dec_archive (JObject (map (\<lambda>(k, a). (k, archive_json a)) kvs)) = Some kvs"
proof -
  have "those (map (\<lambda>(k, v). map_option (Pair k) (dec_archive v)) (map (\<lambda>(k, a). (k, archive_json a)) kvs))
      = those (map (\<lambda>(k, a). Some (k, a)) kvs)"
    by (simp add: comp_def case_prod_unfold dec_archive_json)
  also have "\<dots> = Some kvs" using those_map_Some [of kvs "\<lambda>(k, a). Some (k, a)" id] by auto
  finally show ?thesis
    using foldl_map_put [of "[]" kvs] assms by (simp add: dec_map_def dec_members_def)
qed

lemma dec_line_json: "line_ok l \<Longrightarrow> dec_line (line_json l) = Some l"
  by (cases l) (simp add: dec_line_def line_json_def dec_simps line_ok_def dec_archives_json)

interpretation line_codec: round_trip line_json dec_line line_ok
  by unfold_locales (rule dec_line_json)

lemma dec_lock_json:
  assumes "lock_ok l"
  shows "dec_lock (tarball_lock_json l) = Some l"
proof -
  have "itoa_int 1 = ''1''" "atoi ''1'' = Some 1" by code_simp+
  moreover have "dec_list dec_line (JArray (map line_json (tl_Lines l))) = Some (tl_Lines l)"
    using assms line_codec.those_dec_enc unfolding dec_list_def json.case lock_ok_def by blast
  ultimately show ?thesis
    using assms by (simp add: dec_lock_def tarball_lock_json_def dec_simps dec_int_def lock_ok_def schemaVersion_def)
qed

lemma utf8_names:
  "utf8_ok ''url''" "utf8_ok ''sha256''" "utf8_ok ''strip_prefix''" "utf8_ok ''major''"
  "utf8_ok ''version''" "utf8_ok ''build''" "utf8_ok ''archives''" "utf8_ok ''schema_version''"
  "utf8_ok ''source''" "utf8_ok ''lines''"
  by code_simp+

lemma json_ok_archive: "archive_ok a \<Longrightarrow> 0 < d \<Longrightarrow> json_ok d (archive_json a)"
  by (simp add: archive_json_def archive_ok_def utf8_names)

lemma json_ok_line:
  assumes "line_ok l" "2 < d"
  shows "json_ok d (line_json l)"
proof -
  have "json_ok (d - 1) (JObject (map (\<lambda>(k, a). (k, archive_json a)) (ln_Archives l)))"
    using assms by (simp add: line_ok_def list_all_iff json_ok_archive case_prod_unfold)
  then show ?thesis using assms by (simp add: line_json_def line_ok_def utf8_names)
qed

lemma json_ok_lock:
  assumes "lock_ok l"
  shows "json_ok max_depth (tarball_lock_json l)"
proof -
  have "number_text (itoa_int 1)" by code_simp
  moreover have "json_ok (max_depth - 1) (JArray (map line_json (tl_Lines l)))"
    using assms json_ok_line by (simp add: lock_ok_def list_all_iff max_depth_def)
  moreover have "0 < max_depth" by (simp add: max_depth_def)
  ultimately show ?thesis
    using assms by (simp add: tarball_lock_json_def lock_ok_def utf8_names schemaVersion_def)
qed

interpretation lock_file: round_trip Lock_Write "unmarshal dec_lock" lock_ok
proof
  fix l assume l: "lock_ok l"
  show "unmarshal dec_lock (Lock_Write l) = Some l"
    using document.dec_enc [OF json_ok_lock [OF l]] dec_lock_json [OF l] by (simp add: unmarshal_def Lock_Write_def)
qed

text \<open>
  C34: a lockfile is read back as it was written, whatever text its fields hold: no line, archive or
  build counter is lost between an update and the next.
\<close>

theorem ReadLock_Write:
  assumes "lock_ok l"
  shows "ReadLock path (Inr (Lock_Write l)) = Inr l"
  using lock_file.dec_enc [OF assms] assms by (simp add: ReadLock_def lock_ok_def)

section \<open>An update\<close>

text \<open>The interface \<open>Source\<close>: what is returned for a line is on that line.\<close>

locale line_source =
  fixes src :: "string \<Rightarrow> line_pin result"
  assumes major: "src m = Inr l \<Longrightarrow> ln_Major l = m"
begin

lemma lines_settled:
  "update_lines src lns = Inr (changes, lns') \<Longrightarrow>
     map ln_Major lns' = map ln_Major lns \<and> update_lines src lns' = Inr ([], lns') \<and>
     (changes = [] \<longleftrightarrow> lns' = lns)"
proof (induction lns arbitrary: changes lns')
  case (Cons current lns)
  then obtain latest cs ls where u: "src (ln_Major current) = Inr latest" "update_lines src lns = Inr (cs, ls)"
    and r: "(changes, lns') = (if current = latest then (cs, current # ls) else
      (\<lparr>lc_Major = ln_Major current, lc_From = describe_line current, lc_To = describe_line latest\<rparr> # cs, latest # ls))"
    by (auto split: if_splits)
  show ?case using Cons.IH [OF u(2)] major [OF u(1)] u r by (auto split: if_splits)
qed simp

lemma update_lines_latest:
  "update_lines src lns = Inr (changes, lns') \<Longrightarrow> l \<in> set lns' \<Longrightarrow> src (ln_Major l) = Inr l"
proof (induction lns arbitrary: changes lns')
  case (Cons current lns)
  then obtain latest cs ls where u: "src (ln_Major current) = Inr latest" "update_lines src lns = Inr (cs, ls)"
    by (auto split: if_splits)
  then have "lns' = latest # ls" using Cons.prems(1) by (auto split: if_splits)
  then show ?case using Cons.IH [OF u(2)] Cons.prems(2) major [OF u(1)] u(1) by auto
qed simp

lemma settled:
  assumes "tarballs_Update src lock = Inr (changes, lock')"
  shows "map ln_Major (tl_Lines lock') = map ln_Major (tl_Lines lock) \<and> tarballs_Update src lock' = Inr ([], lock') \<and>
    (changes = [] \<longleftrightarrow> lock' = lock) \<and> (\<forall>l. l \<in> set (tl_Lines lock') \<longrightarrow> src (ln_Major l) = Inr l)"
proof -
  obtain lns where u: "update_lines src (tl_Lines lock) = Inr (changes, lns)" "lock' = lock\<lparr>tl_Lines := lns\<rparr>"
    using assms by (auto simp: tarballs_Update_def)
  then show ?thesis
    using lines_settled [OF u(1)] update_lines_latest [OF u(1)]
    by (cases lock) (auto simp: tarballs_Update_def)
qed

end

interpretation nodejs: line_source "NodeJS_Latest x base" for x base
  by unfold_locales (auto simp: NodeJS_Latest_def Let_def split: if_splits)

interpretation temurin: line_source "Temurin_Latest x base" for x base
  by unfold_locales (auto simp: Temurin_Latest_def split: option.splits)

text \<open>
  C35: an update, from either upstream, neither adds nor drops a release line; it leaves every line
  as the upstream has it; nothing changed exactly if no change is reported; and a second
  update against the same upstream reports none.
\<close>

theorem Update_settled:
  assumes "NewSource x name = Inr src" "tarballs_Update src lock = Inr (changes, lock')"
  shows "map ln_Major (tl_Lines lock') = map ln_Major (tl_Lines lock) \<and> tarballs_Update src lock' = Inr ([], lock') \<and>
    (changes = [] \<longleftrightarrow> lock' = lock) \<and> (\<forall>l. l \<in> set (tl_Lines lock') \<longrightarrow> src (ln_Major l) = Inr l)"
proof -
  consider "src = NodeJS_Latest x ''https://nodejs.org/dist''" | "src = Temurin_Latest x ''https://api.adoptium.net/v3''"
    using assms(1) by (auto simp: NewSource_def split: if_splits)
  then show ?thesis
  proof cases
    case 1
    then show ?thesis using nodejs.settled assms(2) by simp
  next
    case 2
    then show ?thesis using temurin.settled assms(2) by simp
  qed
qed

section \<open>A release is taken whole or not at all\<close>

lemma map_of_map_put: "map_of (map_put k v m) l = (if l = k then Some v else map_of m l)"
  by (induction k v m rule: map_put.induct) auto

declare map_put.simps [simp del]

definition temurin_key :: "string \<Rightarrow> string \<Rightarrow> string \<Rightarrow> string" where
  "temurin_key major imageType bazel = ''temurin_'' @ imageType @ ''_'' @ major @ ''_'' @ bazel"

text \<open>
  C36: the four archives of a Temurin line are those of one release: where every asset names its
  release, they all name the same one, and each archive is the asset's link and checksum with the
  directory its tarball unpacks to.
\<close>

theorem Temurin_Latest_one_release:
  assumes "Temurin_Latest x base major = Inr l"
    and "\<And>t bazel arch a. (t, bazel, arch) \<in> set temurin_assets \<Longrightarrow>
      latestAsset x base major t arch = Inr a \<Longrightarrow> ta_ReleaseName a \<noteq> []"
  shows "\<exists>release. cut_byte (trim_prefix release ''jdk-'') CHR ''+'' = Some (ln_Version l, ln_Build l) \<and>
    (\<forall>t bazel arch. (t, bazel, arch) \<in> set temurin_assets \<longrightarrow>
      (\<exists>a. latestAsset x base major t arch = Inr a \<and> ta_ReleaseName a = release \<and>
        map_of (ln_Archives l) (temurin_key major t bazel)
          = Some \<lparr>ap_URL = ta_Link a, ap_SHA256 = ta_Checksum a,
                  ap_StripPrefix = release @ (if t = ''jre'' then ''-jre'' else [])\<rparr>))"
proof -
  have assets: "temurin_assets = [(''jre'', ''amd64'', ''x64''), (''jre'', ''arm64'', ''aarch64''),
      (''jdk'', ''amd64'', ''x64''), (''jdk'', ''arm64'', ''aarch64'')]"
    by (simp add: temurin_assets_def temurinArches_def temurinImageTypes_def)
  obtain release archives where r: "temurin_archives x base major temurin_assets [] [] = Inr (release, archives)"
    and l: "cut_byte (trim_prefix release ''jdk-'') CHR ''+'' = Some (ln_Version l, ln_Build l)" "ln_Archives l = archives"
    using assms(1) by (auto simp: Temurin_Latest_def split: option.splits)
  obtain a b c d where got: "latestAsset x base major ''jre'' ''x64'' = Inr a"
      "latestAsset x base major ''jre'' ''aarch64'' = Inr b" "latestAsset x base major ''jdk'' ''x64'' = Inr c"
      "latestAsset x base major ''jdk'' ''aarch64'' = Inr d"
    using r by (auto simp: assets Let_def split: if_splits)
  have named: "ta_ReleaseName a \<noteq> []" "ta_ReleaseName b \<noteq> []" "ta_ReleaseName c \<noteq> []" "ta_ReleaseName d \<noteq> []"
    using assms(2) got by (auto simp: assets)
  then have same: "ta_ReleaseName a = release" "ta_ReleaseName b = release" "ta_ReleaseName c = release"
      "ta_ReleaseName d = release"
    using r got by (auto simp: assets Let_def split: if_splits)
  moreover have "archives = foldl (\<lambda>m (t, b, a). map_put (temurin_key major t b)
      \<lparr>ap_URL = ta_Link a, ap_SHA256 = ta_Checksum a, ap_StripPrefix = release @ (if t = ''jre'' then ''-jre'' else [])\<rparr> m)
      [] [(''jre'', ''amd64'', a), (''jre'', ''arm64'', b), (''jdk'', ''amd64'', c), (''jdk'', ''arm64'', d)]"
    using r got named same by (simp add: assets Let_def temurin_key_def)
  ultimately show ?thesis
    using got l by (intro exI [of _ release]) (auto simp: assets temurin_key_def map_of_map_put)
qed


section \<open>Examples\<close>

definition sample_archive :: "string \<Rightarrow> archive_pin" where
  "sample_archive p = \<lparr>ap_URL = ''l'', ap_SHA256 = ''c'', ap_StripPrefix = p\<rparr>"

definition sample_line :: "string \<Rightarrow> string \<Rightarrow> line_pin" where
  "sample_line version build =
     \<lparr>ln_Major = ''2'', ln_Version = version, ln_Build = build,
      ln_Archives =
        [(''temurin_jdk_2_amd64'', sample_archive ''jdk-2+1''), (''temurin_jdk_2_arm64'', sample_archive ''jdk-2+1''),
         (''temurin_jre_2_amd64'', sample_archive ''jdk-2+1-jre''),
         (''temurin_jre_2_arm64'', sample_archive ''jdk-2+1-jre'')]\<rparr>"

definition sample_lock :: "line_pin list \<Rightarrow> tarball_lock" where
  "sample_lock lns = \<lparr>tl_SchemaVersion = 1, tl_Source = ''temurin'', tl_Lines = lns\<rparr>"

text \<open>An upstream whose every asset is the same.\<close>

definition sample_body :: string where
  "sample_body = map (\<lambda>c. if c = CHR ''~'' then CHR 0x22 else c)
     ''[{~release_name~:~jdk-2+1~,~binary~:{~package~:{~checksum~:~c~,~link~:~l~}}}]''"

definition sample_adoptium :: http_client where
  "sample_adoptium url = Inr (200, Inr sample_body)"

lemma sample_assets:
  "Option.bind (first_document sample_body) (dec_list dec_asset)
     = Some [\<lparr>ta_ReleaseName = ''jdk-2+1'', ta_Checksum = ''c'', ta_Link = ''l''\<rparr>]"
  by code_simp

lemma sample_asset:
  "latestAsset sample_adoptium base major t a = Inr \<lparr>ta_ReleaseName = ''jdk-2+1'', ta_Checksum = ''c'', ta_Link = ''l''\<rparr>"
  using sample_assets by (simp add: latestAsset_def getJSON_def http_body_def sample_adoptium_def)

lemma sample_cut: "cut_byte (trim_prefix ''jdk-2+1'' ''jdk-'') CHR ''+'' = Some (''2'', ''1'')"
  by code_simp

lemma sample_latest: "Temurin_Latest sample_adoptium base ''2'' = Inr (sample_line ''2'' ''1'')"
  by (simp add: Temurin_Latest_def temurin_assets_def temurinArches_def temurinImageTypes_def sample_asset sample_cut
      sample_line_def sample_archive_def map_put.simps Let_def)

lemma sample_line_sel [simp]:
  "ln_Major (sample_line v b) = ''2''" "ln_Version (sample_line v b) = v" "ln_Build (sample_line v b) = b"
  "sample_line v b = sample_line w c \<longleftrightarrow> v = w \<and> b = c"
  by (auto simp: sample_line_def)

theorem ReadLock_Write_witness:
  "ReadLock ''f'' (Inr (Lock_Write (sample_lock [sample_line ''2'' ''1'', sample_line ''1'' []])))
     = Inr (sample_lock [sample_line ''2'' ''1'', sample_line ''1'' []])"
proof -
  have "lock_ok (sample_lock [sample_line ''2'' ''1'', sample_line ''1'' []])" by code_simp
  then show ?thesis by (rule ReadLock_Write)
qed

theorem Update_settled_witness:
  "tarballs_Update (Temurin_Latest sample_adoptium ''https://api.adoptium.net/v3'') (sample_lock [sample_line ''2'' ''1''])
     = Inr ([], sample_lock [sample_line ''2'' ''1''])"
proof -
  define src where "src = Temurin_Latest sample_adoptium ''https://api.adoptium.net/v3''"
  have s: "src ''2'' = Inr (sample_line ''2'' ''1'')" by (simp add: src_def sample_latest)
  have "NewSource sample_adoptium ''temurin'' = Inr src" by (simp add: NewSource_def src_def)
  moreover have "tarballs_Update src (sample_lock [sample_line ''1'' ''1''])
      = Inr ([\<lparr>lc_Major = ''2'', lc_From = ''1+1'', lc_To = ''2+1''\<rparr>], sample_lock [sample_line ''2'' ''1''])"
    using s by (simp add: tarballs_Update_def sample_lock_def describe_line_def)
  ultimately show ?thesis unfolding src_def [symmetric] using Update_settled by blast
qed

theorem Temurin_Latest_one_release_witness:
  "\<exists>release. cut_byte (trim_prefix release ''jdk-'') CHR ''+'' = Some (''2'', ''1'') \<and>
     map_of (ln_Archives (sample_line ''2'' ''1'')) (temurin_key ''2'' ''jre'' ''amd64'')
       = Some \<lparr>ap_URL = ''l'', ap_SHA256 = ''c'', ap_StripPrefix = release @ ''-jre''\<rparr>"
proof -
  have "(''jre'', ''amd64'', ''x64'') \<in> set temurin_assets"
    by (simp add: temurin_assets_def temurinArches_def temurinImageTypes_def)
  then show ?thesis
    using Temurin_Latest_one_release [OF sample_latest] by (fastforce simp: sample_asset)
qed

end
