(* ===== verification/Rpmdb_Merge.thy ===== *)
theory Rpmdb_Merge
  imports Go_Json Go_Sort Go_Path Go_Tar
begin

text \<open>
  bazel/modules/rules_rpm/rpm/tools/rpmdb-merge/main.go: raw RPM headers into the tar of an rpmdb.
  The database is reached through the calls made on it: a call's outcome may depend on the calls
  before it, and so may the bytes of the file. Files, database and compressor are the fields of
  \<open>rpmdb_world\<close>. A deferred call is made on every path, in reverse order; its outcome is dropped, as the
  code drops it, except that of closing the database.
\<close>

section \<open>The configuration\<close>

record header_entry =
  he_Package :: string
  he_Version :: string
  he_Arch :: string
  he_HeaderPath :: string

definition dec_header :: "header_entry decoder" where
  "dec_header =
     dec_struct (\<lambda>fs.
       Option.bind (dec_field fs ''package'' dec_string) (\<lambda>package.
       Option.bind (dec_field fs ''version'' dec_string) (\<lambda>version.
       Option.bind (dec_field fs ''arch'' dec_string) (\<lambda>arch.
       Option.bind (dec_field fs ''header_path'' dec_string) (\<lambda>path.
         Some \<lparr>he_Package = package, he_Version = version, he_Arch = arch, he_HeaderPath = path\<rparr>)))))"

definition dec_config :: "header_entry list decoder" where
  "dec_config = dec_struct (\<lambda>fs. dec_field fs ''headers'' (dec_list dec_header))"

section \<open>The database\<close>

datatype sql_call = Exec string | Begin | Prepare string | Insert string | Commit | Rollback | CloseStmt | CloseDb

type_synonym 'a logged = "'a result \<times> sql_call list"

record rpmdb_world =
  rw_ReadFile :: "string \<Rightarrow> string result"
  rw_CreateTemp :: "string result"
  rw_Open :: "string \<Rightarrow> unit result"
  rw_Sql :: "sql_call list \<Rightarrow> sql_call \<Rightarrow> unit result"
  rw_DbFile :: "sql_call list \<Rightarrow> string result"
  rw_MkdirAll :: "string \<Rightarrow> unit result"
  rw_Create :: "string \<Rightarrow> unit result"
  rw_NewZstd :: "unit result"

definition sql :: "rpmdb_world \<Rightarrow> sql_call \<Rightarrow> sql_call list \<Rightarrow> unit logged" where
  "sql x c log = (rw_Sql x log c, log @ [c])"

definition logged_then :: "'a logged \<Rightarrow> ('a \<Rightarrow> sql_call list \<Rightarrow> 'b logged) \<Rightarrow> 'b logged" where
  "logged_then r f = (case r of (Inl err, log) \<Rightarrow> (Inl err, log) | (Inr v, log) \<Rightarrow> f v log)"

definition wrapped :: "string \<Rightarrow> 'a logged \<Rightarrow> 'a logged" where
  "wrapped what r = (case r of (Inl err, log) \<Rightarrow> (Inl (what @ err), log) | (Inr v, log) \<Rightarrow> (Inr v, log))"

text \<open>\<open>defer tx.Rollback()\<close>, and \<open>db.Close\<close>, whose error counts when there is none before it.\<close>

definition deferring :: "rpmdb_world \<Rightarrow> sql_call \<Rightarrow> 'a logged \<Rightarrow> 'a logged" where
  "deferring x c r = (case r of (res, log) \<Rightarrow> (res, log @ [c]))"

definition closing :: "rpmdb_world \<Rightarrow> unit logged \<Rightarrow> unit logged" where
  "closing x r =
     (case r of (res, log) \<Rightarrow>
        (case sql x CloseDb log of (closed, log') \<Rightarrow> (if isl res then res else closed, log')))"

definition rpmHeaderMagic :: string where
  "rpmHeaderMagic = [CHR 0x8e, CHR 0xad, CHR 0xe8, CHR 0x01, CHR 0x00, CHR 0x00, CHR 0x00, CHR 0x00]"

definition create_Packages :: string where
  "create_Packages = ''CREATE TABLE Packages (hnum INTEGER PRIMARY KEY, blob BLOB NOT NULL)''"

definition insert_Packages :: string where
  "insert_Packages = ''INSERT INTO Packages (blob) VALUES (?)''"

fun insert_headers :: "rpmdb_world \<Rightarrow> header_entry list \<Rightarrow> sql_call list \<Rightarrow> unit logged" where
  "insert_headers x [] log = (Inr (), log)"
| "insert_headers x (h # hs) log =
     (case rw_ReadFile x (he_HeaderPath h) of
        Inl err \<Rightarrow> (Inl (''read header '' @ he_HeaderPath h @ '': '' @ err), log)
      | Inr blob \<Rightarrow>
          (let stored = trim_prefix blob rpmHeaderMagic
           in if length stored = length blob
              then (Inl (''header '' @ he_Package h @ '' missing expected 0x8eade801 magic prefix''), log)
              else
                logged_then (wrapped (''insert '' @ he_Package h @ '': '') (sql x (Insert stored) log))
                  (\<lambda>_. insert_headers x hs)))"

definition populateRpmdb :: "rpmdb_world \<Rightarrow> string \<Rightarrow> header_entry list \<Rightarrow> unit logged" where
  "populateRpmdb x dbPath hs =
     (case rw_Open x (''file:'' @ dbPath @ ''?_pragma=page_size(4096)&_pragma=journal_mode(off)'') of
        Inl err \<Rightarrow> (Inl err, [])
      | Inr _ \<Rightarrow>
          closing x
            (logged_then (wrapped ''create Packages: '' (sql x (Exec create_Packages) [])) (\<lambda>_ log.
             logged_then (sql x Begin log) (\<lambda>_ log.
             deferring x Rollback
               (logged_then (sql x (Prepare insert_Packages) log) (\<lambda>_ log.
                deferring x CloseStmt
                  (logged_then (insert_headers x hs log) (\<lambda>_ log.
                   logged_then (wrapped ''commit: '' (sql x Commit log)) (\<lambda>_ log.
                   wrapped ''vacuum: '' (sql x (Exec ''VACUUM'') log))))))))))"

definition header_less :: "header_entry \<Rightarrow> header_entry \<Rightarrow> bool" where
  "header_less a b \<longleftrightarrow>
     (if he_Package a \<noteq> he_Package b then he_Package a < he_Package b
      else if he_Version a \<noteq> he_Version b then he_Version a < he_Version b
      else he_Arch a < he_Arch b)"

definition buildRpmdb :: "rpmdb_world \<Rightarrow> header_entry list \<Rightarrow> string result" where
  "buildRpmdb x headers =
     and_then (rw_CreateTemp x) (\<lambda>dbPath.
       case populateRpmdb x dbPath (sort_less header_less headers) of
         (Inl err, log) \<Rightarrow> Inl err
       | (Inr _, log) \<Rightarrow> rw_DbFile x log)"

section \<open>The layer\<close>

definition rpmdbPath :: string where
  "rpmdbPath = ''./usr/lib/sysimage/rpm/rpmdb.sqlite''"

definition rpmdb_dirs :: "string list" where
  "rpmdb_dirs = [''./usr'', ''./usr/lib'', ''./usr/lib/sysimage'', ''./usr/lib/sysimage/rpm'']"

definition layer_header :: "string \<Rightarrow> int \<Rightarrow> int \<Rightarrow> typeflag \<Rightarrow> tar_header" where
  "layer_header name mode len flag =
     \<lparr>th_Name = name, th_Mode = mode, th_Size = len, th_Typeflag = flag, th_Linkname = [],
      th_ModTime = 0, th_Uid = 0, th_Gid = 0\<rparr>"

fun write_dirs :: "string list \<Rightarrow> tar_archive \<Rightarrow> tar_archive result" where
  "write_dirs [] w = Inr w"
| "write_dirs (d # ds) w = and_then (WriteHeader (layer_header (d @ ''/'') 493 0 TypeDir) w) (write_dirs ds)"

text \<open>Whether the archive is compressed, and its entries.\<close>

definition writeTar :: "rpmdb_world \<Rightarrow> string \<Rightarrow> string \<Rightarrow> string \<Rightarrow> (bool \<times> tar_archive) result" where
  "writeTar x outPath sqliteBytes compress =
     and_then (rw_MkdirAll x (Dir outPath)) (\<lambda>_.
     and_then (rw_Create x outPath) (\<lambda>_.
     and_then
       (if compress = '''' \<or> compress = ''none'' then Inr False
        else if compress = ''zstd'' then
          (case rw_NewZstd x of Inl err \<Rightarrow> Inl (''init zstd writer: '' @ err) | Inr _ \<Rightarrow> Inr True)
        else Inl (''unsupported --compress='' @ compress @ '' (expected zstd|none)'')) (\<lambda>zstd.
     and_then (write_dirs rpmdb_dirs []) (\<lambda>w.
     and_then (WriteHeader (layer_header rpmdbPath 420 (int (length sqliteBytes)) TypeReg) w) (\<lambda>w.
     and_then (tar_Write sqliteBytes w) (\<lambda>w. Inr (zstd, w)))))))"

section \<open>The command\<close>

definition loadConfig :: "rpmdb_world \<Rightarrow> string \<Rightarrow> header_entry list result" where
  "loadConfig x path =
     and_then (rw_ReadFile x path) (\<lambda>b.
       case unmarshal dec_config b of None \<Rightarrow> Inl ''decode config json'' | Some headers \<Rightarrow> Inr headers)"

definition rpmdb_run :: "rpmdb_world \<Rightarrow> string \<Rightarrow> string \<Rightarrow> string \<Rightarrow> (bool \<times> tar_archive) result" where
  "rpmdb_run x configPath outPath compress =
     and_then
       (case loadConfig x configPath of Inl err \<Rightarrow> Inl (''load config: '' @ err) | Inr hs \<Rightarrow> Inr hs) (\<lambda>hs.
     and_then
       (case buildRpmdb x hs of Inl err \<Rightarrow> Inl (''build rpmdb: '' @ err) | Inr db \<Rightarrow> Inr db) (\<lambda>db.
     writeTar x outPath db compress))"

text \<open>The exit status, and the archive when the run succeeds.\<close>

definition rpmdb_main :: "rpmdb_world \<Rightarrow> string \<Rightarrow> string \<Rightarrow> string \<Rightarrow> nat \<times> (bool \<times> tar_archive) option" where
  "rpmdb_main x config out compress =
     (if config = [] \<or> out = [] then (2, None)
      else case rpmdb_run x config out compress of Inl err \<Rightarrow> (1, None) | Inr w \<Rightarrow> (0, Some w))"

section \<open>The calls of a run that succeeds\<close>

text \<open>What a database of these rows has been through.\<close>

definition transcript :: "string list \<Rightarrow> sql_call list" where
  "transcript blobs =
     [Exec create_Packages, Begin, Prepare insert_Packages] @ map Insert blobs
       @ [Commit, Exec ''VACUUM'', CloseStmt, Rollback, CloseDb]"

lemma logged_then_Inr [simp]:
  "logged_then r f = (Inr v, log) \<longleftrightarrow> (\<exists>u l. r = (Inr u, l) \<and> f u l = (Inr v, log))"
  by (cases r) (auto simp: logged_then_def split: sum.split)

lemma wrapped_Inr [simp]: "wrapped what r = (Inr v, log) \<longleftrightarrow> r = (Inr v, log)"
  by (cases r) (auto simp: wrapped_def split: sum.split)

lemma sql_Inr [simp]: "sql x c l = (Inr v, log) \<longleftrightarrow> rw_Sql x l c = Inr v \<and> log = l @ [c]"
  by (auto simp: sql_def)

lemma deferring_Inr [simp]: "deferring x c r = (Inr v, log) \<longleftrightarrow> (\<exists>l. r = (Inr v, l) \<and> log = l @ [c])"
  by (cases r) (auto simp: deferring_def)

lemma closing_Inr [simp]:
  "closing x r = (Inr v, log) \<longleftrightarrow> (\<exists>u l. r = (Inr u, l) \<and> rw_Sql x l CloseDb = Inr v \<and> log = l @ [CloseDb])"
  by (cases r; cases "fst r") (auto simp: closing_def sql_def)

lemma magic_stripped:
  "length (trim_prefix blob rpmHeaderMagic) \<noteq> length blob \<longleftrightarrow> (\<exists>b. blob = rpmHeaderMagic @ b)"
proof -
  have "0 < length rpmHeaderMagic" by (simp add: rpmHeaderMagic_def)
  then show ?thesis by (auto simp: trim_prefix_def has_prefix_iff)
qed

text \<open>A row for each header, in order: the bytes behind the magic.\<close>

lemma insert_headers_rows:
  "insert_headers x hs log = (Inr v, log') \<Longrightarrow>
     \<exists>blobs. log' = log @ map Insert blobs \<and>
       list_all2 (\<lambda>h b. rw_ReadFile x (he_HeaderPath h) = Inr (rpmHeaderMagic @ b)) hs blobs"
proof (induction hs arbitrary: log)
  case (Cons h hs)
  obtain blob where f: "rw_ReadFile x (he_HeaderPath h) = Inr blob"
    using Cons.prems by (cases "rw_ReadFile x (he_HeaderPath h)") simp_all
  then have "length (trim_prefix blob rpmHeaderMagic) \<noteq> length blob"
    using Cons.prems by (auto simp: Let_def split: if_splits)
  then obtain b where b: "blob = rpmHeaderMagic @ b" using magic_stripped by blast
  then have "insert_headers x hs (log @ [Insert b]) = (Inr v, log')"
    using Cons.prems f by (auto simp: Let_def split: if_splits)
  from Cons.IH [OF this] obtain blobs where
    "log' = (log @ [Insert b]) @ map Insert blobs"
    "list_all2 (\<lambda>h b. rw_ReadFile x (he_HeaderPath h) = Inr (rpmHeaderMagic @ b)) hs blobs" by blast
  then show ?case using f b by (intro exI [of _ "b # blobs"]) simp
qed simp

lemma populateRpmdb_rows:
  assumes "populateRpmdb x dbPath hs = (Inr v, log)"
  shows "\<exists>blobs. log = transcript blobs \<and>
    list_all2 (\<lambda>h b. rw_ReadFile x (he_HeaderPath h) = Inr (rpmHeaderMagic @ b)) hs blobs"
proof -
  obtain u l where i: "insert_headers x hs [Exec create_Packages, Begin, Prepare insert_Packages] = (Inr u, l)"
    and log: "log = l @ [Commit, Exec ''VACUUM'', CloseStmt, Rollback, CloseDb]"
    using assms by (auto simp: populateRpmdb_def split: sum.splits)
  show ?thesis using insert_headers_rows [OF i] log by (auto simp: transcript_def)
qed

section \<open>The order of the rows\<close>

definition header_key :: "header_entry \<Rightarrow> string \<times> string \<times> string" where
  "header_key h = (he_Package h, he_Version h, he_Arch h)"

definition header_cmp :: "header_entry \<Rightarrow> header_entry \<Rightarrow> int" where
  "header_cmp a b = (if header_less a b then -1 else if header_less b a then 1 else 0)"

lemma header_cmp_or:
  "header_cmp a b = cmp_or [cmp_compare (he_Package a) (he_Package b), cmp_compare (he_Version a) (he_Version b),
     cmp_compare (he_Arch a) (he_Arch b)]"
  by (auto simp: header_cmp_def header_less_def cmp_compare_def)

interpretation header_order: three_way header_cmp "\<lambda>_. True"
  unfolding header_cmp_or by (intro three_way_cmp_or3 three_way_key)

lemma header_cmp_zero: "header_cmp a b = 0 \<longleftrightarrow> header_key a = header_key b"
  unfolding header_cmp_or header_key_def by (auto simp: cmp_compare_def)

lemma sort_headers: "sort_less header_less = sort_stable header_cmp"
  by (simp add: fun_eq_iff sort_less_def header_cmp_def [abs_def])

lemma filter_one: "distinct l \<Longrightarrow> z \<in> set l \<Longrightarrow> filter (\<lambda>y. z = y) l = [z]"
proof (induction l)
  case (Cons a l)
  then show ?case by (cases "z = a") (auto simp: filter_empty_conv)
qed simp

lemma sort_headers_unique:
  assumes "mset hs = mset hs'" "distinct (map header_key hs)"
  shows "sort_less header_less hs = sort_less header_less hs'"
proof -
  have inj: "inj_on header_key (set hs)" using assms(2) by (simp add: distinct_map)
  have set: "set hs' = set hs" using assms(1) by (metis set_mset_mset)
  have "distinct hs" "distinct hs'" using assms by (auto simp: distinct_map dest: mset_eq_imp_distinct_iff)
  have one: "filter (\<lambda>y. header_cmp z y = 0) l = [z]" if "z \<in> set hs" "distinct l" "set l = set hs" for z l
  proof -
    have "filter (\<lambda>y. header_cmp z y = 0) l = filter (\<lambda>y. z = y) l"
      using that inj by (intro filter_cong) (auto simp: header_cmp_zero inj_on_def)
    also have "\<dots> = [z]" using that by (intro filter_one) simp_all
    finally show ?thesis .
  qed
  have "sort_stable header_cmp hs' = sort_stable header_cmp hs"
    using \<open>distinct hs\<close> \<open>distinct hs'\<close> assms(1) set
    by (intro header_order.sort_stable_unique header_order.sort_sorted) (auto simp: one)
  then show ?thesis by (simp add: sort_headers)
qed

text \<open>
  C37: the database is built from the set of its headers: the order the configuration lists
  them in cannot show in its bytes, as long as no two headers have the same package, version and
  architecture.
\<close>

theorem buildRpmdb_order_independent:
  assumes "mset hs = mset hs'" "distinct (map header_key hs)"
  shows "buildRpmdb x hs = buildRpmdb x hs'"
  by (simp add: buildRpmdb_def sort_headers_unique [OF assms])

section \<open>What the layer holds\<close>

lemma write_dirs_entries:
  "write_dirs ds w = Inr w' \<Longrightarrow> w' = w @ map (\<lambda>d. (layer_header (d @ ''/'') 493 0 TypeDir, [])) ds"
  by (induction ds arbitrary: w) fastforce+

lemma buildRpmdb_Inr:
  "buildRpmdb x hs = Inr db \<longleftrightarrow>
     (\<exists>dbPath log. rw_CreateTemp x = Inr dbPath \<and> populateRpmdb x dbPath (sort_less header_less hs) = (Inr (), log) \<and>
       rw_DbFile x log = Inr db)"
proof (cases "rw_CreateTemp x")
  case (Inr dbPath)
  obtain r log where p: "populateRpmdb x dbPath (sort_less header_less hs) = (r, log)" by fastforce
  then show ?thesis using Inr by (cases r) (simp_all add: buildRpmdb_def)
qed (simp add: buildRpmdb_def)

lemma writeTar_entries:
  assumes "writeTar x out db compress = Inr (zstd, w)"
  shows "w = map (\<lambda>d. (layer_header (d @ ''/'') 493 0 TypeDir, [])) rpmdb_dirs
      @ [(layer_header rpmdbPath 420 (int (length db)) TypeReg, db)] \<and> (zstd \<longleftrightarrow> compress = ''zstd'')"
  using assms by (auto simp: writeTar_def dest!: write_dirs_entries split: if_splits sum.splits)



section \<open>A run that succeeds\<close>

lemma insert_headers_succeeds:
  assumes "\<And>log c. rw_Sql x log c = Inr ()"
    and "\<And>h. h \<in> set hs \<Longrightarrow> \<exists>b. rw_ReadFile x (he_HeaderPath h) = Inr (rpmHeaderMagic @ b)"
  shows "\<exists>log'. insert_headers x hs log = (Inr (), log')"
  using assms(2)
proof (induction hs arbitrary: log)
  case (Cons h hs)
  then obtain b where b: "rw_ReadFile x (he_HeaderPath h) = Inr (rpmHeaderMagic @ b)" by fastforce
  moreover obtain log' where "insert_headers x hs (log @ [Insert b]) = (Inr (), log')"
    using Cons.IH [of "log @ [Insert b]"] Cons.prems by auto
  moreover have "rpmHeaderMagic \<noteq> []" by (simp add: rpmHeaderMagic_def)
  ultimately show ?case using assms(1) by (simp add: Let_def)
qed simp

lemma populateRpmdb_succeeds:
  assumes "\<And>dsn. rw_Open x dsn = Inr ()" "\<And>log c. rw_Sql x log c = Inr ()"
    and "\<And>h. h \<in> set hs \<Longrightarrow> \<exists>b. rw_ReadFile x (he_HeaderPath h) = Inr (rpmHeaderMagic @ b)"
  shows "\<exists>log. populateRpmdb x dbPath hs = (Inr (), log)"
proof -
  obtain log where "insert_headers x hs [Exec create_Packages, Begin, Prepare insert_Packages] = (Inr (), log)"
    using insert_headers_succeeds [OF assms(2,3)] by blast
  then show ?thesis using assms(1,2) by (simp add: populateRpmdb_def)
qed

lemma write_dirs_fits:
  "list_all (\<lambda>d. fits_USTAR (layer_header (d @ ''/'') 493 0 TypeDir)) ds \<Longrightarrow> tar_missing w \<le> 0 \<Longrightarrow>
     \<exists>w'. write_dirs ds w = Inr w' \<and> tar_missing w' \<le> 0"
proof (induction ds arbitrary: w)
  case (Cons d ds)
  have "tar_missing (w @ [(layer_header (d @ ''/'') 493 0 TypeDir, [])]) \<le> 0"
    by (simp add: tar_missing_def layer_header_def)
  with Cons.IH [OF _ this] Cons.prems show ?case by (simp add: WriteHeader_def)
qed simp

lemma dirs_fit: "list_all (\<lambda>d. fits_USTAR (layer_header (d @ ''/'') 493 0 TypeDir)) rpmdb_dirs"
  by code_simp

lemma file_fits: "int (length db) < 8 ^ 11 \<Longrightarrow> fits_USTAR (layer_header rpmdbPath 420 (int (length db)) TypeReg)"
proof -
  assume "int (length db) < 8 ^ 11"
  moreover have "tar_ascii rpmdbPath" "length rpmdbPath \<le> 100" "\<not> has_suffix rpmdbPath ''/''" by code_simp+
  ultimately show ?thesis by (simp add: fits_USTAR_def layer_header_def fits_octal_def tar_ascii_def)
qed

text \<open>
  Nothing but its surroundings makes the tool fail: where every header has its magic, the calls it makes
  succeed and the database is below the eight gigabytes of a USTAR entry, it exits with 0.
\<close>

lemma rpmdb_main_succeeds:
  assumes "config \<noteq> []" "out \<noteq> []" "compress = ''none'' \<or> compress = ''zstd''"
    and "loadConfig x config = Inr hs"
    and "\<And>h. h \<in> set hs \<Longrightarrow> \<exists>b. rw_ReadFile x (he_HeaderPath h) = Inr (rpmHeaderMagic @ b)"
    and "rw_CreateTemp x = Inr dbPath" "\<And>dsn. rw_Open x dsn = Inr ()" "\<And>log c. rw_Sql x log c = Inr ()"
    and "\<And>log. \<exists>db. rw_DbFile x log = Inr db \<and> int (length db) < 8 ^ 11"
    and "\<And>d. rw_MkdirAll x d = Inr ()" "\<And>p. rw_Create x p = Inr ()" "rw_NewZstd x = Inr ()"
  shows "\<exists>w. rpmdb_main x config out compress = (0, Some w)"
proof -
  have "set (sort_less header_less hs) = set hs" by (metis mset_sort_less set_mset_mset)
  then obtain log where "populateRpmdb x dbPath (sort_less header_less hs) = (Inr (), log)"
    using populateRpmdb_succeeds [of x "sort_less header_less hs" dbPath] assms(5,7,8) by auto
  then obtain db where db: "buildRpmdb x hs = Inr db" "int (length db) < 8 ^ 11"
    using assms(6) assms(9) [of log] by (auto simp: buildRpmdb_def)
  obtain w where w: "write_dirs rpmdb_dirs [] = Inr w" "tar_missing w \<le> 0"
    using write_dirs_fits [OF dirs_fit, of "[]"] by (auto simp: tar_missing_def)
  have "\<exists>r. writeTar x out db compress = Inr r"
    using assms(3,10-12) w file_fits [OF db(2)]
    by (auto simp: writeTar_def WriteHeader_def tar_Write_def tar_missing_def layer_header_def)
  then show ?thesis using assms(1,2,4) db(1) by (auto simp: rpmdb_main_def rpmdb_run_def)
qed

section \<open>Examples\<close>

definition sample_header :: "string \<Rightarrow> header_entry" where
  "sample_header n = \<lparr>he_Package = n, he_Version = ''1'', he_Arch = ''x'', he_HeaderPath = n\<rparr>"

text \<open>Every header has its magic, every call succeeds, and the file is what was inserted.\<close>

definition sample_rpmdb_config :: string where
  "sample_rpmdb_config = map (\<lambda>c. if c = CHR ''~'' then CHR 0x22 else c)
     (''{~headers~:[{~package~:~b~,~version~:~1~,~arch~:~x~,~header_path~:~b~},''
      @ ''{~package~:~a~,~version~:~1~,~arch~:~x~,~header_path~:~a~}]}'')"

definition sample_rpmdb :: rpmdb_world where
  "sample_rpmdb =
     \<lparr>rw_ReadFile = (\<lambda>p. if p = ''c'' then Inr sample_rpmdb_config else Inr (rpmHeaderMagic @ p)),
      rw_CreateTemp = Inr ''t'', rw_Open = (\<lambda>_. Inr ()), rw_Sql = (\<lambda>_ _. Inr ()),
      rw_DbFile = (\<lambda>log. Inr (concat (map (\<lambda>c. case c of Insert b \<Rightarrow> b | _ \<Rightarrow> []) log))),
      rw_MkdirAll = (\<lambda>_. Inr ()), rw_Create = (\<lambda>_. Inr ()), rw_NewZstd = Inr ()\<rparr>"

theorem buildRpmdb_order_independent_witness:
  "buildRpmdb sample_rpmdb [sample_header ''b'', sample_header ''a''] =
     buildRpmdb sample_rpmdb [sample_header ''a'', sample_header ''b'']"
proof (rule buildRpmdb_order_independent)
  show "mset [sample_header ''b'', sample_header ''a''] = mset [sample_header ''a'', sample_header ''b'']"
    by simp
  show "distinct (map header_key [sample_header ''b'', sample_header ''a''])"
    by (simp add: sample_header_def header_key_def)
qed

lemma sample_decoded: "unmarshal dec_config sample_rpmdb_config = Some [sample_header ''b'', sample_header ''a'']"
  by code_simp

lemma sample_loaded: "loadConfig sample_rpmdb ''c'' = Inr [sample_header ''b'', sample_header ''a'']"
  by (simp add: loadConfig_def sample_rpmdb_def sample_decoded)

lemma sample_built: "buildRpmdb sample_rpmdb [sample_header ''b'', sample_header ''a''] = Inr ''ab''"
  by code_simp

lemma sample_written:
  "writeTar sample_rpmdb ''d/o'' ''ab'' ''zstd'' = Inr (True,
     map (\<lambda>d. (layer_header (d @ ''/'') 493 0 TypeDir, [])) rpmdb_dirs
       @ [(layer_header rpmdbPath 420 2 TypeReg, ''ab'')])"
  by code_simp

lemma sample_layer:
  "rpmdb_main sample_rpmdb ''c'' ''d/o'' ''zstd'' = (0, Some (True,
     map (\<lambda>d. (layer_header (d @ ''/'') 493 0 TypeDir, [])) rpmdb_dirs
       @ [(layer_header rpmdbPath 420 2 TypeReg, ''ab'')]))"
  by (simp add: rpmdb_main_def rpmdb_run_def sample_loaded sample_built sample_written)


end
