(* ===== verification/Grype_Db.thy ===== *)
theory Grype_Db
  imports Starlark Knife
begin

text \<open>
  bazel/grypedb/grypedb.go and the command around it, bazel/cmd/knife/cmd/grype/update.go: the grype
  database a MODULE.bazel file pins is moved to the newest one. The parser and printer of Starlark,
  \<open>bzlmod.Proxies\<close>, grype's client, files and the bazel process are the fields of \<open>grype_world\<close>.
  A pointer into the statements of a file is the place of the statement.
\<close>

section \<open>The call of the extension\<close>

definition update_argument :: "string \<Rightarrow> string \<Rightarrow> expr \<Rightarrow> expr" where
  "update_argument url sha arg =
     (case assigned_name arg of
        None \<Rightarrow> arg
      | Some n \<Rightarrow>
          if n = ''sha256'' then set_RHS (StringExpr sha) arg
          else if n = ''url'' then set_RHS (StringExpr url) arg
          else arg)"

definition has_argument :: "string \<Rightarrow> expr list \<Rightarrow> bool" where
  "has_argument n args \<longleftrightarrow> list_ex (\<lambda>a. assigned_name a = Some n) args"

definition add_argument :: "bool \<Rightarrow> string \<Rightarrow> string \<Rightarrow> expr list \<Rightarrow> expr list" where
  "add_argument updated n val args = (if updated then args else args @ [AssignExpr (Ident n) ''='' (StringExpr val)])"

definition updateCallArguments :: "expr list \<Rightarrow> string \<Rightarrow> string \<Rightarrow> expr list" where
  "updateCallArguments args url sha =
     (let updatedSha = has_argument ''sha256'' args; updatedURL = has_argument ''url'' args;
          args = map (update_argument url sha) args;
          args = add_argument updatedSha ''sha256'' sha args
      in add_argument updatedURL ''url'' url args)"

type_synonym proxies = "expr list \<Rightarrow> string \<Rightarrow> string \<Rightarrow> bool \<Rightarrow> string list"

definition grype_proxies :: "proxies \<Rightarrow> expr list \<Rightarrow> bool \<Rightarrow> string list" where
  "grype_proxies proxies f dev = proxies f ''@grype.bzl//grype:extensions.bzl'' ''grype_database'' dev"

definition findGrypeExtensionProxy :: "proxies \<Rightarrow> string \<Rightarrow> expr list \<Rightarrow> string result" where
  "findGrypeExtensionProxy proxies path f =
     (case grype_proxies proxies f False of
        p # _ \<Rightarrow> Inr p
      | [] \<Rightarrow>
          (case grype_proxies proxies f True of
             p # _ \<Rightarrow> Inr p
           | [] \<Rightarrow> Inl (''could not find use_extension call for grype extension in '' @ path)))"

text \<open>The arguments of a statement that is the database call of the proxy.\<close>

definition database_call :: "string \<Rightarrow> expr \<Rightarrow> expr list option" where
  "database_call proxy s =
     (case s of
        CallExpr (DotExpr (Ident x) name) args \<Rightarrow> if x \<noteq> proxy \<or> name \<noteq> ''database'' then None else Some args
      | _ \<Rightarrow> None)"

fun update_statements :: "string \<Rightarrow> string \<Rightarrow> string \<Rightarrow> expr list \<Rightarrow> expr list option" where
  "update_statements proxy url sha [] = None"
| "update_statements proxy url sha (s # ss) =
     (case database_call proxy s of
        None \<Rightarrow> map_option (Cons s) (update_statements proxy url sha ss)
      | Some args \<Rightarrow>
          Some (CallExpr (DotExpr (Ident proxy) ''database'') (updateCallArguments args url sha) # ss))"

definition updateGrypeDatabaseCall :: "proxies \<Rightarrow> string \<Rightarrow> expr list \<Rightarrow> string \<Rightarrow> string \<Rightarrow> expr list result" where
  "updateGrypeDatabaseCall proxies path f url sha =
     and_then (findGrypeExtensionProxy proxies path f) (\<lambda>proxyName.
       case update_statements proxyName url sha f of
         None \<Rightarrow> Inl (''could not find '' @ proxyName @ ''.database() call in '' @ path)
       | Some f' \<Rightarrow> Inr f')"

section \<open>The file\<close>

record grype_archive =
  ga_Path :: string
  ga_Checksum :: string

record grype_world =
  gw_Workspace :: string
  gw_ReadFile :: "string \<Rightarrow> string result"
  gw_WriteFile :: "string \<Rightarrow> string \<Rightarrow> unit result"
  gw_ParseModule :: "string \<Rightarrow> string \<Rightarrow> expr list result"
  gw_Format :: "expr list \<Rightarrow> string"
  gw_Proxies :: proxies
  gw_NewClient :: "string \<Rightarrow> unit result"
  gw_Latest :: "grype_archive result"
  gw_Exec :: "process \<Rightarrow> (string \<times> string) + string"

definition prefixed :: "string \<Rightarrow> 'a result \<Rightarrow> 'a result" where
  "prefixed what r = (case r of Inl err \<Rightarrow> Inl (what @ err) | Inr v \<Rightarrow> Inr v)"

definition formatModule :: "grype_world \<Rightarrow> string \<Rightarrow> expr list \<Rightarrow> string result" where
  "formatModule x path f =
     and_then (gw_ParseModule x path (gw_Format x f)) (\<lambda>newF. Inr (gw_Format x newF))"

definition UpdateModuleFile :: "grype_world \<Rightarrow> string \<Rightarrow> string \<Rightarrow> string \<Rightarrow> unit result" where
  "UpdateModuleFile x path newURL newSHA256 =
     and_then (prefixed (''failed to read '' @ path @ '': '') (gw_ReadFile x path)) (\<lambda>content.
     and_then (prefixed (''failed to parse '' @ path @ '': '') (gw_ParseModule x path content)) (\<lambda>ast.
     and_then (updateGrypeDatabaseCall (gw_Proxies x) path ast newURL newSHA256) (\<lambda>ast.
     and_then (prefixed (''failed to format '' @ path @ '': '') (formatModule x path ast)) (\<lambda>formatted.
     prefixed (''failed to write '' @ path @ '': '') (gw_WriteFile x path formatted)))))"

text \<open>The command; its result is the path, the URL and the checksum it reports.\<close>

definition knife_grype_update :: "grype_world \<Rightarrow> string \<Rightarrow> (string \<times> string \<times> string) result" where
  "knife_grype_update x moduleFile =
     (let path = workspace_path (gw_Workspace x) moduleFile
      in and_then (prefixed ''failed to create grype client: ''
             (gw_NewClient x ''https://grype.anchore.io/databases/v6/latest.json'')) (\<lambda>_.
         and_then (prefixed ''failed to fetch latest grype metadata: '' (gw_Latest x)) (\<lambda>latest.
           let fullURL = ''https://grype.anchore.io/databases/v6/'' @ ga_Path latest;
               sha256sum = trim_prefix (ga_Checksum latest) ''sha256:''
           in and_then (UpdateModuleFile x path fullURL sha256sum) (\<lambda>_.
              and_then (prefixed ''failed to update lockfile: '' (Tidy (gw_Exec x) (gw_Workspace x))) (\<lambda>_.
                Inr (path, fullURL, sha256sum))))))"

section \<open>What an update changes\<close>

lemma prefixed_Inr [simp]: "prefixed what r = Inr v \<longleftrightarrow> r = Inr v"
  by (simp add: prefixed_def split: sum.split)

text \<open>The value an argument list gives a name: of several, the last.\<close>

definition argument :: "string \<Rightarrow> expr list \<Rightarrow> expr option" where
  "argument n args =
     (case find (\<lambda>a. assigned_name a = Some n) (rev args) of None \<Rightarrow> None | Some a \<Rightarrow> right_hand_side a)"

definition pinned :: "expr \<Rightarrow> bool" where
  "pinned a \<longleftrightarrow> assigned_name a = Some ''url'' \<or> assigned_name a = Some ''sha256''"

lemma assigned_name_update [simp]: "assigned_name (update_argument url sha a) = assigned_name a"
  by (simp add: update_argument_def split: option.split)

lemma has_argument_update [simp]: "has_argument n (map (update_argument url sha) args) = has_argument n args"
  by (simp add: has_argument_def list_ex_iff)

lemma has_argument_add [simp]:
  "has_argument n (add_argument updated m val args) \<longleftrightarrow> has_argument n args \<or> (\<not> updated \<and> n = m)"
  by (auto simp: has_argument_def add_argument_def)

lemma update_argument_twice [simp]:
  "update_argument url sha (update_argument url' sha' a) = update_argument url sha a"
  by (simp add: update_argument_def split: option.split)

lemma update_unpinned: "\<not> pinned a \<Longrightarrow> update_argument url sha a = a"
  by (auto simp: update_argument_def pinned_def split: option.split)

lemma update_pinned:
  "assigned_name a = Some ''url'' \<Longrightarrow> right_hand_side (update_argument url sha a) = Some (StringExpr url)"
  "assigned_name a = Some ''sha256'' \<Longrightarrow> right_hand_side (update_argument url sha a) = Some (StringExpr sha)"
  using right_hand_side_set_RHS by (simp_all add: update_argument_def)

lemma argument_updated:
  assumes "has_argument n args" "\<And>a. assigned_name a = Some n \<Longrightarrow> right_hand_side (f a) = Some v"
    and "\<And>a. assigned_name (f a) = assigned_name a"
  shows "argument n (map f args) = Some v"
proof -
  have "find (\<lambda>a. assigned_name a = Some n) (map f l) = map_option f (find (\<lambda>a. assigned_name a = Some n) l)" for l
    using assms(3) by (induction l) auto
  moreover obtain a where "find (\<lambda>a. assigned_name a = Some n) (rev args) = Some a"
    using assms(1) by (fastforce simp: has_argument_def list_ex_iff find_None_iff
        dest: not_None_eq [THEN iffD1])
  moreover from this have "assigned_name a = Some n" by (metis (mono_tags, lifting) find_Some_iff)
  ultimately show ?thesis using assms(2) by (simp add: argument_def rev_map)
qed

lemma argument_append:
  "argument n (args @ [AssignExpr (Ident m) op v]) = (if m = n then Some v else argument n args)"
  by (simp add: argument_def right_hand_side_def)

lemma updateCallArguments_values:
  "argument ''url'' (updateCallArguments args url sha) = Some (StringExpr url)"
  "argument ''sha256'' (updateCallArguments args url sha) = Some (StringExpr sha)"
  using argument_updated [of "''url''" args "update_argument url sha" "StringExpr url"]
    argument_updated [of "''sha256''" args "update_argument url sha" "StringExpr sha"]
  by (simp_all add: updateCallArguments_def Let_def add_argument_def argument_append update_pinned)

lemma updateCallArguments_others:
  "filter (\<lambda>a. \<not> pinned a) (updateCallArguments args url sha) = filter (\<lambda>a. \<not> pinned a) args"
proof -
  have "filter (\<lambda>a. \<not> pinned a) (map (update_argument url sha) args) = filter (\<lambda>a. \<not> pinned a) args"
    by (induction args) (auto simp: update_unpinned pinned_def)
  moreover have "filter (\<lambda>a. \<not> pinned a) (add_argument updated n val l) = filter (\<lambda>a. \<not> pinned a) l"
    if "n = ''url'' \<or> n = ''sha256''" for updated n val l
    using that by (auto simp: add_argument_def pinned_def)
  ultimately show ?thesis by (simp add: updateCallArguments_def Let_def)
qed

lemma map_update_add:
  "n = ''url'' \<and> val' = url \<or> n = ''sha256'' \<and> val' = sha \<Longrightarrow>
     map (update_argument url sha) (add_argument updated n val l) = add_argument updated n val' (map (update_argument url sha) l)"
  by (auto simp: add_argument_def update_argument_def set_RHS_def)

text \<open>A later update leaves nothing of an earlier one.\<close>

lemma updateCallArguments_twice:
  "updateCallArguments (updateCallArguments args url sha) url' sha' = updateCallArguments args url' sha'"
proof -
  let ?up = "\<lambda>u s. map (update_argument u s)"
  have all: "has_argument n (updateCallArguments args url sha)" if "n = ''url'' \<or> n = ''sha256''" for n
    using that by (auto simp: updateCallArguments_def Let_def)
  have "updateCallArguments (updateCallArguments args url sha) url' sha'
      = ?up url' sha' (updateCallArguments args url sha)"
    using all by (simp add: updateCallArguments_def [of "updateCallArguments args url sha"] Let_def add_argument_def)
  also have "\<dots> = updateCallArguments args url' sha'"
    by (simp add: updateCallArguments_def Let_def map_update_add comp_def)
  finally show ?thesis .
qed

lemma database_call_Some:
  "database_call proxy s = Some args \<longleftrightarrow> s = CallExpr (DotExpr (Ident proxy) ''database'') args"
  by (auto simp: database_call_def split: expr.splits if_splits)

lemma update_statements_split:
  "update_statements proxy url sha f = Some f' \<Longrightarrow>
     \<exists>before args behind. f = before @ CallExpr (DotExpr (Ident proxy) ''database'') args # behind \<and>
       list_all (\<lambda>s. database_call proxy s = None) before \<and>
       f' = before @ CallExpr (DotExpr (Ident proxy) ''database'') (updateCallArguments args url sha) # behind"
proof (induction f arbitrary: f')
  case (Cons s f)
  show ?case
  proof (cases "database_call proxy s")
    case None
    then obtain g where g: "update_statements proxy url sha f = Some g" "f' = s # g" using Cons.prems by auto
    from Cons.IH [OF g(1)] obtain before args behind where
      "f = before @ CallExpr (DotExpr (Ident proxy) ''database'') args # behind"
      "list_all (\<lambda>s. database_call proxy s = None) before"
      "g = before @ CallExpr (DotExpr (Ident proxy) ''database'') (updateCallArguments args url sha) # behind"
      by blast
    then show ?thesis
      using None g(2) by (intro exI [of _ "s # before"] exI [of _ args] exI [of _ behind]) simp
  next
    case (Some args)
    then have "s = CallExpr (DotExpr (Ident proxy) ''database'') args" by (simp add: database_call_Some)
    then show ?thesis
      using Some Cons.prems by (intro exI [of _ "[]"] exI [of _ args] exI [of _ f]) simp
  qed
qed simp

text \<open>
  C39: an update changes one statement of the module file, the first database call of the
  extension's proxy, and of that only the URL and the checksum: they get the new values, added
  if they are missing, every other argument stays as and where it is, and what an earlier update wrote
  is gone after a later one.
\<close>

theorem updateGrypeDatabaseCall_exact:
  assumes "updateGrypeDatabaseCall proxies path f url sha = Inr f'"
  shows "\<exists>proxy before args args' behind.
    findGrypeExtensionProxy proxies path f = Inr proxy \<and>
    f = before @ CallExpr (DotExpr (Ident proxy) ''database'') args # behind \<and>
    f' = before @ CallExpr (DotExpr (Ident proxy) ''database'') args' # behind \<and>
    list_all (\<lambda>s. database_call proxy s = None) before \<and>
    argument ''url'' args' = Some (StringExpr url) \<and> argument ''sha256'' args' = Some (StringExpr sha) \<and>
    filter (\<lambda>a. \<not> pinned a) args' = filter (\<lambda>a. \<not> pinned a) args \<and>
    (\<forall>url sha. updateCallArguments args' url sha = updateCallArguments args url sha)"
proof -
  obtain proxy where p: "findGrypeExtensionProxy proxies path f = Inr proxy"
      "update_statements proxy url sha f = Some f'"
    using assms by (auto simp: updateGrypeDatabaseCall_def split: option.splits)
  from update_statements_split [OF p(2)] obtain before args behind where
    s: "f = before @ CallExpr (DotExpr (Ident proxy) ''database'') args # behind"
      "list_all (\<lambda>s. database_call proxy s = None) before"
      "f' = before @ CallExpr (DotExpr (Ident proxy) ''database'') (updateCallArguments args url sha) # behind"
    by blast
  show ?thesis
    by (rule exI [of _ proxy], rule exI [of _ before], rule exI [of _ args],
        rule exI [of _ "updateCallArguments args url sha"], rule exI [of _ behind])
      (intro conjI p(1) s updateCallArguments_values updateCallArguments_others allI updateCallArguments_twice)
qed

definition sample_call :: "expr list \<Rightarrow> expr" where
  "sample_call args = CallExpr (DotExpr (Ident ''grype'') ''database'') args"

definition sample_module :: "expr list" where
  "sample_module = [OtherExpr ''use_extension'', sample_call [AssignExpr (Ident ''url'') ''='' (StringExpr ''old'')]]"

definition sample_updated :: "expr list" where
  "sample_updated =
     [OtherExpr ''use_extension'',
      sample_call [AssignExpr (Ident ''url'') ''='' (StringExpr ''new''), AssignExpr (Ident ''sha256'') ''='' (StringExpr ''sum'')]]"

definition sample_proxies :: proxies where
  "sample_proxies f file ext dev = (if dev then [''grype''] else [])"

lemma sample_update: "updateGrypeDatabaseCall sample_proxies ''m'' sample_module ''new'' ''sum'' = Inr sample_updated"
  by code_simp

theorem updateGrypeDatabaseCall_exact_witness:
  "\<exists>proxy before args' behind. findGrypeExtensionProxy sample_proxies ''m'' sample_module = Inr proxy \<and>
     sample_updated = before @ CallExpr (DotExpr (Ident proxy) ''database'') args' # behind \<and>
     argument ''url'' args' = Some (StringExpr ''new'') \<and> argument ''sha256'' args' = Some (StringExpr ''sum'')"
  using updateGrypeDatabaseCall_exact [OF sample_update] by blast

end
