(* ===== verification/Knife_Apt.thy ===== *)
theory Knife_Apt
  imports Debian_Packages Debian_Snapshot Knife Go_Crypto Go_Sort Go_Runs
begin

text \<open>
  The commands of bazel/cmd/knife/cmd/apt. \<open>licenses\<close> downloads every package of some lockfiles and
  writes the table of their licences: a pool of workers takes the names from a channel and adds what
  each resolves to under a mutex; every interleaving of them is a run of \<open>pool_step\<close>. \<open>versions\<close>
  prints a lockfile and \<open>update\<close> moves a manifest to the newest snapshots. Files, the network and
  the readers of a .deb are the fields of \<open>apt_world\<close>.
\<close>

section \<open>The licence of one package\<close>

record packageLicense =
  pl_SPDX :: string
  pl_Name :: string

record 's apt_world =
  aw_Workspace :: string
  aw_ReadFile :: "string \<Rightarrow> string result"
  aw_Get :: "string \<Rightarrow> (int \<times> string result) result"
  aw_Deb :: "'s deb_readers"
  aw_Stdout :: "string \<Rightarrow> unit result"
  aw_WriteFile :: "string \<Rightarrow> string \<Rightarrow> unit result"

text \<open>The URLs in turn, with the last error: a body that is not the one pinned ends the search.\<close>

fun download_urls :: "'s apt_world \<Rightarrow> string \<Rightarrow> string list \<Rightarrow> string option \<Rightarrow> string result" where
  "download_urls x sha [] lastErr =
     Inl (case lastErr of None \<Rightarrow> ''no download URLs in lock file'' | Some err \<Rightarrow> err)"
| "download_urls x sha (url # urls) lastErr =
     (case aw_Get x url of
        Inl err \<Rightarrow> download_urls x sha urls (Some err)
      | Inr (status, body) \<Rightarrow>
          (case body of
             Inl err \<Rightarrow> download_urls x sha urls (Some err)
           | Inr b \<Rightarrow>
               if status \<noteq> 200 then download_urls x sha urls (Some (''GET '' @ url @ '': '' @ itoa_int status))
               else
                 (let got = hex_encode (sha256 b)
                  in if got \<noteq> sha then Inl (''GET '' @ url @ '': sha256 '' @ got @ '', lock pins '' @ sha)
                     else Inr b)))"

definition download :: "'s apt_world \<Rightarrow> locked_package \<Rightarrow> string result" where
  "download x pkg = download_urls x (lp_SHA256 pkg) (lp_URLs pkg) None"

definition no_license :: packageLicense where
  "no_license = \<lparr>pl_SPDX = [], pl_Name = []\<rparr>"

definition resolveLicense :: "'s apt_world \<Rightarrow> locked_package \<Rightarrow> packageLicense result" where
  "resolveLicense x pkg =
     and_then (download x pkg) (\<lambda>archive.
       case Copyright (aw_Deb x) archive of
         Inl ErrNoCopyright \<Rightarrow> Inr no_license
       | Inl ErrNoDataArchive \<Rightarrow> Inl ''deb: no data archive''
       | Inl (DebFailure err) \<Rightarrow> Inl err
       | Inr text' \<Rightarrow>
           (case copyright_Parse (Inr text') of
              Inl ErrNotMachineReadable \<Rightarrow> Inr no_license
            | Inl ErrNoOverallLicense \<Rightarrow> Inr no_license
            | Inl (LicenceFailure err) \<Rightarrow> Inl err
            | Inr l \<Rightarrow> Inr \<lparr>pl_SPDX = lic_SPDX l, pl_Name = lic_Name l\<rparr>))"

section \<open>The packages of the lockfiles\<close>

text \<open>A name is resolved once, by the first package that has it.\<close>

definition add_unseen :: "locked_package by_name \<Rightarrow> locked_package \<Rightarrow> locked_package by_name" where
  "add_unseen m pkg = (if map_of m (lp_Name pkg) = None then m @ [(lp_Name pkg, pkg)] else m)"

fun unique_packages :: "'s apt_world \<Rightarrow> string list \<Rightarrow> locked_package by_name \<Rightarrow> locked_package by_name result" where
  "unique_packages x [] m = Inr m"
| "unique_packages x (path # paths) m =
     and_then (ParseFile (aw_ReadFile x path)) (\<lambda>packages.
       unique_packages x paths (foldl add_unseen m packages))"

definition resolve_name :: "'s apt_world \<Rightarrow> locked_package by_name \<Rightarrow> string \<Rightarrow> packageLicense result" where
  "resolve_name x unique name =
     (case map_of unique name of Some pkg \<Rightarrow> resolveLicense x pkg | None \<Rightarrow> Inl ''no package'')"

section \<open>The workers\<close>

datatype worker = Free | Working string | Left

record pool =
  pool_Todo :: "string list"
  pool_Workers :: "worker list"
  pool_Resolved :: "string \<Rightarrow> packageLicense option"
  pool_Failures :: "string list"

definition settled :: "string \<Rightarrow> packageLicense result \<Rightarrow> pool \<Rightarrow> pool" where
  "settled name res p =
     (case res of
        Inl err \<Rightarrow> p\<lparr>pool_Failures := pool_Failures p @ [name @ '': '' @ err]\<rparr>
      | Inr license \<Rightarrow> p\<lparr>pool_Resolved := (pool_Resolved p)(name \<mapsto> license)\<rparr>)"

text \<open>
  A send meets an idle worker, for the channel has no buffer; a worker settles its name under the
  mutex; the channel is closed behind the last name, and an idle worker then leaves.
\<close>

inductive pool_step :: "(string \<Rightarrow> packageLicense result) \<Rightarrow> pool \<Rightarrow> pool \<Rightarrow> bool" for resolve where
  send: "pool_Todo p = name # names \<Longrightarrow> i < length (pool_Workers p) \<Longrightarrow> pool_Workers p ! i = Free \<Longrightarrow>
    pool_step resolve p (p\<lparr>pool_Todo := names, pool_Workers := (pool_Workers p)[i := Working name]\<rparr>)"
| settle: "i < length (pool_Workers p) \<Longrightarrow> pool_Workers p ! i = Working name \<Longrightarrow>
    pool_step resolve p (settled name (resolve name) (p\<lparr>pool_Workers := (pool_Workers p)[i := Free]\<rparr>))"
| leave: "pool_Todo p = [] \<Longrightarrow> i < length (pool_Workers p) \<Longrightarrow> pool_Workers p ! i = Free \<Longrightarrow>
    pool_step resolve p (p\<lparr>pool_Workers := (pool_Workers p)[i := Left]\<rparr>)"

definition pool_start :: "string list \<Rightarrow> nat \<Rightarrow> pool" where
  "pool_start names workers =
     \<lparr>pool_Todo = names, pool_Workers = replicate workers Free, pool_Resolved = Map.empty, pool_Failures = []\<rparr>"

text \<open>The loop over the names has ended and \<open>wg.Wait\<close> returns.\<close>

definition pool_done :: "pool \<Rightarrow> bool" where
  "pool_done p \<longleftrightarrow> pool_Todo p = [] \<and> list_all (\<lambda>w. w = Left) (pool_Workers p)"

section \<open>The table\<close>

definition license_json :: "packageLicense \<Rightarrow> json" where
  "license_json l =
     JObject ((if pl_SPDX l = [] then [] else [(''spdx'', JString (pl_SPDX l))])
       @ (if pl_Name l = [] then [] else [(''name'', JString (pl_Name l))]))"

text \<open>The members of a Go map are written in the order of their keys; \<open>names\<close> has all of them.\<close>

definition resolved_entries :: "string list \<Rightarrow> (string \<Rightarrow> packageLicense option) \<Rightarrow> (string \<times> json) list" where
  "resolved_entries names m =
     concat (map (\<lambda>n. case m n of None \<Rightarrow> [] | Some l \<Rightarrow> [(n, license_json l)]) (sort_strings names))"

definition license_table :: "(string \<times> json) list \<Rightarrow> string" where
  "license_table entries = marshal_indent 0 (JObject [(''packages'', JObject entries)]) @ [CHR 0x0A]"

definition resolving_failed :: "string list \<Rightarrow> string" where
  "resolving_failed failures = ''resolving licenses: '' @ join [CHR 0x0A] failures"

definition write_table :: "'s apt_world \<Rightarrow> string \<Rightarrow> (string \<times> json) list \<Rightarrow> string result" where
  "write_table x outPath entries =
     (let encoded = license_table entries
      in and_then (if outPath = [] then aw_Stdout x encoded else aw_WriteFile x outPath encoded) (\<lambda>_.
         Inr encoded))"

definition write_licenses :: "'s apt_world \<Rightarrow> string \<Rightarrow> string list \<Rightarrow> pool \<Rightarrow> string result" where
  "write_licenses x outPath names p =
     (if pool_Failures p \<noteq> [] then Inl (resolving_failed (pool_Failures p))
      else write_table x outPath (resolved_entries names (pool_Resolved p)))"

text \<open>What a run of the command may return, and the table it has written.\<close>

inductive licenses_Run :: "'s apt_world \<Rightarrow> string list \<Rightarrow> string \<Rightarrow> nat \<Rightarrow> string result \<Rightarrow> bool" for x paths outPath workers where
  unreadable: "unique_packages x paths [] = Inl err \<Longrightarrow> licenses_Run x paths outPath workers (Inl err)"
| resolved: "unique_packages x paths [] = Inr unique \<Longrightarrow> names = sort_strings (map fst unique) \<Longrightarrow>
    (pool_step (resolve_name x unique) ^^ n) (pool_start names workers) p \<Longrightarrow> pool_done p \<Longrightarrow>
    licenses_Run x paths outPath workers (write_licenses x outPath names p)"

inductive_cases licenses_RunE: "licenses_Run x paths outPath workers r"

section \<open>Versions\<close>

definition printVersions :: "string by_name \<Rightarrow> string list" where
  "printVersions versions =
     map (\<lambda>n. n @ [CHR 0x09] @ (case map_of versions n of Some v \<Rightarrow> v | None \<Rightarrow> [])) (sort_strings (map fst versions))"

definition versions_Run :: "'s apt_world \<Rightarrow> string \<Rightarrow> string \<Rightarrow> string list result" where
  "versions_Run x arch path =
     and_then (ParseFile (aw_ReadFile x path)) (\<lambda>lock.
       if arch \<noteq> [] then
         (case map_of (VersionsByArch lock) arch of
            None \<Rightarrow> Inl (''architecture '' @ arch @ '' not found in lock file'')
          | Some versions \<Rightarrow> Inr (printVersions versions))
       else Inr (printVersions (lockfile_Versions (pkgVersions (VersionsByArch lock)))))"

section \<open>Update\<close>

text \<open>
  The two timestamps and the name of the target that locks the manifest; the manifest is read once
  to be checked and once to be rewritten.
\<close>

definition apt_update_Run ::
  "'s apt_world \<Rightarrow> http_get \<Rightarrow> time \<Rightarrow> (string \<Rightarrow> manifest result) \<Rightarrow> string \<Rightarrow> (string \<times> string \<times> string) result" where
  "apt_update_Run x get now yaml manifestPath =
     (let path = workspace_path (aw_Workspace x) manifestPath
      in and_then
           (case FetchLatestSnapshot get now ''https://snapshot.debian.org/archive/debian/'' of
              Inl err \<Rightarrow> Inl (''failed to fetch debian snapshot: '' @ err) | Inr t \<Rightarrow> Inr t) (\<lambda>debianTimestamp.
         and_then
           (case FetchLatestSnapshot get now ''https://snapshot.debian.org/archive/debian-security/'' of
              Inl err \<Rightarrow> Inl (''failed to fetch debian-security snapshot: '' @ err) | Inr t \<Rightarrow> Inr t) (\<lambda>securityTimestamp.
         and_then (ParseManifest yaml (aw_ReadFile x path)) (\<lambda>_.
         and_then (case aw_ReadFile x path of Inl err \<Rightarrow> Inl (''failed to read manifest: '' @ err) | Inr b \<Rightarrow> Inr b) (\<lambda>b.
         and_then
           (case aw_WriteFile x path (UpdateTimestampsInFile b debianTimestamp securityTimestamp) of
              Inl err \<Rightarrow> Inl (''failed to write manifest: '' @ err) | Inr u \<Rightarrow> Inr u) (\<lambda>_.
           let base = Base path
           in Inr (debianTimestamp, securityTimestamp, trim_suffix base (Ext base))))))))"

section \<open>Every run of the workers\<close>

definition busy :: "worker \<Rightarrow> string list" where
  "busy w = (case w of Working name \<Rightarrow> [name] | _ \<Rightarrow> [])"

definition failure :: "(string \<Rightarrow> packageLicense result) \<Rightarrow> string \<Rightarrow> string list" where
  "failure resolve name = (case resolve name of Inl err \<Rightarrow> [name @ '': '' @ err] | Inr _ \<Rightarrow> [])"

definition outcome :: "(string \<Rightarrow> packageLicense result) \<Rightarrow> string \<Rightarrow> packageLicense option" where
  "outcome resolve name = (case resolve name of Inl _ \<Rightarrow> None | Inr l \<Rightarrow> Some l)"

text \<open>
  Every name is to do, with a worker, or handled; what was handled is in the table or among the
  failures; a worker leaves only when nothing is left to do.
\<close>

definition pool_inv :: "(string \<Rightarrow> packageLicense result) \<Rightarrow> string list \<Rightarrow> nat \<Rightarrow> pool \<Rightarrow> bool" where
  "pool_inv resolve names workers p \<longleftrightarrow>
     length (pool_Workers p) = workers \<and> (Left \<in> set (pool_Workers p) \<longrightarrow> pool_Todo p = []) \<and>
     (\<exists>handled. mset names = mset (pool_Todo p) + mset (concat (map busy (pool_Workers p))) + mset handled \<and>
       pool_Resolved p = (\<lambda>n. if n \<in> set handled then outcome resolve n else None) \<and>
       pool_Failures p = concat (map (failure resolve) handled))"

lemma pool_inv_start: "pool_inv resolve names workers (pool_start names workers)"
proof -
  have "concat (map busy (replicate workers Free)) = []" by (simp add: busy_def)
  then show ?thesis by (auto simp: pool_inv_def pool_start_def intro!: exI [of _ "[]"])
qed

lemma settled_fields:
  "pool_Todo (settled name res p) = pool_Todo p" "pool_Workers (settled name res p) = pool_Workers p"
  by (simp_all add: settled_def split: sum.split)

lemma settled_outcome:
  assumes "pool_Resolved p = (\<lambda>n. if n \<in> set handled then outcome resolve n else None)"
    "pool_Failures p = concat (map (failure resolve) handled)" "outcome resolve name = None \<or> True"
  shows "pool_Resolved (settled name (resolve name) p)
      = (\<lambda>n. if n \<in> set (handled @ [name]) then outcome resolve n else None)"
    "pool_Failures (settled name (resolve name) p) = concat (map (failure resolve) (handled @ [name]))"
  using assms by (auto simp: settled_def outcome_def failure_def fun_eq_iff split: sum.split)

lemma pool_inv_step:
  assumes "pool_step resolve p q" "pool_inv resolve names workers p"
  shows "pool_inv resolve names workers q"
  using assms
proof (induction rule: pool_step.induct)
  case (send p name ns i)
  then show ?case using mset_concat_update [of i "pool_Workers p" busy "Working name"]
    by (auto simp: pool_inv_def busy_def dest!: set_update_subset_insert [THEN subsetD])
next
  case (settle i p name)
  then obtain handled where h:
    "mset names = mset (pool_Todo p) + mset (concat (map busy (pool_Workers p))) + mset handled"
    "pool_Resolved p = (\<lambda>n. if n \<in> set handled then outcome resolve n else None)"
    "pool_Failures p = concat (map (failure resolve) handled)"
    by (auto simp: pool_inv_def)
  let ?p = "p\<lparr>pool_Workers := (pool_Workers p)[i := Free]\<rparr>"
  have "mset names = mset (pool_Todo ?p) + mset (concat (map busy (pool_Workers ?p))) + mset (handled @ [name])"
    using settle(1,2) h(1) mset_concat_update [of i "pool_Workers p" busy Free] by (simp add: busy_def)
  moreover have "length (pool_Workers ?p) = workers" "Left \<in> set (pool_Workers ?p) \<longrightarrow> pool_Todo ?p = []"
    using settle.prems by (auto simp: pool_inv_def dest!: set_update_subset_insert [THEN subsetD])
  moreover have "pool_Resolved ?p = (\<lambda>n. if n \<in> set handled then outcome resolve n else None)"
      "pool_Failures ?p = concat (map (failure resolve) handled)"
    using h by simp_all
  ultimately show ?case
    unfolding pool_inv_def settled_fields using settled_outcome [of ?p handled resolve name] by blast
next
  case (leave p i)
  then show ?case using mset_concat_update [of i "pool_Workers p" busy Left]
    by (auto simp: pool_inv_def busy_def dest!: set_update_subset_insert [THEN subsetD])
qed

text \<open>The steps a pool has ahead of it.\<close>

fun worker_steps :: "worker \<Rightarrow> nat" where
  "worker_steps Free = 1"
| "worker_steps (Working name) = 2"
| "worker_steps Left = 0"

definition steps_left :: "pool \<Rightarrow> nat" where
  "steps_left p = 2 * length (pool_Todo p) + sum_list (map worker_steps (pool_Workers p))"

lemma sum_steps_update:
  "i < length ws \<Longrightarrow>
     sum_list (map worker_steps (ws[i := w])) + worker_steps (ws ! i) = sum_list (map worker_steps ws) + worker_steps w"
proof (induction ws arbitrary: i)
  case (Cons v ws)
  then show ?case by (cases i) fastforce+
qed simp

lemma pool_step_steps:
  assumes "pool_step resolve p q"
  shows "steps_left p = Suc (steps_left q)"
  using assms
proof (induction rule: pool_step.induct)
  case (send p name ns i)
  then show ?case using sum_steps_update [of i "pool_Workers p" "Working name"] by (simp add: steps_left_def)
next
  case (settle i p name)
  then show ?case using sum_steps_update [of i "pool_Workers p" Free] by (simp add: steps_left_def settled_fields)
next
  case (leave p i)
  then show ?case using sum_steps_update [of i "pool_Workers p" Left] by (simp add: steps_left_def)
qed

lemma pool_no_deadlock:
  assumes "pool_inv resolve names workers p" "0 < workers" "\<not> pool_done p"
  shows "\<exists>q. pool_step resolve p q"
proof (cases "\<exists>i name. i < length (pool_Workers p) \<and> pool_Workers p ! i = Working name")
  case True
  then show ?thesis using pool_step.settle by blast
next
  case False
  have len: "length (pool_Workers p) = workers" and left: "Left \<in> set (pool_Workers p) \<Longrightarrow> pool_Todo p = []"
    using assms(1) by (auto simp: pool_inv_def)
  show ?thesis
  proof (cases "pool_Todo p")
    case (Cons name names)
    then have "pool_Workers p ! 0 \<noteq> Left" using left assms(2) len nth_mem by fastforce
    then have "pool_Workers p ! 0 = Free" using False assms(2) len by (cases "pool_Workers p ! 0") auto
    then show ?thesis using pool_step.send [OF Cons] assms(2) len by blast
  next
    case Nil
    then obtain i where i: "i < length (pool_Workers p)" "pool_Workers p ! i \<noteq> Left"
      using assms(3) by (auto simp: pool_done_def list_all_length)
    then have "pool_Workers p ! i = Free" using False by (cases "pool_Workers p ! i") auto
    then show ?thesis using pool_step.leave [OF Nil i(1)] by blast
  qed
qed

interpretation workers: terminating_runs "pool_step resolve" "\<lambda>p. 0 < workers \<and> pool_inv resolve names workers p"
    pool_done steps_left for resolve names workers
proof
  fix p q assume "0 < workers \<and> pool_inv resolve names workers p" "pool_step resolve p q"
  then show "0 < workers \<and> pool_inv resolve names workers q" "steps_left q < steps_left p"
    using pool_inv_step pool_step_steps by auto
next
  fix p assume "0 < workers \<and> pool_inv resolve names workers p" "\<not> pool_done p"
  then show "\<exists>q. pool_step resolve p q" using pool_no_deadlock by blast
qed

text \<open>What is left when all workers have.\<close>

lemma pool_done_handled:
  assumes "pool_inv resolve names workers p" "pool_done p"
  shows "\<exists>handled. mset handled = mset names \<and>
    pool_Resolved p = (\<lambda>n. if n \<in> set names then outcome resolve n else None) \<and>
    pool_Failures p = concat (map (failure resolve) handled)"
proof -
  obtain handled where h:
    "mset names = mset (pool_Todo p) + mset (concat (map busy (pool_Workers p))) + mset handled"
    "pool_Resolved p = (\<lambda>n. if n \<in> set handled then outcome resolve n else None)"
    "pool_Failures p = concat (map (failure resolve) handled)"
    using assms(1) by (auto simp: pool_inv_def)
  have "concat (map busy (pool_Workers p)) = []" "pool_Todo p = []"
    using assms(2) by (auto simp: pool_done_def list_all_iff busy_def)
  then have "mset handled = mset names" using h(1) by simp
  then show ?thesis using h(2,3) by (metis set_mset_mset)
qed


lemma resolved_entries_all:
  assumes "names = sort_strings ns" "\<And>n. n \<in> set names \<Longrightarrow> m n = Some (g n)"
  shows "resolved_entries names m = map (\<lambda>n. (n, license_json (g n))) names"
proof -
  have "sort_strings names = names"
    using assms(1) string_order.sort_stable_id [of names] sorted_sort_strings [of ns]
    by (simp add: sort_strings_def)
  moreover have "concat (map (\<lambda>n. case m n of None \<Rightarrow> [] | Some l \<Rightarrow> [(n, license_json l)]) l)
      = map (\<lambda>n. (n, license_json (g n))) l" if "set l \<subseteq> set names" for l
    using that assms(2) by (induction l) auto
  ultimately show ?thesis by (simp add: resolved_entries_def)
qed

lemma failures_empty: "concat (map (failure resolve) l) = [] \<longleftrightarrow> (\<forall>n. n \<in> set l \<longrightarrow> \<not> isl (resolve n))"
  by (induction l) (auto simp: failure_def split: sum.splits)


section \<open>The bytes a licence is read from\<close>

definition answers :: "'s apt_world \<Rightarrow> string \<Rightarrow> string option" where
  "answers x url = (case aw_Get x url of Inr (status, Inr b) \<Rightarrow> if status = 200 then Some b else None | _ \<Rightarrow> None)"

lemma first_such:
  "(\<exists>before y behind. a # l = before @ y # behind \<and> list_all P before \<and> R y) \<longleftrightarrow>
     R a \<or> P a \<and> (\<exists>before y behind. l = before @ y # behind \<and> list_all P before \<and> R y)"
proof
  assume "\<exists>before y behind. a # l = before @ y # behind \<and> list_all P before \<and> R y"
  then obtain before y behind where s: "a # l = before @ y # behind" "list_all P before" "R y" by blast
  then show "R a \<or> P a \<and> (\<exists>before y behind. l = before @ y # behind \<and> list_all P before \<and> R y)"
    by (cases before) auto
next
  assume "R a \<or> P a \<and> (\<exists>before y behind. l = before @ y # behind \<and> list_all P before \<and> R y)"
  then consider "R a" | before y behind where "P a" "l = before @ y # behind" "list_all P before" "R y" by blast
  then show "\<exists>before y behind. a # l = before @ y # behind \<and> list_all P before \<and> R y"
  proof cases
    case 1
    then show ?thesis by (intro exI [of _ "[]"] exI [of _ a] exI [of _ l]) simp
  next
    case 2
    then show ?thesis by (intro exI [of _ "a # before"] exI [of _ y] exI [of _ behind]) simp
  qed
qed

lemma download_urls_first:
  "download_urls x sha urls lastErr = Inr b \<longleftrightarrow>
     (\<exists>before url behind. urls = before @ url # behind \<and> list_all (\<lambda>u. answers x u = None) before \<and>
       answers x url = Some b \<and> hex_encode (sha256 b) = sha)"
proof (induction urls arbitrary: lastErr)
  case (Cons u urls)
  show ?case
  proof (cases "answers x u")
    case None
    then obtain err where e: "download_urls x sha (u # urls) lastErr = download_urls x sha urls (Some err)"
      by (auto simp: answers_def split: sum.splits if_splits)
    show ?thesis unfolding e first_such Cons.IH using None by simp
  next
    case (Some c)
    then have "aw_Get x u = Inr (200, Inr c)"
      by (auto simp: answers_def split: sum.splits if_splits)
    then show ?thesis using Some unfolding first_such by (auto simp: Let_def)
  qed
qed simp

text \<open>
  C40: a licence is read from nothing but the bytes the lockfile pins: a download succeeds exactly if
  the first URL that answers at all serves a body with the pinned digest. A mirror that
  serves other bytes fails the package, it is not passed over.
\<close>

theorem download_pinned:
  "download x pkg = Inr b \<longleftrightarrow>
     (\<exists>before url behind. lp_URLs pkg = before @ url # behind \<and> list_all (\<lambda>u. answers x u = None) before \<and>
       answers x url = Some b \<and> hex_encode (sha256 b) = lp_SHA256 pkg)"
  unfolding download_def by (rule download_urls_first)

text \<open>With no workers the first send waits forever: the flag \<open>--workers 0\<close> is accepted.\<close>

theorem no_workers_deadlock:
  "\<not> pool_done (pool_start (name # names) 0) \<and> \<not> pool_step resolve (pool_start (name # names) 0) p"
proof -
  have "\<not> pool_step resolve q p" if "pool_Workers q = []" for q
    using that by (auto elim: pool_step.cases)
  then show ?thesis by (simp add: pool_done_def pool_start_def)
qed

section \<open>Example\<close>

definition sample_apt :: "unit apt_world" where
  "sample_apt =
     \<lparr>aw_Workspace = [],
      aw_ReadFile = (\<lambda>_. Inr (map (\<lambda>c. if c = CHR ''~'' then CHR 0x22 else c)
        ''{~packages~:[{~name~:~b~,~urls~:[~u~]},{~name~:~a~},{~name~:~b~}]}'')),
      aw_Get = (\<lambda>_. Inl ''refused''),
      aw_Deb = \<lparr>dr_ar = (\<lambda>_. []), dr_plain = (\<lambda>_. ()), dr_gzip = (\<lambda>_. Inr ()), dr_xz = (\<lambda>_. Inr ()),
                dr_zstd = (\<lambda>_. Inr ()), dr_tar = (\<lambda>_. [])\<rparr>,
      aw_Stdout = (\<lambda>_. Inr ()), aw_WriteFile = (\<lambda>_ _. Inr ())\<rparr>"

definition sample_locked :: "string \<Rightarrow> string list \<Rightarrow> locked_package" where
  "sample_locked name urls =
     \<lparr>lp_Arch = [], lp_Key = [], lp_Name = name, lp_SHA256 = [], lp_URLs = urls, lp_Version = []\<rparr>"

lemma sample_unique:
  "unique_packages sample_apt [''l''] [] = Inr [(''b'', sample_locked ''b'' [''u'']), (''a'', sample_locked ''a'' [])]"
  by code_simp

lemma sample_refused:
  "resolve_name sample_apt [(''b'', sample_locked ''b'' [''u'']), (''a'', sample_locked ''a'' [])] ''b'' = Inl ''refused''"
  by code_simp


end
