(* ===== verification/Knife_Bep.thy ===== *)
theory Knife_Bep
  imports Bep_Digests Knife
begin

text \<open>
  bazel/cmd/knife/cmd/bep/bep.go: \<open>knife bep digests\<close> prints the digests of a build event file as one
  line of JSON, an object whose keys are in order.
\<close>

definition encode_map :: "(string \<times> string) list \<Rightarrow> string" where
  "encode_map kvs =
     ''{'' @ join '','' (map (\<lambda>(k, v). json_quote k @ '':'' @ json_quote v)
       (sort_stable (\<lambda>a b. cmp_compare (fst a) (fst b)) kvs)) @ ''}'' @ [CHR 0x0A]"

definition knife_bep_digests :: "(string \<Rightarrow> string result) \<Rightarrow> string \<Rightarrow> string result" where
  "knife_bep_digests open_file path =
     (case open_file path of
        Inl err \<Rightarrow> Inl (''opening the build event file: '' @ err)
      | Inr blob \<Rightarrow> and_then (OutputDigests blob) (\<lambda>digests. Inr (encode_map digests)))"

interpretation key_order: three_way "\<lambda>a b. cmp_compare (fst a :: string) (fst b)" "\<lambda>_. True"
  by (rule three_way_key)

text \<open>What is printed is a function of the map: the order its entries were collected in is lost.\<close>

lemma encode_map_order:
  assumes "mset kvs = mset kvs'" "distinct (map fst kvs)"
  shows "encode_map kvs = encode_map kvs'"
proof -
  have inj: "inj_on fst (set kvs)" using assms(2) by (simp add: distinct_map)
  have set: "set kvs' = set kvs" using assms(1) by (metis set_mset_mset)
  have d: "distinct kvs" "distinct kvs'" using assms by (auto simp: distinct_map dest: mset_eq_imp_distinct_iff)
  have "filter (\<lambda>y. cmp_compare (fst z) (fst y) = 0) l = filter (\<lambda>y. z = y) l"
    if "z \<in> set kvs" "set l = set kvs" for z l
    using that inj by (intro filter_cong) (auto simp: inj_on_def cmp_compare_def split: if_splits)
  moreover have "filter (\<lambda>y. z = y) l = [z]" if "distinct l" "z \<in> set l" for z and l :: "(string \<times> string) list"
    using that
  proof (induction l)
    case (Cons a l)
    then show ?case by (cases "z = a") (auto simp: filter_empty_conv)
  qed simp
  ultimately have "sort_stable (\<lambda>a b. cmp_compare (fst a) (fst b)) kvs'
      = sort_stable (\<lambda>a b. cmp_compare (fst a) (fst b)) kvs"
    using d assms(1) set
    by (intro key_order.sort_stable_unique key_order.sort_sorted) auto
  then show ?thesis by (simp add: encode_map_def)
qed

end
