(* ===== verification/Fake_Registry.thy ===== *)
theory Fake_Registry
  imports Go_Url Go_Json Go_Bufio
begin

text \<open>
  oci/ocitest/fakeregistry.go: the registry the proxy is tested against, a real in-memory one behind
  a layer of bearer tokens. The registry itself is a parameter, a function of the request; so is a
  push to it. An absent header is the empty string, as \<open>Header.Get\<close> has it.
\<close>

section \<open>Requests\<close>

record registry_request =
  rq_Method :: string
  rq_Path :: string
  rq_RawQuery :: string
  rq_Host :: string
  rq_Authorization :: string

record registry_answer =
  ra_Status :: nat
  ra_Header :: "(string \<times> string) list"
  ra_Body :: string

definition answer :: "nat \<Rightarrow> (string \<times> string) list \<Rightarrow> string \<Rightarrow> registry_answer" where
  "answer status header body = \<lparr>ra_Status = status, ra_Header = header, ra_Body = body\<rparr>"

definition unauthorized :: registry_answer where
  "unauthorized = answer 401 [] []"

text \<open>\<open>strings.SplitN\<close>: at most so many parts, the last one whole.\<close>

fun split_n :: "nat \<Rightarrow> string \<Rightarrow> char \<Rightarrow> string list" where
  "split_n 0 s c = []"
| "split_n (Suc 0) s c = [s]"
| "split_n (Suc (Suc n)) s c =
     (case cut_byte s c of None \<Rightarrow> [s] | Some (a, b) \<Rightarrow> a # split_n (Suc n) b c)"

text \<open>\<open>net.SplitHostPort\<close>, of which the port is used and the error dropped.\<close>

definition port_of :: "string \<Rightarrow> string" where
  "port_of hostport =
     (case last_index_byte hostport CHR '':'' of
        None \<Rightarrow> []
      | Some i \<Rightarrow>
          (let port = drop (Suc i) hostport
           in if hostport \<noteq> [] \<and> hd hostport = CHR ''['' then
                (case index_byte hostport CHR '']'' of
                   None \<Rightarrow> []
                 | Some e \<Rightarrow>
                     if Suc e \<noteq> i \<or> CHR ''['' \<in> set (tl hostport) \<or> CHR '']'' \<in> set (drop (Suc e) hostport) then []
                     else port)
              else if CHR '':'' \<in> set (take i hostport) \<or> CHR ''['' \<in> set hostport \<or> CHR '']'' \<in> set hostport then []
              else port))"

definition joined_host :: "string \<Rightarrow> string" where
  "joined_host port = ''localhost:'' @ port"

section \<open>The registry\<close>

record fake_registry =
  fr_DenyAuth :: bool
  fr_pushedRepos :: "string list"

definition extractRepoFromScope :: "string \<Rightarrow> string" where
  "extractRepoFromScope scope =
     (let parts = split_n 3 scope CHR '':'' in if length parts < 2 then [] else parts ! 1)"

definition scopeMatchesPushed :: "fake_registry \<Rightarrow> string \<Rightarrow> bool" where
  "scopeMatchesPushed f scope \<longleftrightarrow> extractRepoFromScope scope \<in> set (fr_pushedRepos f)"

definition denied_body :: string where
  "denied_body =
     map (\<lambda>c. if c = CHR ''~'' then CHR 0x22 else c)
       ''{~errors~:[{~code~:~DENIED~,~message~:~requested access to the resource is denied~}]}''"

definition token_body :: "string \<Rightarrow> string" where
  "token_body token = ''{'' @ json_quote ''token'' @ '':'' @ json_quote token @ ''}'' @ [CHR 0x0A]"

definition serve_token :: "fake_registry \<Rightarrow> string \<Rightarrow> registry_answer" where
  "serve_token f scope =
     (if fr_DenyAuth f \<and> \<not> scopeMatchesPushed f scope
      then answer 403 [(''Content-Type'', ''application/json'')] denied_body
      else answer 200 [(''Content-Type'', ''application/json'')] (token_body (''token-'' @ scope)))"

definition challenge :: "string \<Rightarrow> registry_answer" where
  "challenge requestHost =
     (let host = joined_host (port_of requestHost); q = [CHR 0x22]
      in answer 401
           [(''Www-Authenticate'', ''Bearer realm='' @ q @ ''http://'' @ host @ ''/auth/token'' @ q @ '',service='' @ q @ host @ q)] [])"

text \<open>The repository a path names, when it has an operation and a reference behind it.\<close>

definition path_repo :: "string \<Rightarrow> string option" where
  "path_repo path =
     (if \<not> has_prefix path ''/v2/'' then None
      else
        (let parts = split_byte (trim_prefix path ''/v2/'') CHR ''/''
         in if length parts < 3 then None
            else
              (let repo = join ''/'' (take (length parts - 2) parts)
               in if repo = [] then None else Some repo)))"

definition FakeRegistry_ServeHTTP ::
  "fake_registry \<Rightarrow> (registry_request \<Rightarrow> registry_answer) \<Rightarrow> registry_request \<Rightarrow> registry_answer" where
  "FakeRegistry_ServeHTTP f backend r =
     (if rq_Path r = ''/auth/token'' then serve_token f (query_get (rq_RawQuery r) ''scope'')
      else if rq_Path r = ''/v2/'' \<or> rq_Path r = ''/v2'' then challenge (rq_Host r)
      else if rq_Method r \<noteq> ''GET'' \<and> rq_Method r \<noteq> ''HEAD'' then backend r
      else if \<not> has_prefix (rq_Authorization r) ''Bearer '' then unauthorized
      else
        (let token = trim_prefix (rq_Authorization r) ''Bearer ''
         in if \<not> has_prefix token ''token-'' then unauthorized
            else
              (let scope = trim_prefix token ''token-''
               in case path_repo (rq_Path r) of
                    None \<Rightarrow> backend r
                  | Some repo \<Rightarrow> if extractRepoFromScope scope \<noteq> repo then unauthorized else backend r)))"

section \<open>Its servers\<close>

definition NewServer :: fake_registry where
  "NewServer = \<lparr>fr_DenyAuth = False, fr_pushedRepos = []\<rparr>"

definition NewServerDenyAuth :: fake_registry where
  "NewServerDenyAuth = \<lparr>fr_DenyAuth = True, fr_pushedRepos = []\<rparr>"

definition WithBlobRedirect :: "string \<Rightarrow> (registry_request \<Rightarrow> registry_answer) \<Rightarrow> registry_request \<Rightarrow> registry_answer" where
  "WithBlobRedirect redirectURL handler r =
     (if contains_str (rq_Path r) ''/blobs/sha256:'' then answer 307 [(''Location'', redirectURL)] []
      else handler r)"

text \<open>
  A push with the tokens open to everyone; the image it is given is what the pusher makes up. The
  test ends where the push fails.
\<close>

definition MustPushImage :: "(fake_registry \<Rightarrow> string \<Rightarrow> string \<Rightarrow> 'i result) \<Rightarrow> fake_registry \<Rightarrow> string \<Rightarrow> string \<Rightarrow> ('i \<times> fake_registry) result" where
  "MustPushImage push f repo tag =
     (let savedDeny = fr_DenyAuth f
      in case push (f\<lparr>fr_DenyAuth := False\<rparr>) repo tag of
           Inl err \<Rightarrow> Inl err
         | Inr img \<Rightarrow>
             Inr (img, f\<lparr>fr_DenyAuth := savedDeny,
               fr_pushedRepos := (if repo \<in> set (fr_pushedRepos f) then fr_pushedRepos f else repo # fr_pushedRepos f)\<rparr>))"

section \<open>Who may read what\<close>

text \<open>The path of an operation on a repository.\<close>

definition repo_path :: "string \<Rightarrow> string \<Rightarrow> string \<Rightarrow> string" where
  "repo_path repo op ref = ''/v2/'' @ repo @ ''/'' @ op @ ''/'' @ ref"

definition bearer :: "string \<Rightarrow> string" where
  "bearer scope = ''Bearer token-'' @ scope"

definition reading :: "registry_request \<Rightarrow> bool" where
  "reading r \<longleftrightarrow> rq_Method r = ''GET'' \<or> rq_Method r = ''HEAD''"

lemma path_repo_op:
  assumes "CHR ''/'' \<notin> set op" "CHR ''/'' \<notin> set ref" "repo \<noteq> []"
  shows "path_repo (repo_path repo op ref) = Some repo"
proof -
  have "split_byte (repo @ CHR ''/'' # op @ CHR ''/'' # ref) CHR ''/'' = split_byte repo CHR ''/'' @ [op, ref]"
    using assms by (simp add: split_byte_sep split_byte_append split_byte_no_sep)
  moreover have "0 < length (split_byte repo CHR ''/'')" by simp
  ultimately show ?thesis
    using assms(3) trim_prefix_append [of "''/v2/''"]
    by (simp add: path_repo_def repo_path_def Let_def join_split_byte)
qed

lemma bearer_shape:
  "has_prefix a ''Bearer '' \<and> has_prefix (trim_prefix a ''Bearer '') ''token-'' \<longleftrightarrow> (\<exists>scope. a = bearer scope)"
proof
  assume "has_prefix a ''Bearer '' \<and> has_prefix (trim_prefix a ''Bearer '') ''token-''"
  then obtain t s where "a = ''Bearer '' @ t" "trim_prefix a ''Bearer '' = ''token-'' @ s"
    unfolding has_prefix_iff by blast
  then have "a = ''Bearer '' @ ''token-'' @ s" using trim_prefix_append [of "''Bearer ''" t] by simp
  then have "a = bearer s" by (simp add: bearer_def)
  then show "\<exists>scope. a = bearer scope" by (rule exI)
next
  assume "\<exists>scope. a = bearer scope"
  then obtain s where a: "a = ''Bearer '' @ ''token-'' @ s" by (auto simp: bearer_def)
  show "has_prefix a ''Bearer '' \<and> has_prefix (trim_prefix a ''Bearer '') ''token-''"
    unfolding a trim_prefix_append by (simp only: has_prefix_append simp_thms)
qed

lemma bearer_scope:
  "trim_prefix (trim_prefix (bearer scope) ''Bearer '') ''token-'' = scope"
proof -
  have "bearer scope = ''Bearer '' @ ''token-'' @ scope" by (simp add: bearer_def)
  then show ?thesis by (simp only: trim_prefix_append)
qed

lemma FakeRegistry_read:
  assumes "reading r" "rq_Path r = repo_path repo op ref" "CHR ''/'' \<notin> set op" "CHR ''/'' \<notin> set ref" "repo \<noteq> []"
  shows "FakeRegistry_ServeHTTP f backend r =
    (if \<exists>scope. rq_Authorization r = bearer scope \<and> extractRepoFromScope scope = repo then backend r else unauthorized)"
proof (cases "\<exists>scope. rq_Authorization r = bearer scope")
  case True
  then obtain scope where s: "rq_Authorization r = bearer scope" by blast
  then have p: "has_prefix (bearer scope) ''Bearer ''" "has_prefix (trim_prefix (bearer scope) ''Bearer '') ''token-''"
    using bearer_shape by blast+
  have inj: "bearer scope = bearer s \<longleftrightarrow> scope = s" for s by (simp add: bearer_def)
  have other: "rq_Path r \<noteq> ''/auth/token''" "rq_Path r \<noteq> ''/v2/''" "rq_Path r \<noteq> ''/v2''"
    using assms(2,5) by (simp_all add: repo_path_def)
  show ?thesis
    using assms(1) other p path_repo_op [OF assms(3-5)] unfolding FakeRegistry_ServeHTTP_def Let_def s bearer_scope assms(2) [symmetric]
    by (auto simp: reading_def inj)
next
  case False
  then have "\<not> (has_prefix (rq_Authorization r) ''Bearer '' \<and>
      has_prefix (trim_prefix (rq_Authorization r) ''Bearer '') ''token-'')"
    using bearer_shape by blast
  moreover have "rq_Path r \<noteq> ''/auth/token''" "rq_Path r \<noteq> ''/v2/''" "rq_Path r \<noteq> ''/v2''"
    using assms(2,5) by (simp_all add: repo_path_def)
  ultimately show ?thesis
    using assms(1) False unfolding FakeRegistry_ServeHTTP_def Let_def by (auto simp: reading_def)
qed

lemma extractRepo_scope:
  assumes "CHR '':'' \<notin> set repo"
  shows "extractRepoFromScope (''repository:'' @ repo @ '':'' @ actions) = repo"
proof -
  have "CHR '':'' \<notin> set ''repository''" by simp
  then have "cut_byte (''repository'' @ CHR '':'' # repo @ CHR '':'' # actions) CHR '':'' = Some (''repository'', repo @ CHR '':'' # actions)"
    by (rule cut_byte_append)
  then show ?thesis
    using assms by (simp add: extractRepoFromScope_def numeral_3_eq_3 del: cut_byte.simps)
qed

text \<open>
  A test that pushed to a repository reads it as a client of a real registry would: a read without a
  token of that repository is refused, the token endpoint hands out one for its scope, and
  with it the read reaches the registry. On a server that denies, the endpoint refuses every
  scope but those of repositories that were pushed to.
\<close>

theorem FakeRegistry_token:
  assumes "MustPushImage push f repo tag = Inr (img, f')"
    and "reading r" "rq_Path r = repo_path repo op ref" "CHR ''/'' \<notin> set op" "CHR ''/'' \<notin> set ref"
    and "repo \<noteq> []" "CHR '':'' \<notin> set repo"
    and "rq_Path t = ''/auth/token''" "rq_RawQuery t = ''scope='' @ QueryEscape scope"
  shows "(scope = ''repository:'' @ repo @ '':'' @ actions \<longrightarrow>
      ra_Body (FakeRegistry_ServeHTTP f' backend t) = token_body (''token-'' @ scope) \<and>
      FakeRegistry_ServeHTTP f' backend (r\<lparr>rq_Authorization := bearer scope\<rparr>) = backend (r\<lparr>rq_Authorization := bearer scope\<rparr>)) \<and>
    (rq_Authorization r = [] \<longrightarrow> FakeRegistry_ServeHTTP f' backend r = unauthorized) \<and>
    (fr_DenyAuth f \<and> extractRepoFromScope scope \<notin> insert repo (set (fr_pushedRepos f)) \<longrightarrow>
      ra_Status (FakeRegistry_ServeHTTP f' backend t) = 403)"
proof -
  have f': "fr_DenyAuth f' = fr_DenyAuth f" "set (fr_pushedRepos f') = insert repo (set (fr_pushedRepos f))"
    using assms(1) by (auto simp: MustPushImage_def Let_def split: sum.splits if_splits)
  have q: "query_get (rq_RawQuery t) ''scope'' = scope"
    using query_get_single [of "''scope''" scope] assms(9) by (simp add: QueryUnescape_def)
  have t: "FakeRegistry_ServeHTTP f' backend t = serve_token f' scope"
    by (simp add: FakeRegistry_ServeHTTP_def assms(8) q)
  have none: "rq_Authorization r = [] \<Longrightarrow> FakeRegistry_ServeHTTP f' backend r = unauthorized"
    using FakeRegistry_read [OF assms(2-6)] by (simp add: bearer_def)
  have ok: "FakeRegistry_ServeHTTP f' backend (r\<lparr>rq_Authorization := bearer scope\<rparr>) = backend (r\<lparr>rq_Authorization := bearer scope\<rparr>)"
    if "extractRepoFromScope scope = repo"
    using FakeRegistry_read [of "r\<lparr>rq_Authorization := bearer scope\<rparr>" repo op ref f' backend] assms that
    by (auto simp: reading_def)
  show ?thesis
    using ok none f' extractRepo_scope [OF assms(7), of actions] unfolding t
    by (auto simp: serve_token_def scopeMatchesPushed_def answer_def)
qed

section \<open>Example\<close>

theorem FakeRegistry_token_witness:
  "FakeRegistry_ServeHTTP \<lparr>fr_DenyAuth = True, fr_pushedRepos = [''a/b'']\<rparr> (\<lambda>r. answer 200 [] ''image'')
     \<lparr>rq_Method = ''GET'', rq_Path = ''/v2/a/b/manifests/latest'', rq_RawQuery = [], rq_Host = ''h:1'', rq_Authorization = []\<rparr>
       = unauthorized"
proof -
  define r where "r = \<lparr>rq_Method = ''GET'', rq_Path = ''/v2/a/b/manifests/latest'', rq_RawQuery = [], rq_Host = ''h:1'',
    rq_Authorization = []\<rparr>"
  have "MustPushImage (\<lambda>f repo tag. Inr ()) NewServerDenyAuth ''a/b'' ''latest'' = Inr ((), \<lparr>fr_DenyAuth = True, fr_pushedRepos = [''a/b'']\<rparr>)"
    by (simp add: MustPushImage_def NewServerDenyAuth_def Let_def)
  from FakeRegistry_token [OF this, of r "''manifests''" "''latest''"
      "r\<lparr>rq_Path := ''/auth/token'', rq_RawQuery := ''scope='' @ QueryEscape ''repository:a/c:pull''\<rparr>"
      "''repository:a/c:pull''" "''pull''" "\<lambda>r. answer 200 [] ''image''"]
  show ?thesis by (simp add: r_def reading_def repo_path_def)
qed

end
