(* ===== verification/Servers.thy ===== *)
theory Servers
  imports Mirror_Laws Registry_Proxy Go_Runs
begin

text \<open>
  The two servers: web/cmd/server/main.go, the directory over the mirror, and
  oci/cmd/registry/main.go, the registry proxy. What a server is made of is a function of its
  flags; the life of its process, the same for both, is the step relation \<open>server_step\<close>. The listener,
  the embedded trusted root and sigstore-go are parameters, and so are the compression of the answers
  and the redirect of a path that is not clean, which \<open>http.ServeMux\<close> sends before it routes.
\<close>

section \<open>The policy\<close>

definition CertificateIdentityRegexp :: string where
  "CertificateIdentityRegexp =
     map (\<lambda>c. if c = CHR ''~'' then CHR 0x5C else c)
       (''^https://github~.com/arkeros/distroless/~.github/workflows/ci~.yaml@refs/heads/main'' @ ''$'')"

definition CertificateOIDCIssuer :: string where
  "CertificateOIDCIssuer = ''https://token.actions.githubusercontent.com''"

section \<open>The directory server\<close>

record web_flags =
  wf_port :: string
  wf_upstream :: string
  wf_repositoryPrefix :: string
  wf_mirrorHost :: string
  wf_certificateIdentity :: string
  wf_oidcIssuer :: string

definition default_flags :: web_flags where
  "default_flags =
     \<lparr>wf_port = ''8080'', wf_upstream = ''ghcr.io'', wf_repositoryPrefix = ''arkeros/distroless'',
      wf_mirrorHost = ''distroless.io'', wf_certificateIdentity = CertificateIdentityRegexp,
      wf_oidcIssuer = CertificateOIDCIssuer\<rparr>"

text \<open>\<open>attestation.New\<close>: the verifier over the embedded root, with the default checks.\<close>

definition attestation_New ::
  "('m, 'v, 'i, 'e) sigstore \<Rightarrow> 'm result \<Rightarrow> string \<Rightarrow> string \<Rightarrow> ('v, 'i) verifier result" where
  "attestation_New sg trustedRoot certificateIdentityRegexp oidcIssuer =
     (case trustedRoot of
        Inl err \<Rightarrow> Inl (''loading embedded Sigstore trusted root: '' @ err)
      | Inr material \<Rightarrow> NewWithTrustedMaterial sg material certificateIdentityRegexp oidcIssuer [])"

definition web_verifier ::
  "('m, 'v, 'i, 'e) sigstore \<Rightarrow> 'm result \<Rightarrow> web_flags \<Rightarrow> ('v, 'i) verifier result" where
  "web_verifier sg trustedRoot flags =
     attestation_New sg trustedRoot (wf_certificateIdentity flags) (wf_oidcIssuer flags)"

text \<open>\<open>mirror.New\<close> on the flags: the registry as it is at some instant, seen with the verifier.\<close>

definition web_mirror ::
  "('m, 'v, 'i, 'e) sigstore \<Rightarrow> ('v, 'i) verifier \<Rightarrow> web_flags \<Rightarrow> mirror \<Rightarrow> mirror" where
  "web_mirror sg verifier flags m =
     m\<lparr>mi_registry := wf_upstream flags, mi_prefix := wf_repositoryPrefix flags, mi_Verify := Verify sg verifier\<rparr>"

definition healthz :: response where
  "healthz = write_body (''ok'' @ [CHR 0x0A]) (set_header ''Content-Type'' ''text/plain; charset=utf-8'' fresh)"

text \<open>The routes: the health check, and the directory for everything else.\<close>

definition web_mux :: "env \<Rightarrow> request \<Rightarrow> response" where
  "web_mux e r =
     (if Segments r = [''healthz''] \<and> (Method r = ''GET'' \<or> Method r = ''HEAD'') then healthz
      else NewHandler e r)"

definition web_handler ::
  "('m, 'v, 'i, 'e) sigstore \<Rightarrow> ('v, 'i) verifier \<Rightarrow> web_flags \<Rightarrow> mirror \<Rightarrow> env \<Rightarrow> time \<Rightarrow> client \<Rightarrow> request \<Rightarrow> response" where
  "web_handler sg verifier flags m e now st r =
     web_mux (e\<lparr>Src := client_source (web_mirror sg verifier flags m) now st, MirrorName := wf_mirrorHost flags\<rparr>) r"

section \<open>The proxy server\<close>

record registry_flags =
  rf_port :: string
  rf_upstream :: string
  rf_repositoryPrefix :: string
  rf_repos :: "string list"

definition repeatedString_Set :: "string list \<Rightarrow> string \<Rightarrow> string list" where
  "repeatedString_Set r s = r @ [s]"

definition registry_defaults :: registry_flags where
  "registry_defaults =
     \<lparr>rf_port = ''8080'', rf_upstream = ''ghcr.io'', rf_repositoryPrefix = ''arkeros/distroless'', rf_repos = []\<rparr>"

definition registry_handler ::
  "registry_flags \<Rightarrow> (string \<Rightarrow> string \<Rightarrow> string \<Rightarrow> (nat option \<times> string) + 't) \<Rightarrow>
    ('t \<Rightarrow> upstream_request \<Rightarrow> upstream_response result) \<Rightarrow> (string list \<Rightarrow> string \<Rightarrow> bool) \<Rightarrow>
    't transports \<Rightarrow> proxy_request \<Rightarrow> response option \<times> 't transports" where
  "registry_handler flags transport roundTrip resident =
     ServeHTTP (Registry_Proxy.New (rf_upstream flags) (rf_repositoryPrefix flags) False (rf_repos flags)
       transport roundTrip resident)"

section \<open>The life of a process\<close>

text \<open>
  The process listens, serves until serving fails or a signal comes, and then drains the requests
  it has for at most five seconds. When both have happened either branch of the select may run.
\<close>

datatype process_state = Starting | Serving | Draining | Exited nat

definition listen_address :: "string \<Rightarrow> string" where
  "listen_address port = '':'' @ port"

inductive server_step :: "(string \<Rightarrow> unit result) \<Rightarrow> string \<Rightarrow> process_state \<Rightarrow> process_state \<Rightarrow> bool" for listen port where
  refused: "listen (listen_address port) = Inl err \<Longrightarrow> server_step listen port Starting (Exited 1)"
| listening: "listen (listen_address port) = Inr () \<Longrightarrow> server_step listen port Starting Serving"
| failed: "server_step listen port Serving (Exited 1)"
| signalled: "server_step listen port Serving Draining"
| drained: "server_step listen port Draining (Exited 0)"
| overdue: "server_step listen port Draining (Exited 1)"

inductive_cases server_stepE: "server_step listen port p q"

text \<open>The directory refuses to start without a verifier.\<close>

definition web_main ::
  "('m, 'v, 'i, 'e) sigstore \<Rightarrow> 'm result \<Rightarrow> web_flags \<Rightarrow> process_state \<times> ('v, 'i) verifier option" where
  "web_main sg trustedRoot flags =
     (case web_verifier sg trustedRoot flags of
        Inl err \<Rightarrow> (Exited 1, None)
      | Inr verifier \<Rightarrow> (Starting, Some verifier))"

fun stage :: "process_state \<Rightarrow> nat" where
  "stage Starting = 0"
| "stage Serving = 1"
| "stage Draining = 2"
| "stage (Exited n) = 3"

text \<open>A process always goes on until it has exited, with a status of 0 only out of draining.\<close>

lemma server_progress: "(\<exists>q. server_step listen port p q) \<longleftrightarrow> (\<forall>n. p \<noteq> Exited n)"
proof (cases p)
  case Starting
  then show ?thesis by (cases "listen (listen_address port)") (auto intro: server_step.intros)
qed (auto intro: server_step.intros elim: server_stepE)

interpretation lifetime: terminating_runs "server_step listen port" "\<lambda>_. True" "\<lambda>p. \<exists>n. p = Exited n"
    "\<lambda>p. 3 - stage p" for listen port
proof
  fix p q assume "server_step listen port p q"
  then show "3 - stage q < 3 - stage p" by (auto elim: server_stepE)
next
  fix p assume "\<nexists>n. p = Exited n"
  then show "\<exists>q. server_step listen port p q" using server_progress by blast
qed simp

lemma clean_exit: "server_step listen port p (Exited 0) \<longleftrightarrow> p = Draining"
  by (auto intro: server_step.intros elim: server_stepE)

section \<open>What the directory server shows\<close>

lemma web_verifier_policy:
  assumes "web_verifier sg trustedRoot flags = Inr v"
  shows "\<exists>material. trustedRoot = Inr material \<and> sg_NewVerifier sg material Checks = Inr (vf_verifier v) \<and>
    sg_NewIdentity sg (wf_oidcIssuer flags) (wf_certificateIdentity flags) = Inr (vf_identity v)"
  using assms
  by (auto simp: web_verifier_def attestation_New_def NewWithTrustedMaterial_def split: sum.splits)

lemma web_mirror_simps [simp]:
  "mi_Verify (web_mirror sg v flags m) = Verify sg v" "mi_decodeBOM (web_mirror sg v flags m) = mi_decodeBOM m"
  by (simp_all add: web_mirror_def)


definition sample_sg :: "(unit, unit, string, string) sigstore" where
  "sample_sg =
     \<lparr>sg_NewVerifier = (\<lambda>_ _. Inr ()), sg_NewIdentity = (\<lambda>issuer re. Inr issuer), sg_UnmarshalJSON = Inr,
      sg_Verify = (\<lambda>_ e d i. if e = ''sbom'' \<and> i = ''i''
        then Inr \<lparr>vr_Statement = Some (CycloneDX, Inr ''doc''), vr_Timestamps = [5]\<rparr> else Inl ''no'')\<rparr>"

definition sample_flags :: web_flags where
  "sample_flags =
     \<lparr>wf_port = ''1'', wf_upstream = ''r'', wf_repositoryPrefix = [], wf_mirrorHost = ''h'',
      wf_certificateIdentity = ''ci'', wf_oidcIssuer = ''i''\<rparr>"

definition sample_verifier :: "(unit, string) verifier" where
  "sample_verifier = \<lparr>vf_verifier = (), vf_identity = ''i''\<rparr>"

lemma sample_served:
  "fst (SBOM (web_mirror sample_sg sample_verifier sample_flags sample_mirror) 1 Mirror_Client.New ''java'' ''latest'')
     = Inr (Hash_String 7, sample_components)"
  by code_simp


end
