(* ===== verification/Spec2Isabelle.thy ===== *)
theory Spec2Isabelle
  imports Mirror_Laws Rpm_Pin Rpm_Extract Bep_Digests Registry_Proxy Elf_Needs
    Debian_Snapshot Debian_Packages Ca_Bundle Tool_Versions Tarballs
    Rpmdb_Merge Grype_Db Knife_Apt Knife_Bep Fake_Registry Servers
begin

text \<open>
  A verification development for the Go programs of distroless: what they do, as executable
  definitions read from the source, and what makes each of them correct. Paths are those of the
  repository.

  \<^bold>\<open>The programs.\<close> Distroless builds container images with Bazel, publishes them to a registry
  with signed evidence (an SBOM, vulnerability scans, VEX documents, a ledger of what each tag
  has named), and serves two web programs in front of that registry. The code falls in four parts.

  \<^item> The directory (web/): pages that show what is in an image. web/internal/mirror reads
    evidence from the registry through the verifier of web/internal/attestation; the handlers and
    page models of web/internal/directory turn it into pages.
  \<^item> The registry proxy (oci/proxy): a read-only registry that sends requests to the upstream one.
  \<^item> The RPM tools (bazel/modules/rules_rpm/rpm): pin a closed list of packages to a lockfile;
    turn an RPM into a tar; merge the headers of RPMs into a database; extract the CA bundle of a
    trust source.
  \<^item> The Debian and Bazel tools (oci/debian, oci/tools, bazel): snapshots, lockfiles and
    licences of Debian packages; the check that every ELF of an image loads; one digest per
    target of a build; and what moves the pins of the build forward, the commands of knife over
    tarball lockfiles, versions.bzl files and the grype database.

  \<^bold>\<open>Go's standard library.\<close> What the programs use of it is modelled, not assumed.

  \<^item> Go_Prelude: strings, strconv, and results (a sum, the error on the left). A string is its
    bytes. Go_Sort: cmp, slices and sort, with the locale \<open>three_way\<close> for a comparator that is a
    total preorder on the values it is used with; every comparator of the program is an
    interpretation of it, or a theorem says why it is not. Go_Time: dates and RFC 3339.
    Go_Float: quotients of integers rounded to 53 bits. Go_Crypto: SHA-256 on 32-bit words.
    Go_Json: the decoder and encoder of encoding/json on the types the programs use (of a repeated
    key the last counts; the case of a key does not); Go_Json_Laws: what the encoder writes the
    decoder reads back. Go_Pem and Go_Asn1: encoding/pem with base64, and encoding/asn1 as far as
    certificates need it, each with its round trip. Go_Url, Go_Path (with the full algorithm of
    path.Match), Go_Bufio, Go_Tar (the USTAR writer and what an archive gives when it is extracted).
  \<^item> Go_Worklist: searches with a visited set, as the code writes them by hand, find what is
    reachable and end. Go_Runs: the locale \<open>terminating_runs\<close>, the contract of concurrent steps
    that keep an invariant, lower a measure and never deadlock; the lookups of the mirror client, the
    workers of knife and the life of the servers interpret it. The locale \<open>round_trip\<close>, the contract of an
    encoder and its decoder, is interpreted on hex, URL escapes, JSON, PEM and the lockfiles.

  \<^bold>\<open>The directory.\<close>

  \<^item> Version_Order (directory/version.go): \<open>CompareVersion\<close> is a total preorder on versions whose
    fragments alternate in the usual way, and agrees there with the order of the Debian policy;
    outside, it is not transitive, and a theorem shows where.
  \<^item> Sbom_Table (sbom.go), Scan_Report (scan.go), Release_Versions (versions.go), History_Page
    (history.go): the page models. The lemmas show that a page accounts for all it was given (rows,
    findings, tags, scans), in the order it promises, and that a chart stays in its plot. The
    geometry of the chart is in rationals where the code has float64.
  \<^item> Directory_Handler (page.go, catalog.go): routes, redirects, caching headers, downloads. Its
    locale \<open>evidence_source\<close> is the interface \<open>Source\<close> of the code, with the law the handler
    relies on: a permanent link resolves to what it was made from. Templates and embedded files
    are parameters.
  \<^item> Attestation (attestation.go): what is checked before a statement counts as verified; sigstore-go
    is a record of its calls.
  \<^item> Mirror_Evidence and Mirror_Client (mirror.go, mirror/history.go): what is read out of a
    predicate, and the client. Registry, verifier, CycloneDX decoder and the residency of the LRU
    caches are the fields of \<open>mirror\<close>; a client's state is its caches, each the log of what was put
    into it, and a lookup may or may not find the last entry, as the library decides. The concurrent
    lookups of a tag list are a step relation (\<open>fan_step\<close>) with at most eight running. The client
    interprets \<open>evidence_source\<close>.
  \<^item> Mirror_Laws: what holds across all histories of requests, in a world in which the registry
    may change between any two of them.

  \<^bold>\<open>The other programs.\<close>

  \<^item> Registry_Proxy (oci/proxy/proxy.go): what the upstream is asked, what is relayed, what may be
    cached and for how long.
  \<^item> Rpm_Keyring (rpm/keyring/keyring.go): a file of several armored keys. Rpm_Pin (rpm/tools/pin):
    index, providers, closure, validation, lockfile; network, gzip, XML, OpenPGP and rpmvercmp are
    the fields of \<open>rpm_world\<close>. Rpm_Extract (rpm/tools/rpm-extract): hardlink sets, stripping, the
    merge under /usr; the readers of go-rpmutils are parameters.
  \<^item> Fake_Registry (oci/ocitest/fakeregistry.go): the layer of tokens the proxy is tested against.
    Servers (web/cmd/server, oci/cmd/registry, web/internal/policy): what the two servers are made of,
    the life of their processes as the step relation \<open>server_step\<close>, and the directory from end to end:
    flags, verifier, client and pages composed.
  \<^item> Rpmdb_Merge (rpm/tools/rpmdb-merge): the calls made on the database, in order, deferred ones
    included, and the layer; SQLite is the function from those calls to outcomes and bytes. Ca_Bundle
    (rpm/tools/ca-bundle): the p11-kit file, the key of a certificate, and which anchors hold at a
    time for servers.
  \<^item> Bep_Digests (bazel/bep/bep.go). Elf_Needs (oci/tools/elfneeds/main.go): the file system and
    debug/elf are the fields of \<open>image_root\<close>. Debian_Snapshot (oci/debian/snapshot; YAML and HTTP are
    parameters). Debian_Packages (oci/debian/deb, copyright and lockfile; ar, tar and the
    decompressors are parameters).
  \<^item> Starlark: the syntax trees of buildtools the next two rewrite. Tool_Versions
    (bazel/toolversions): the versions.bzl file of a tool. Grype_Db (bazel/grypedb and knife grype):
    the database call of a module file. Parsing and printing are parameters, so the theorems are about
    trees. Tarballs (bazel/tarballs and knife tarballs): the locale \<open>line_source\<close> is the
    interface \<open>Source\<close>, interpreted on both upstreams; lockfile and update.
  \<^item> Knife (bazel/mod, and what the commands share), Knife_Bep (knife bep), Knife_Apt (knife apt): the
    workers that resolve licences are the step relation \<open>pool_step\<close>.

  \<^bold>\<open>Bounds and fuel.\<close> Functions are total. Where a loop of the code has a bound, the bound is the
  code's: forty links in \<open>fileInRoot\<close>, eight nested includes of ld.so.conf, three attempts of
  \<open>httpGet\<close>. Where the recursion is not structural, the fuel is the length of what is left to
  read plus one (\<open>armor_blocks\<close>, \<open>path_Match\<close>, the JSON reader), each round consuming at least one
  byte, or a measure is given.

  \<^bold>\<open>Maps.\<close> A Go map that is only looked up is a partial function; one that is ranged over is an
  association list, whose order stands for any order Go may choose, and the theorems about it hold
  for every such list.

  \<^bold>\<open>Not modelled.\<close> Log lines and warnings on standard error; timeouts and cancelled contexts;
  memory. The parsing of flags and the command-line tree of bazel/cmd/knife; web/internal/compress, which
  only configures a library. Errors of the writers that the code itself drops (the deferred
  closes of rpmdb-merge) do not show in the results. A nil map and an empty one are the same.
\<close>

end
